(* ===== verification/Prelude.thy ===== *)
theory Prelude
  imports Complex_Main "HOL-Library.Word" "HOL-Library.Signed_Division"
begin

text \<open>
  Shared ground of the development: the machine integers of the C++ sources, the exceptions
  they throw and the sequencing of code that may throw, and the generic lemmas on words,
  signed 64-bit arithmetic and powers of ten that the component theories rest on.
\<close>

unbundle bit_operations_syntax

subsection \<open>Machine integers\<close>

type_synonym u8 = "8 word"
type_synonym u16 = "16 word"
type_synonym u32 = "32 word"
type_synonym u64 = "64 word"
type_synonym uint160 = "160 word"
type_synonym uint256 = "256 word"

text \<open>
  A signed 64-bit result: the mathematical value brought back into range as two's complement
  does. \<open>std::int64_t\<close> arithmetic is written with \<open>int\<close> operations under \<open>s64\<close>.
\<close>

definition s64 :: "int \<Rightarrow> int" where
  "s64 x = sint (word_of_int x :: u64)"

subsection \<open>Exceptions\<close>

text \<open>
  \<open>throw std::runtime_error (msg)\<close> is \<open>Inl (RuntimeError msg)\<close>; code that may throw and code
  after it are put in sequence by \<open>bindE\<close>, which stops at the first exception.
\<close>

datatype exn = RuntimeError string | NullPointer

fun bindE :: "'e + 'a \<Rightarrow> ('a \<Rightarrow> 'e + 'b) \<Rightarrow> 'e + 'b" where
  "bindE (Inl e) f = Inl e"
| "bindE (Inr x) f = f x"

named_theorems exn_simps \<open>inversion of code that may throw\<close>

lemma bindE_eq_Inr [exn_simps]: "bindE m f = Inr y \<longleftrightarrow> (\<exists>x. m = Inr x \<and> f x = Inr y)"
  by (cases m) auto

lemma bindE_eq_Inl [exn_simps]:
  "bindE m f = Inl e \<longleftrightarrow> m = Inl e \<or> (\<exists>x. m = Inr x \<and> f x = Inl e)"
  by (cases m) auto

subsection \<open>Words as natural numbers\<close>

named_theorems to_nat \<open>word operations read through unat\<close>

lemmas [to_nat] = word_less_nat_alt word_le_nat_alt unat_div unat_mod

lemma unat_times10: "unat v * 10 < 2 ^ 64 \<Longrightarrow> unat (v * 10) = unat v * 10" for v :: u64
  by (simp add: unat_word_ariths)

lemma unat_div10 [simp]: "unat (v div 10) = unat v div 10" for v :: u64
  by (simp add: unat_div)

lemma s64_id: "- (2 ^ 63) \<le> x \<Longrightarrow> x < 2 ^ 63 \<Longrightarrow> s64 x = x"
  using signed_take_bit_int_eq_self [of 63 x] by (simp add: s64_def sint_sbintrunc')

lemma s64_range: "- (2 ^ 63) \<le> s64 x" "s64 x < 2 ^ 63"
  using sint_range_size [of "word_of_int x :: u64"] by (simp_all add: s64_def word_size)

subsection \<open>Powers of ten\<close>

abbreviation tenpow :: "int \<Rightarrow> rat" where
  "tenpow k \<equiv> 10 powi k"

lemma tenpow_pos [simp]: "0 < tenpow k"
  by (simp add: zero_less_power_int)

lemma tenpow_nz [simp]: "tenpow k \<noteq> 0"
  by simp

lemma tenpow_Suc: "tenpow (k + 1) = 10 * tenpow k"
  by (simp add: power_int_add)

lemma tenpow_pred: "tenpow k = 10 * tenpow (k - 1)"
  using tenpow_Suc [of "k - 1"] by simp

lemma tenpow_mono: "j \<le> k \<Longrightarrow> tenpow j \<le> tenpow k"
  by (simp add: power_int_increasing)

text \<open>\<open>of_nat (unat v)\<close> is kept as it stands; arithmetic runs on \<open>unat\<close>.\<close>

declare of_nat_unat [simp del]

lemma tenpow_add_nat: "tenpow (x + int j) = tenpow x * 10 ^ j"
  by (simp add: power_int_add)

lemma rat_split: "(of_nat m :: rat) = of_nat (m div 10 ^ n) * 10 ^ n + of_nat (m mod 10 ^ n)"
proof -
  have "of_nat m = (of_nat (m div 10 ^ n * 10 ^ n + m mod 10 ^ n) :: rat)" by (simp only: div_mult_mod_eq)
  then show ?thesis by (simp only: of_nat_add of_nat_mult of_nat_power of_nat_numeral)
qed

lemma rat_mod_less: "(of_nat (m mod 10 ^ n) :: rat) < 10 ^ n"
proof -
  have "(of_nat (m mod 10 ^ n) :: rat) < of_nat (10 ^ n)" by (simp only: of_nat_less_iff) simp
  then show ?thesis by simp
qed

lemma sdiv10_nonneg: "0 \<le> vv \<Longrightarrow> vv sdiv 10 = vv div 10" for vv :: int
  by (simp add: signed_divide_int_def sgn_if)

lemma sdiv10_minus: "(- vv) sdiv 10 = - (vv sdiv 10)" for vv :: int
  by (simp add: signed_divide_int_def)

lemma sint_small: "unat v < 2 ^ 63 \<Longrightarrow> sint v = int (unat v)" for v :: u64
proof -
  assume "unat v < 2 ^ 63"
  then have "- (2 ^ 63) \<le> uint v" "uint v < 2 ^ 63" unfolding uint_nat by simp_all
  then have "signed_take_bit 63 (uint v) = uint v" by (rule signed_take_bit_int_eq_self)
  then show ?thesis by (simp add: sint_uint uint_nat)
qed

lemma unat_word_of_int: "0 \<le> k \<Longrightarrow> k < 2 ^ 64 \<Longrightarrow> unat (word_of_int k :: u64) = nat k"
  by (simp add: unat_eq_nat_uint uint_word_of_int)

lemma abs_diff_same_sign: "0 \<le> a * b \<Longrightarrow> \<bar>b\<bar> \<le> \<bar>a\<bar> \<Longrightarrow> \<bar>a - b\<bar> = \<bar>a\<bar> - \<bar>b\<bar>" for a b :: rat
  by (auto simp: abs_if zero_le_mult_iff split: if_splits)

subsection \<open>Ordered maps\<close>

text \<open>
  A \<open>std::map\<close> is the list of its entries in key order. \<open>map_put\<close> is an assignment through
  \<open>operator[]\<close> or an \<open>insert\<close> of a new key, \<open>map_erase\<close> is \<open>erase\<close>, and \<open>map_of\<close> is \<open>find\<close>.
\<close>

fun map_put :: "'k :: linorder \<Rightarrow> 'v \<Rightarrow> ('k \<times> 'v) list \<Rightarrow> ('k \<times> 'v) list" where
  "map_put k x [] = [(k, x)]"
| "map_put k x ((a, b) # m) =
     (if k < a then (k, x) # (a, b) # m else if k = a then (k, x) # m else (a, b) # map_put k x m)"

definition map_erase :: "'k \<Rightarrow> ('k \<times> 'v) list \<Rightarrow> ('k \<times> 'v) list" where
  "map_erase k m = filter (\<lambda>p. fst p \<noteq> k) m"

abbreviation in_order :: "('k :: linorder \<times> 'v) list \<Rightarrow> bool" where
  "in_order m \<equiv> sorted_wrt (<) (map fst m)"

lemma map_put_set: "k \<notin> fst ` set m \<Longrightarrow> set (map_put k x m) = insert (k, x) (set m)"
  by (induction k x m rule: map_put.induct) auto

lemma map_put_keys: "fst ` set (map_put k x m) = insert k (fst ` set m)"
  by (induction k x m rule: map_put.induct) auto

lemma map_of_map_put [simp]: "in_order m \<Longrightarrow> map_of (map_put k x m) = (map_of m)(k \<mapsto> x)"
proof (induction k x m rule: map_put.induct)
  case (2 k x a b m)
  then show ?case by (cases "k = a") (auto simp: fun_eq_iff)
qed simp

lemma in_order_map_put [simp]: "in_order m \<Longrightarrow> in_order (map_put k x m)"
  by (induction k x m rule: map_put.induct) (auto simp: map_put_keys dest: image_eqI [THEN rev_image_eqI])

lemma map_of_map_erase [simp]: "map_of (map_erase k m) = (map_of m)(k := None)"
  by (induction m) (auto simp: map_erase_def fun_eq_iff)

lemma in_order_map_erase [simp]: "in_order m \<Longrightarrow> in_order (map_erase k m)"
  by (induction m) (auto simp: map_erase_def)

end
