(* ===== verification/Range_Set.thy ===== *)
theory Range_Set
  imports Prelude
begin

text \<open>
  Class \<open>RangeSet\<close> of \<open>src/ripple_basics/containers/RangeSet.cpp\<close>, the sparse set of ledger sequence
  numbers a server holds: a \<open>std::map\<close> from the first to the last element of each range, modelled as
  the list of its entries in key order. The set a map stands for is \<open>elems\<close>; the invariant
  \<open>ranges_ok\<close> (what \<open>checkInternalConsistency\<close> asserts) says that the ranges are non-empty and
  separated by at least one missing element.
\<close>

type_synonym ranges = "(u32 \<times> u32) list"

definition absent :: u32 where
  "absent = -1"

fun contains :: "u32 \<times> u32 \<Rightarrow> u32 \<Rightarrow> bool" where
  "contains (a, b) v \<longleftrightarrow> a \<le> v \<and> v \<le> b"

fun hasValue :: "ranges \<Rightarrow> u32 \<Rightarrow> bool" where
  "hasValue [] v = False"
| "hasValue (r # m) v = (if contains r v then True else hasValue m v)"

definition getFirst :: "ranges \<Rightarrow> u32" where
  "getFirst m = (case m of [] \<Rightarrow> absent | r # _ \<Rightarrow> fst r)"

fun getNext :: "ranges \<Rightarrow> u32 \<Rightarrow> u32" where
  "getNext [] v = absent"
| "getNext (r # m) v = (if fst r > v then fst r else if contains r (v + 1) then v + 1 else getNext m v)"

definition getLast :: "ranges \<Rightarrow> u32" where
  "getLast m = (case rev m of [] \<Rightarrow> absent | r # _ \<Rightarrow> snd r)"

text \<open>\<open>getPrev\<close> walks the map backwards.\<close>

fun getPrev_loop :: "ranges \<Rightarrow> u32 \<Rightarrow> u32" where
  "getPrev_loop [] v = absent"
| "getPrev_loop (r # m) v =
     (if snd r < v then snd r else if contains r (v + 1) then v - 1 else getPrev_loop m v)"

definition getPrev :: "ranges \<Rightarrow> u32 \<Rightarrow> u32" where
  "getPrev m v = getPrev_loop (rev m) v"

fun prevMissing_loop :: "ranges \<Rightarrow> u32 \<Rightarrow> u32" where
  "prevMissing_loop [] result = result"
| "prevMissing_loop (r # m) result = (if contains r result then fst r - 1 else prevMissing_loop m result)"

definition prevMissing :: "ranges \<Rightarrow> u32 \<Rightarrow> u32" where
  "prevMissing m v = (if v \<noteq> 0 then prevMissing_loop (rev m) (v - 1) else absent)"

fun simplify :: "ranges \<Rightarrow> ranges" where
  "simplify ((a, b) # (c, d) # m) =
     (if b \<ge> c - 1 then simplify ((a, max b d) # m) else (a, b) # simplify ((c, d) # m))"
| "simplify m = m"

definition setValue :: "ranges \<Rightarrow> u32 \<Rightarrow> ranges" where
  "setValue m v = (if \<not> hasValue m v then simplify (map_put v v m) else m)"

text \<open>The loop at the head of \<open>setRange\<close>; \<open>None\<close> is its early return.\<close>

function skip_present :: "ranges \<Rightarrow> u32 \<Rightarrow> u32 \<Rightarrow> u32 option" where
  "skip_present m minV maxV =
     (if hasValue m minV then
        if minV + 1 \<ge> maxV then None else skip_present m (minV + 1) maxV
      else Some minV)"
  by pat_completeness auto
termination
proof (relation "measure (\<lambda>(m, minV, maxV). if minV < maxV then unat maxV - unat minV else 2 ^ 32)", simp)
  fix m :: ranges and minV maxV :: u32
  assume "\<not> minV + 1 \<ge> maxV"
  then have 1: "minV + 1 < maxV" by simp
  have "unat maxV < 2 ^ 32" using unsigned_less [of maxV, where 'a = nat] by simp
  moreover have "unat (minV + 1) = unat minV + 1" if "minV < maxV"
    using that by (simp add: unat_word_ariths word_less_nat_alt) (use \<open>unat maxV < 2 ^ 32\<close> in simp)
  ultimately show "((m, minV + 1, maxV), m, minV, maxV)
      \<in> measure (\<lambda>(m, minV, maxV). if minV < maxV then unat maxV - unat minV else 2 ^ 32)"
    using 1 by (auto simp: word_less_nat_alt)
qed

declare skip_present.simps [simp del]

definition setRange :: "ranges \<Rightarrow> u32 \<Rightarrow> u32 \<Rightarrow> ranges" where
  "setRange m minV maxV =
     (case skip_present m minV maxV of None \<Rightarrow> m | Some minV \<Rightarrow> simplify (map_put minV maxV m))"

text \<open>
  \<open>clearValue\<close>: \<open>pre\<close> are the entries already passed, \<open>all\<close> is put together again around the entry
  found; an entry put at \<open>v + 1\<close> goes through \<open>operator[]\<close> of the whole map.
\<close>

fun clearValue_loop :: "ranges \<Rightarrow> ranges \<Rightarrow> u32 \<Rightarrow> ranges" where
  "clearValue_loop pre [] v = rev pre"
| "clearValue_loop pre ((a, b) # m) v =
     (if contains (a, b) v then
        if a = v then
          if b = v then rev pre @ m
          else map_put (v + 1) b (rev pre @ m)
        else if b = v then rev pre @ (a, b - 1) # m
        else map_put (v + 1) b (rev pre @ (a, v - 1) # m)
      else clearValue_loop ((a, b) # pre) m v)"

definition clearValue :: "ranges \<Rightarrow> u32 \<Rightarrow> ranges" where
  "clearValue m v = clearValue_loop [] m v"

text \<open>\<open>checkInternalConsistency\<close>, which debug builds run after every change.\<close>

fun checkInternalConsistency :: "ranges \<Rightarrow> bool" where
  "checkInternalConsistency [] = True"
| "checkInternalConsistency [(a, b)] \<longleftrightarrow> a \<le> b"
| "checkInternalConsistency ((a, b) # (c, d) # m) \<longleftrightarrow>
     a \<le> b \<and> c \<le> d \<and> b + 1 < c \<and> checkInternalConsistency ((c, d) # m)"

subsection \<open>The set a map stands for, and the invariant\<close>

definition elems :: "ranges \<Rightarrow> u32 set" where
  "elems m = {v. \<exists>r \<in> set m. contains r v}"

definition apart :: "u32 \<times> u32 \<Rightarrow> u32 \<times> u32 \<Rightarrow> bool" where
  "apart p q \<longleftrightarrow> unat (snd p) + 1 < unat (fst q)"

definition ranges_ok :: "ranges \<Rightarrow> bool" where
  "ranges_ok m \<longleftrightarrow> (\<forall>p \<in> set m. fst p \<le> snd p) \<and> sorted_wrt apart m"

text \<open>What holds between an insertion and the \<open>simplify\<close> after it.\<close>

definition keyed :: "ranges \<Rightarrow> bool" where
  "keyed m \<longleftrightarrow> (\<forall>p \<in> set m. fst p \<le> snd p) \<and> sorted_wrt (\<lambda>p q. fst p < fst q) m"

text \<open>A series of changes: insertions (\<open>True\<close>) and deletions (\<open>False\<close>).\<close>

fun change :: "('s \<Rightarrow> 'a \<Rightarrow> 's) \<Rightarrow> ('s \<Rightarrow> 'a \<Rightarrow> 's) \<Rightarrow> 's \<Rightarrow> 'a \<times> bool \<Rightarrow> 's" where
  "change add del s (v, True) = add s v"
| "change add del s (v, False) = del s v"

subsection \<open>Changes\<close>

lemma contains_iff: "contains p v \<longleftrightarrow> fst p \<le> v \<and> v \<le> snd p"
  by (cases p) simp

lemma elems_simps [simp]: "elems [] = {}" "elems (p # m) = {fst p..snd p} \<union> elems m" "elems (m @ n) = elems m \<union> elems n"
  "elems (rev m) = elems m"
  by (auto simp: elems_def contains_iff)

lemma hasValue_iff: "hasValue m v \<longleftrightarrow> v \<in> elems m"
  by (induction m) (auto simp: contains_iff)

lemma elems_mem: "v \<in> elems m \<longleftrightarrow> (\<exists>p \<in> set m. fst p \<le> v \<and> v \<le> snd p)"
  by (auto simp: elems_def contains_iff)

lemma apart_less: "apart p q \<Longrightarrow> fst p \<le> snd p \<Longrightarrow> fst p < fst q \<and> snd p < fst q"
  by (auto simp: apart_def word_less_nat_alt word_le_nat_alt)

lemma ranges_ok_keyed: "ranges_ok m \<Longrightarrow> keyed m"
  unfolding ranges_ok_def keyed_def
  by (auto intro: sorted_wrt_mono_rel [rotated] dest: apart_less)

lemma map_put_mid:
  "(\<forall>p \<in> set P. fst p < k) \<Longrightarrow> (\<forall>p \<in> set m. k < fst p) \<Longrightarrow> map_put k x (P @ m) = P @ (k, x) # m"
  by (induction P) (auto, cases m, auto)

lemma map_put_keyed: "keyed m \<Longrightarrow> k \<le> x \<Longrightarrow> k \<notin> fst ` set m \<Longrightarrow> keyed (map_put k x m)"
proof (induction k x m rule: map_put.induct)
  case (2 k x a b m)
  then show ?case by (auto simp: keyed_def map_put_set not_less order.order_iff_strict)
qed (simp add: keyed_def)

lemma sub1: "a < c \<Longrightarrow> unat (c - 1) = unat c - 1" for a c :: u32
  by (subst unat_sub) (auto simp: word_less_nat_alt word_le_nat_alt)

lemma adjacent_iff: "a < c \<Longrightarrow> b \<ge> c - 1 \<longleftrightarrow> unat c \<le> unat b + 1" for a b c :: u32
  using sub1 [of a c] by (auto simp: word_le_nat_alt word_less_nat_alt)

lemma merge_union:
  fixes a b c d :: u32
  assumes "a < c" "b \<ge> c - 1" "a \<le> b" "c \<le> d"
  shows "{a..b} \<union> {c..d} = {a..max b d}"
  using assms adjacent_iff [OF assms(1), of b]
  by (auto simp: max_def word_le_nat_alt word_less_nat_alt split: if_splits)

lemma simplify_elems: "keyed m \<Longrightarrow> elems (simplify m) = elems m"
proof (induction m rule: simplify.induct)
  case (1 a b c d m)
  then have h: "a < c" "a \<le> b" "c \<le> d" by (auto simp: keyed_def)
  show ?case
  proof (cases "b \<ge> c - 1")
    case True
    have "keyed ((a, max b d) # m)" using 1(3) by (auto simp: keyed_def le_max_iff_disj)
    then show ?thesis using 1(1) [OF True] True merge_union [OF h(1) True h(2,3)] by auto
  next
    case False
    then show ?thesis using 1(2,3) by (auto simp: keyed_def)
  qed
qed auto

lemma simplify_lower: "keyed ((a, b) # m) \<Longrightarrow> p \<in> set (simplify ((a, b) # m)) \<Longrightarrow> a \<le> fst p"
proof (induction "(a, b) # m" arbitrary: a b m rule: simplify.induct)
  case (1 a b c d m)
  show ?case
  proof (cases "b \<ge> c - 1")
    case True
    have "keyed ((a, max b d) # m)" using 1(3) by (auto simp: keyed_def le_max_iff_disj)
    then show ?thesis using 1(1) [OF True] 1(4) True by auto
  next
    case False
    then have "p = (a, b) \<or> p \<in> set (simplify ((c, d) # m))" using 1(4) by auto
    moreover have "keyed ((c, d) # m)" "a < c" using 1(3) by (auto simp: keyed_def)
    ultimately show ?thesis using 1(2) [OF False] by fastforce
  qed
qed auto

lemma simplify_ok: "keyed m \<Longrightarrow> ranges_ok (simplify m)"
proof (induction m rule: simplify.induct)
  case (1 a b c d m)
  then have h: "a < c" "a \<le> b" "c \<le> d" by (auto simp: keyed_def)
  show ?case
  proof (cases "b \<ge> c - 1")
    case True
    have "keyed ((a, max b d) # m)" using 1(3) by (auto simp: keyed_def le_max_iff_disj)
    then show ?thesis using 1(1) [OF True] True by auto
  next
    case False
    then have ap: "unat b + 1 < unat c" using adjacent_iff [OF h(1), of b] by simp
    have k: "keyed ((c, d) # m)" using 1(3) by (auto simp: keyed_def)
    have "apart (a, b) q" if "q \<in> set (simplify ((c, d) # m))" for q
      using simplify_lower [OF k that] ap by (auto simp: apart_def word_le_nat_alt)
    then show ?thesis using 1(2) [OF False k] False h by (auto simp: ranges_ok_def)
  qed
qed (auto simp: ranges_ok_def keyed_def)

lemma ok_first: "ranges_ok m \<Longrightarrow> fst ` set m \<subseteq> elems m"
  by (auto simp: ranges_ok_def elems_mem) (metis fst_conv order_refl)

lemma put_ok:
  assumes "ranges_ok m" "v \<notin> elems m" "v \<le> x"
  shows "ranges_ok (simplify (map_put v x m))" "elems (simplify (map_put v x m)) = elems m \<union> {v..x}"
proof -
  have f: "v \<notin> fst ` set m" using ok_first [OF assms(1)] assms(2) by auto
  have k: "keyed (map_put v x m)" using map_put_keyed [OF ranges_ok_keyed] assms f by blast
  show "ranges_ok (simplify (map_put v x m))" using k by (rule simplify_ok)
  show "elems (simplify (map_put v x m)) = elems m \<union> {v..x}"
    unfolding simplify_elems [OF k] by (auto simp: elems_mem map_put_set [OF f])
qed

lemma setValue_ok: "ranges_ok m \<Longrightarrow> ranges_ok (setValue m v)"
  and setValue_elems: "ranges_ok m \<Longrightarrow> elems (setValue m v) = insert v (elems m)"
  using put_ok [of m v v] by (auto simp: setValue_def hasValue_iff)

lemma succ_le: "v < w \<Longrightarrow> unat (v + 1) = unat v + 1" for v w :: u32
  using unsigned_less [of w, where 'a = nat] by (simp add: unat_word_ariths word_less_nat_alt)

lemma upto_Suc: "v < w \<Longrightarrow> {v..<u} \<subseteq> insert v {v + 1..<u}" for v w u :: u32
  using succ_le [of v w] by (auto simp: word_less_nat_alt word_le_nat_alt word_unat_eq_iff)

lemma skip_present_spec:
  assumes "lo \<le> hi" "hi \<noteq> absent"
  shows "case skip_present m lo hi of
      None \<Rightarrow> lo \<in> elems m \<and> {lo..<hi} \<subseteq> elems m
    | Some x \<Rightarrow> lo \<le> x \<and> x \<le> hi \<and> x \<notin> elems m \<and> {lo..<x} \<subseteq> elems m \<and> (x = hi \<longrightarrow> lo = hi)"
  using assms
proof (induction m lo hi rule: skip_present.induct)
  case (1 m lo hi)
  have "hi < absent" using 1(3) by (simp add: absent_def word_order.not_eq_extremum)
  then have lt: "lo < absent" using 1(2) by simp
  note s = succ_le [OF lt]
  consider "lo \<notin> elems m" | "lo \<in> elems m" "lo + 1 \<ge> hi" | "lo \<in> elems m" "lo + 1 < hi" by force
  then show ?case
  proof cases
    case 2
    then have "{lo..<hi} \<subseteq> {lo}" using s by (auto simp: word_less_nat_alt word_le_nat_alt word_unat_eq_iff)
    then show ?thesis using 2 by (auto simp: skip_present.simps [of m lo hi] hasValue_iff)
  next
    case 3
    then have "lo < lo + 1" using s by (simp add: word_less_nat_alt)
    moreover have "{lo..<x} \<subseteq> elems m" if "{lo + 1..<x} \<subseteq> elems m" for x
      using upto_Suc [OF lt, of x] 3(1) that by blast
    moreover have "case skip_present m (lo + 1) hi of
      None \<Rightarrow> lo + 1 \<in> elems m \<and> {lo + 1..<hi} \<subseteq> elems m
    | Some x \<Rightarrow> lo + 1 \<le> x \<and> x \<le> hi \<and> x \<notin> elems m \<and> {lo + 1..<x} \<subseteq> elems m \<and> (x = hi \<longrightarrow> lo + 1 = hi)"
      using 1 3 by (simp add: hasValue_iff)
    ultimately show ?thesis using 3
      by (auto simp: skip_present.simps [of m lo hi] hasValue_iff split: option.splits)
  qed (use 1 in \<open>auto simp: skip_present.simps [of m lo hi] hasValue_iff\<close>)
qed

lemma setRange_spec:
  assumes "ranges_ok m" "lo \<le> hi" "hi \<noteq> absent"
  shows "ranges_ok (setRange m lo hi)"
    "elems (setRange m lo hi) = (if lo \<in> elems m \<and> {lo..<hi} \<subseteq> elems m then elems m else elems m \<union> {lo..hi})"
proof -
  note sp = skip_present_spec [OF assms(2,3), of m]
  show "ranges_ok (setRange m lo hi)"
    using assms(1) sp put_ok(1) [OF assms(1)] by (auto simp: setRange_def split: option.splits)
  show "elems (setRange m lo hi) = (if lo \<in> elems m \<and> {lo..<hi} \<subseteq> elems m then elems m else elems m \<union> {lo..hi})"
  proof (cases "skip_present m lo hi")
    case None
    then show ?thesis using sp by (simp add: setRange_def)
  next
    case (Some x)
    then have x: "lo \<le> x" "x \<le> hi" "x \<notin> elems m" "{lo..<x} \<subseteq> elems m" "x = hi \<longrightarrow> lo = hi" using sp by auto
    have "\<not> (lo \<in> elems m \<and> {lo..<hi} \<subseteq> elems m)"
      using x by (cases "x = hi") (auto simp: order.order_iff_strict)
    moreover have "elems m \<union> {x..hi} = elems m \<union> {lo..hi}"
      using x(4) ivl_disj_un_two(7) [OF x(1,2)] by blast
    ultimately show ?thesis using put_ok(2) [OF assms(1) x(3,2)] Some by (simp add: setRange_def) blast
  qed
qed


lemma ok_append: "ranges_ok (P @ m) \<longleftrightarrow> ranges_ok P \<and> ranges_ok m \<and> (\<forall>p \<in> set P. \<forall>q \<in> set m. apart p q)"
  by (auto simp: ranges_ok_def sorted_wrt_append)

lemma ok_Cons: "ranges_ok (p # m) \<longleftrightarrow> fst p \<le> snd p \<and> ranges_ok m \<and> (\<forall>q \<in> set m. apart p q)"
  by (auto simp: ranges_ok_def)

lemma ok_disjoint: "ranges_ok (P @ (a, b) # m) \<Longrightarrow> a \<le> v \<Longrightarrow> v \<le> b \<Longrightarrow> v \<notin> elems (P @ m)"
  by (fastforce simp: ok_append ok_Cons elems_mem apart_def word_le_nat_alt)

text \<open>Removing one element from the range that holds it.\<close>

lemma clear_found:
  assumes ok: "ranges_ok (P @ (a, b) # m)" and v: "a \<le> v" "v \<le> b"
  defines "m' \<equiv> (if a = v then if b = v then P @ m else map_put (v + 1) b (P @ m)
    else if b = v then P @ (a, b - 1) # m else map_put (v + 1) b (P @ (a, v - 1) # m))"
  shows "ranges_ok m' \<and> elems m' = elems (P @ (a, b) # m) - {v}"
proof -
  have out: "v \<notin> elems P" "v \<notin> elems m" using ok_disjoint [OF ok v] by simp_all
  have PM: "ranges_ok P" "ranges_ok m" "\<forall>p \<in> set P. apart p (a, b)" "\<forall>q \<in> set m. apart (a, b) q"
    "\<forall>p \<in> set P. \<forall>q \<in> set m. apart p q"
    using ok by (auto simp: ok_append ok_Cons)
  have up: "unat (v + 1) = unat v + 1" if "v \<noteq> b" using that v(2) by (intro succ_le [of v b]) simp
  have dn: "unat (v - 1) = unat v - 1" "unat a < unat v" if "a \<noteq> v" using that v(1) sub1 [of a v] by (auto simp: word_less_nat_alt word_le_nat_alt word_unat_eq_iff)
  have Pk: "fst p < v + 1" if "p \<in> set P" "v \<noteq> b" for p
  proof -
    have "apart p (a, b)" "fst p \<le> snd p" using that PM by (auto simp: ranges_ok_def)
    then show ?thesis using up [OF that(2)] v by (simp add: apart_def word_less_nat_alt word_le_nat_alt)
  qed
  have mk: "v + 1 < fst q" if "q \<in> set m" "v \<noteq> b" for q
    using that PM v up by (force simp: apart_def word_less_nat_alt word_le_nat_alt word_unat_eq_iff)
  have hi: "{v + 1..b} = {v..b} - {v}" if "v \<noteq> b"
    using up [OF that] v(2) by (auto simp: word_less_nat_alt word_le_nat_alt word_unat_eq_iff)
  have lo: "{a..v - 1} = {a..v} - {v}" if "a \<noteq> v"
    using dn [OF that] v by (auto simp: word_less_nat_alt word_le_nat_alt word_unat_eq_iff)
  consider "a = v" "b = v" | "a = v" "b \<noteq> v" | "a \<noteq> v" "b = v" | "a \<noteq> v" "b \<noteq> v" by blast
  then show ?thesis
  proof cases
    case 1
    then show ?thesis using out PM by (auto simp: m'_def ok_append)
  next
    case 2
    then have m': "m' = P @ (v + 1, b) # m" using Pk mk by (simp add: m'_def map_put_mid)
    have "ranges_ok m'" using PM v up 2 by (auto simp: m' ok_append ok_Cons apart_def word_le_nat_alt word_unat_eq_iff)
    then show ?thesis using 2 hi out by (auto simp: m')
  next
    case 3
    then have m': "m' = P @ (a, v - 1) # m" by (simp add: m'_def)
    have "ranges_ok m'" using PM v dn 3 by (auto simp: m' ok_append ok_Cons apart_def word_le_nat_alt)
    then show ?thesis using 3 lo out by (auto simp: m')
  next
    case 4
    have "a < v + 1" using v up 4 by (simp add: word_less_nat_alt word_le_nat_alt)
    then have "map_put (v + 1) b ((P @ [(a, v - 1)]) @ m) = (P @ [(a, v - 1)]) @ (v + 1, b) # m"
      using 4 Pk mk by (intro map_put_mid) auto
    then have m': "m' = P @ (a, v - 1) # (v + 1, b) # m" using 4 by (simp add: m'_def)
    have "ranges_ok m'" using PM v dn up 4 by (auto simp: m' ok_append ok_Cons apart_def word_le_nat_alt word_unat_eq_iff)
    moreover have "{a..b} = {a..v} \<union> {v..b}" using v by (intro ivl_disj_un_two_touch(4) [symmetric])
    ultimately show ?thesis using 4 lo hi out by (auto simp: m')
  qed
qed

lemma clearValue_loop_spec:
  "ranges_ok (rev P @ m) \<Longrightarrow> v \<notin> elems P \<Longrightarrow>
    ranges_ok (clearValue_loop P m v) \<and> elems (clearValue_loop P m v) = elems (rev P @ m) - {v}"
proof (induction P m v rule: clearValue_loop.induct)
  case (2 P a b m v)
  show ?case
  proof (cases "contains (a, b) v")
    case True
    then show ?thesis using clear_found [of "rev P" a b m v] 2(2) by simp
  next
    case False
    then show ?thesis using 2 by auto
  qed
qed auto

lemma clearValue_ok: "ranges_ok m \<Longrightarrow> ranges_ok (clearValue m v)"
  and clearValue_elems: "ranges_ok m \<Longrightarrow> elems (clearValue m v) = elems m - {v}"
  using clearValue_loop_spec [of "[]" m v] by (simp_all add: clearValue_def)

text \<open>
  The interface the rest of the server relies on: a set of sequence numbers with membership,
  insertion and deletion, and what a series of changes leaves in it.
\<close>

locale value_set =
  fixes ok :: "'s \<Rightarrow> bool" and abs :: "'s \<Rightarrow> 'a set"
    and has :: "'s \<Rightarrow> 'a \<Rightarrow> bool" and add :: "'s \<Rightarrow> 'a \<Rightarrow> 's" and del :: "'s \<Rightarrow> 'a \<Rightarrow> 's"
  assumes has_abs: "ok s \<Longrightarrow> has s v \<longleftrightarrow> v \<in> abs s"
    and add_ok: "ok s \<Longrightarrow> ok (add s v)" and add_abs: "ok s \<Longrightarrow> abs (add s v) = insert v (abs s)"
    and del_ok: "ok s \<Longrightarrow> ok (del s v)" and del_abs: "ok s \<Longrightarrow> abs (del s v) = abs s - {v}"
begin

lemma change_ok: "ok s \<Longrightarrow> ok (change add del s c)"
  by (cases c; cases "snd c") (auto simp: add_ok del_ok)

lemma changes_ok: "ok s \<Longrightarrow> ok (foldl (change add del) s cs)"
  by (induction cs arbitrary: s) (auto simp: change_ok)

lemma changes_has:
  "ok s \<Longrightarrow> has (foldl (change add del) s cs) v \<longleftrightarrow>
    (case map_of (rev cs) v of Some b \<Rightarrow> b | None \<Rightarrow> has s v)"
proof (induction cs rule: rev_induct)
  case (snoc c cs)
  obtain w b where c: "c = (w, b)" by (cases c)
  show ?case using snoc changes_ok [OF snoc(2), of cs]
    by (cases b) (auto simp: c has_abs add_ok add_abs del_ok del_abs)
qed simp

end

interpretation rs: value_set ranges_ok elems hasValue setValue clearValue
  by unfold_locales (simp_all add: hasValue_iff setValue_ok setValue_elems clearValue_ok clearValue_elems)

subsection \<open>Observers\<close>

lemma check_ok: "ranges_ok m \<Longrightarrow> checkInternalConsistency m"
proof (induction m rule: checkInternalConsistency.induct)
  case (3 a b c d m)
  then have "unat b + 1 < unat c" by (simp add: ok_Cons apart_def)
  moreover have "b < c" using calculation by (simp add: word_less_nat_alt)
  ultimately have "b + 1 < c" using succ_le [of b c] by (simp add: word_less_nat_alt)
  then show ?case using 3 by (simp add: ok_Cons)
qed (simp_all add: ok_Cons)

lemma getNext_spec:
  assumes "ranges_ok m" "v \<noteq> absent"
  shows "if \<exists>w \<in> elems m. v < w then getNext m v \<in> elems m \<and> v < getNext m v \<and> (\<forall>w \<in> elems m. v < w \<longrightarrow> getNext m v \<le> w)
    else getNext m v = absent"
  using assms
proof (induction m)
  case (Cons p m)
  have lt: "v < absent" using Cons(3) by (simp add: absent_def word_order.not_eq_extremum)
  note s = succ_le [OF lt]
  have ok: "ranges_ok m" "fst p \<le> snd p" "\<And>w. w \<in> elems m \<Longrightarrow> snd p < w"
    using Cons(2) by (auto simp: ok_Cons elems_mem apart_def word_less_nat_alt word_le_nat_alt)
  have ge: "fst p \<le> w" if "w \<in> elems m" for w using ok(2) ok(3) [OF that] by order
  consider "fst p > v" | "\<not> fst p > v" "contains p (v + 1)" | "\<not> fst p > v" "\<not> contains p (v + 1)" by blast
  then show ?case
  proof cases
    case 1
    then show ?thesis using ok ge by auto
  next
    case 2
    then have "v + 1 \<in> elems (p # m)" "v < v + 1" using s by (auto simp: contains_iff word_less_nat_alt)
    moreover have "v + 1 \<le> w" if "v < w" for w using that s by (simp add: word_less_nat_alt word_le_nat_alt)
    ultimately show ?thesis using 2 by auto
  next
    case 3
    then have "snd p \<le> v" using s by (auto simp: contains_iff word_less_nat_alt word_le_nat_alt)
    then have "(\<exists>w \<in> elems (p # m). v < w) \<longleftrightarrow> (\<exists>w \<in> elems m. v < w)" by auto
    moreover have "getNext (p # m) v = getNext m v" using 3 by simp
    ultimately show ?thesis using Cons(1) [OF ok(1) Cons(3)] \<open>snd p \<le> v\<close> by (auto split: if_splits)
  qed
qed simp

lemma prevMissing_loop_spec:
  "ranges_ok (rev m) \<Longrightarrow> (r \<notin> elems m \<and> prevMissing_loop m r = r) \<or>
    (\<exists>p \<in> set m. contains p r \<and> prevMissing_loop m r = fst p - 1)"
  by (induction m) (auto simp: ok_append contains_iff)

lemma pred_less: "v \<noteq> 0 \<Longrightarrow> unat (v - 1) = unat v - 1 \<and> unat v \<noteq> 0" for v :: u32
  using sub1 [of 0 v] by (simp add: word_neq_0_conv unat_eq_0 word_coorder.not_eq_extremum)

lemma below_range:
  assumes "ranges_ok m" "p \<in> set m" "fst p \<noteq> 0"
  shows "fst p - 1 \<notin> elems m"
proof
  assume "fst p - 1 \<in> elems m"
  then obtain q where q: "q \<in> set m" "fst q \<le> fst p - 1" "fst p - 1 \<le> snd q" by (auto simp: elems_mem)
  note pl = pred_less [OF assms(3)]
  have le: "unat (fst q) \<le> unat (fst p) - 1" "unat (fst p) - 1 \<le> unat (snd q)"
    using q(2,3) pl by (simp_all only: word_le_nat_alt)
  obtain A B where m: "m = A @ p # B" using assms(2) by (auto dest: split_list)
  then have "q \<in> set A \<or> q = p \<or> q \<in> set B" using q(1) by auto
  then show False
  proof (elim disjE)
    assume "q \<in> set A"
    then have "apart q p" using assms(1) by (auto simp: m ok_append)
    then show False using le(2) unfolding apart_def by linarith
  next
    assume "q = p"
    then show False using le(1) pl by auto
  next
    assume "q \<in> set B"
    then have "apart p q" "fst p \<le> snd p" using assms(1) by (auto simp: m ok_append ok_Cons)
    then show False using le(1) unfolding apart_def word_le_nat_alt by linarith
  qed
qed

lemma prevMissing_spec:
  assumes "ranges_ok m" "v \<noteq> 0"
  shows "if {..<v} \<subseteq> elems m then prevMissing m v = absent
    else prevMissing m v < v \<and> prevMissing m v \<notin> elems m \<and> {prevMissing m v<..<v} \<subseteq> elems m"
proof -
  note pl = pred_less [OF assms(2)]
  have lt: "w < v \<longleftrightarrow> w \<le> v - 1" for w using pl by (auto simp: word_less_nat_alt word_le_nat_alt)
  from prevMissing_loop_spec [of "rev m" "v - 1"] assms(1)
  consider "v - 1 \<notin> elems m" "prevMissing m v = v - 1"
    | p where "p \<in> set m" "fst p \<le> v - 1" "v - 1 \<le> snd p" "prevMissing m v = fst p - 1"
    using assms(2) by (auto simp: prevMissing_def contains_iff)
  then show ?thesis
  proof cases
    case 1
    have "v - 1 < v" using lt by simp
    moreover have "w \<notin> {v - 1<..<v}" for w using lt [of w] leD by (simp only: greaterThanLessThan_iff) blast
    then have "{v - 1<..<v} = {}" by blast
    moreover have "\<not> {..<v} \<subseteq> elems m" using 1(1) \<open>v - 1 < v\<close> by blast
    ultimately show ?thesis using 1 by (simp only: if_False empty_subsetI not_False_eq_True simp_thms)
  next
    case 2
    have in_p: "{fst p..<v} \<subseteq> elems m"
    proof
      fix w assume "w \<in> {fst p..<v}"
      then have "fst p \<le> w" "w \<le> snd p" using 2(3) lt [of w] order.trans by (simp_all only: atLeastLessThan_iff) blast
      then show "w \<in> elems m" using 2(1) by (auto simp: elems_mem)
    qed
    show ?thesis
    proof (cases "fst p = 0")
      case True
      moreover have "{0..<v} = {..<v}" by auto
      ultimately show ?thesis using 2(4) in_p by (simp add: absent_def)
    next
      case False
      note pp = pred_less [OF False]
      have "fst p - 1 < v" using 2(2) pl pp unfolding word_less_nat_alt word_le_nat_alt by linarith
      moreover have "{fst p - 1<..<v} \<subseteq> {fst p..<v}" using pp by (auto simp: word_less_nat_alt word_le_nat_alt; linarith)
      moreover have "\<not> {..<v} \<subseteq> elems m" using below_range [OF assms(1) 2(1) False] \<open>fst p - 1 < v\<close> by blast
      ultimately show ?thesis using 2(4) below_range [OF assms(1) 2(1) False] in_p by (simp add: subset_trans)
    qed
  qed
qed

subsection \<open>Properties\<close>

text \<open>
  C33. A \<open>RangeSet\<close> behaves as a set under any series of \<open>setValue\<close> and \<open>clearValue\<close>: from a consistent
  map, \<open>hasValue\<close> afterwards answers by the last change made to the element, and by the original
  map where there was none; the assertions of \<open>checkInternalConsistency\<close> hold throughout.
\<close>

theorem range_set_changes:
  assumes "ranges_ok m"
  shows "(hasValue (foldl (change setValue clearValue) m cs) v \<longleftrightarrow>
      (case map_of (rev cs) v of Some b \<Rightarrow> b | None \<Rightarrow> hasValue m v)) \<and>
    checkInternalConsistency (foldl (change setValue clearValue) m cs)"
  using rs.changes_has [OF assms] check_ok [OF rs.changes_ok [OF assms]] by simp

theorem range_set_changes_witness:
  "hasValue (foldl (change setValue clearValue) [(1, 5)] [(7, True), (3, False), (6, True)]) 6 \<and>
   \<not> hasValue (foldl (change setValue clearValue) [(1, 5)] [(7, True), (3, False), (6, True)]) 3"
  using range_set_changes [of "[(1, 5)]" "[(7, True), (3, False), (6, True)]" 6]
    range_set_changes [of "[(1, 5)]" "[(7, True), (3, False), (6, True)]" 3]
  by (simp add: ranges_ok_def)

text \<open>
  C34. \<open>setRange (minV, maxV)\<close> keeps the map consistent and adds the closed interval, with one exception:
  when \<open>minV\<close> and everything up to, but not including, \<open>maxV\<close> is already present, it returns early and
  leaves the set as it is, so that \<open>maxV\<close> is not added.
\<close>

theorem setRange_effect:
  assumes "ranges_ok m" "minV \<le> maxV" "maxV \<noteq> absent"
  shows "ranges_ok (setRange m minV maxV) \<and> elems (setRange m minV maxV) =
    (if minV \<in> elems m \<and> {minV..<maxV} \<subseteq> elems m then elems m else elems m \<union> {minV..maxV})"
  using setRange_spec [OF assms] by blast

theorem setRange_effect_witness:
  "elems (setRange [(1, 5)] 5 6) = elems [(1, 5)] \<and> 6 \<notin> elems [(1, 5)]"
proof -
  have "{5..<6 :: u32} = {5}"
    by (auto simp: word_le_nat_alt word_less_nat_alt word_unat_eq_iff)
  then show ?thesis using setRange_effect [of "[(1, 5)]" 5 6] by (simp add: ranges_ok_def absent_def)
qed

text \<open>
  \<open>prevMissing\<close> returns the largest number below \<open>v\<close> that is not in the set, or \<open>absent\<close> when every
  smaller number is there.
\<close>

theorem prevMissing_correct:
  assumes "ranges_ok m" "v \<noteq> 0"
  shows "if {..<v} \<subseteq> elems m then prevMissing m v = absent
    else prevMissing m v < v \<and> prevMissing m v \<notin> elems m \<and> {prevMissing m v<..<v} \<subseteq> elems m"
  using assms by (rule prevMissing_spec)

theorem prevMissing_correct_witness:
  "prevMissing [(10, 15), (20, 25)] 23 = 19 \<and> 19 \<notin> elems [(10, 15), (20, 25)] \<and>
   {19<..<23} \<subseteq> elems [(10, 15), (20, 25)]"
proof -
  have "(19 :: u32) \<in> {..<23}" "(19 :: u32) \<notin> elems [(10, 15), (20, 25)]" by simp_all
  then have "\<not> {..<23} \<subseteq> elems [(10, 15), (20, 25)]" by blast
  then show ?thesis using prevMissing_correct [of "[(10, 15), (20, 25)]" 23]
    by (simp add: ranges_ok_def apart_def prevMissing_def)
qed


end
