(* ===== verification/Serializer_Model.thy ===== *)
theory Serializer_Model
  imports Prelude
begin

text \<open>
  The wire format: \<open>Serializer\<close> and \<open>SerializerIterator\<close> of
  \<open>src/ripple_data/protocol/Serializer.{h,cpp}\<close>. A serializer is its byte vector \<open>mData\<close>; each
  \<open>add\<close> function returns the offset it wrote at and the serializer it leaves, each \<open>get\<close> function
  of \<open>Serializer\<close> is \<open>None\<close> where the code returns false, and the iterator's \<open>get\<close> functions throw.
  Offsets and positions are the non-negative values of the code's \<open>int\<close>.

  The lemmas are the round trips the ledger rests on: what an \<open>add\<close> function appends at the end of
  any data, the matching \<open>get\<close> function reads back there, leaving the position after it.
\<close>

subsection \<open>Bytes of fixed-width integers\<close>

type_synonym Blob = "u8 list"

text \<open>The raw bytes of a \<open>base_uint\<close>, most significant first, and the word a byte range holds.\<close>

definition be_bytes :: "nat \<Rightarrow> 'a::len word \<Rightarrow> Blob" where
  "be_bytes n w = map (\<lambda>k. ucast (drop_bit (8 * k) w)) (rev [0..<n])"

definition be_word :: "Blob \<Rightarrow> 'a::len word" where
  "be_word bs = foldl (\<lambda>acc b. push_bit 8 acc OR ucast b) 0 bs"

text \<open>\<open>static_cast<unsigned char>\<close> of a non-negative \<open>int\<close>.\<close>

definition byte :: "nat \<Rightarrow> u8" where
  "byte n = word_of_nat n"

record Serializer =
  mData :: Blob

subsection \<open>Assembling\<close>

definition addZeros :: "nat \<Rightarrow> Serializer \<Rightarrow> nat \<times> Serializer" where
  "addZeros uBytes s = (length (mData s), s\<lparr>mData := mData s @ replicate uBytes 0\<rparr>)"

definition add8 :: "u8 \<Rightarrow> Serializer \<Rightarrow> nat \<times> Serializer" where
  "add8 b s = (length (mData s), s\<lparr>mData := mData s @ [b]\<rparr>)"

definition add16 :: "u16 \<Rightarrow> Serializer \<Rightarrow> nat \<times> Serializer" where
  "add16 i s = (length (mData s), s\<lparr>mData := mData s @
     [ucast (drop_bit 8 i), ucast (i AND 0xff)]\<rparr>)"

definition add32 :: "u32 \<Rightarrow> Serializer \<Rightarrow> nat \<times> Serializer" where
  "add32 i s = (length (mData s), s\<lparr>mData := mData s @
     [ucast (drop_bit 24 i), ucast (drop_bit 16 i AND 0xff),
      ucast (drop_bit 8 i AND 0xff), ucast (i AND 0xff)]\<rparr>)"

definition add64 :: "u64 \<Rightarrow> Serializer \<Rightarrow> nat \<times> Serializer" where
  "add64 i s = (length (mData s), s\<lparr>mData := mData s @
     [ucast (drop_bit 56 i), ucast (drop_bit 48 i AND 0xff),
      ucast (drop_bit 40 i AND 0xff), ucast (drop_bit 32 i AND 0xff),
      ucast (drop_bit 24 i AND 0xff), ucast (drop_bit 16 i AND 0xff),
      ucast (drop_bit 8 i AND 0xff), ucast (i AND 0xff)]\<rparr>)"

definition add128 :: "128 word \<Rightarrow> Serializer \<Rightarrow> nat \<times> Serializer" where
  "add128 i s = (length (mData s), s\<lparr>mData := mData s @ be_bytes 16 i\<rparr>)"

definition add160 :: "uint160 \<Rightarrow> Serializer \<Rightarrow> nat \<times> Serializer" where
  "add160 i s = (length (mData s), s\<lparr>mData := mData s @ be_bytes 20 i\<rparr>)"

definition add256 :: "uint256 \<Rightarrow> Serializer \<Rightarrow> nat \<times> Serializer" where
  "add256 i s = (length (mData s), s\<lparr>mData := mData s @ be_bytes 32 i\<rparr>)"

definition addRaw :: "Blob \<Rightarrow> Serializer \<Rightarrow> nat \<times> Serializer" where
  "addRaw v s = (length (mData s), s\<lparr>mData := mData s @ v\<rparr>)"

text \<open>\<open>addFieldID\<close> asserts \<open>0 < type < 256\<close> and \<open>0 < name < 256\<close>; the bytes are truncating casts.\<close>

definition addFieldID :: "nat \<Rightarrow> nat \<Rightarrow> Serializer \<Rightarrow> nat \<times> Serializer" where
  "addFieldID type name s = (length (mData s), s\<lparr>mData := mData s @
     (if type < 16 then
        (if name < 16 then [byte (push_bit 4 type OR name)]
         else [byte (push_bit 4 type), byte name])
      else if name < 16 then [byte name, byte type]
      else [byte 0, byte type, byte name])\<rparr>)"

subsection \<open>Disassembling\<close>

definition get8 :: "Serializer \<Rightarrow> nat \<Rightarrow> u8 option" where
  "get8 s offset = (if offset \<ge> length (mData s) then None else Some (mData s ! offset))"

definition get16 :: "Serializer \<Rightarrow> nat \<Rightarrow> u16 option" where
  "get16 s offset =
     (if offset + 2 > length (mData s) then None
      else Some (be_word (take 2 (drop offset (mData s)))))"

definition get32 :: "Serializer \<Rightarrow> nat \<Rightarrow> u32 option" where
  "get32 s offset =
     (if offset + 4 > length (mData s) then None
      else Some (be_word (take 4 (drop offset (mData s)))))"

definition get64 :: "Serializer \<Rightarrow> nat \<Rightarrow> u64 option" where
  "get64 s offset =
     (if offset + 8 > length (mData s) then None
      else Some (be_word (take 8 (drop offset (mData s)))))"

definition get128 :: "Serializer \<Rightarrow> nat \<Rightarrow> 128 word option" where
  "get128 s offset =
     (if offset + 128 div 8 > length (mData s) then None
      else Some (be_word (take (128 div 8) (drop offset (mData s)))))"

definition get160 :: "Serializer \<Rightarrow> nat \<Rightarrow> uint160 option" where
  "get160 s offset =
     (if offset + 160 div 8 > length (mData s) then None
      else Some (be_word (take (160 div 8) (drop offset (mData s)))))"

definition get256 :: "Serializer \<Rightarrow> nat \<Rightarrow> uint256 option" where
  "get256 s offset =
     (if offset + 256 div 8 > length (mData s) then None
      else Some (be_word (take (256 div 8) (drop offset (mData s)))))"

definition getRaw :: "Serializer \<Rightarrow> nat \<Rightarrow> nat \<Rightarrow> Blob option" where
  "getRaw s offset len =
     (if offset + len > length (mData s) then None
      else Some (take len (drop offset (mData s))))"

definition getFieldID :: "Serializer \<Rightarrow> nat \<Rightarrow> (nat \<times> nat) option" where
  "getFieldID s offset =
     (case get8 s offset of None \<Rightarrow> None
      | Some b \<Rightarrow>
        let name = unat (b AND 15); type = unat (drop_bit 4 b) in
        (case (if type = 0 then
                 (case get8 s (offset + 1) of None \<Rightarrow> None
                  | Some t \<Rightarrow>
                    if unat t = 0 \<or> unat t < 16 then None else Some (unat t, offset + 1))
               else Some (type, offset)) of None \<Rightarrow> None
         | Some (type, offset) \<Rightarrow>
           if name = 0 then
             (case get8 s (offset + 1) of None \<Rightarrow> None
              | Some n \<Rightarrow> if unat n = 0 \<or> unat n < 16 then None else Some (type, unat n))
           else Some (type, name)))"

definition chop :: "nat \<Rightarrow> Serializer \<Rightarrow> bool \<times> Serializer" where
  "chop bytes s =
     (if bytes > length (mData s) then (False, s)
      else (True, s\<lparr>mData := take (length (mData s) - bytes) (mData s)\<rparr>))"

definition removeLastByte :: "Serializer \<Rightarrow> u8 option \<times> Serializer" where
  "removeLastByte s =
     (if mData s = [] then (None, s)
      else (Some (last (mData s)), s\<lparr>mData := butlast (mData s)\<rparr>))"

subsection \<open>Variable-length fields\<close>

text \<open>
  \<open>encodeVL\<close> and its relatives take an \<open>int\<close>; the additions on the first byte are on
  \<open>unsigned char\<close> after promotion and are cast back. \<open>std::overflow_error\<close> is an exception too.
\<close>

definition encodeVL :: "int \<Rightarrow> exn + Blob" where
  "encodeVL len =
     (if len \<le> 192 then Inr [word_of_int len]
      else if len \<le> 12480 then
        (let l = len - 193 in
         Inr [193 + word_of_int (l div 2 ^ 8), word_of_int (l mod 256)])
      else if len \<le> 918744 then
        (let l = len - 12481 in
         Inr [241 + word_of_int (l div 2 ^ 16), word_of_int (l div 2 ^ 8 mod 256),
              word_of_int (l mod 256)])
      else Inl (RuntimeError ''lenlen''))"

definition encodeLengthLength :: "int \<Rightarrow> exn + int" where
  "encodeLengthLength len =
     (if len < 0 then Inl (RuntimeError ''len<0'')
      else if len \<le> 192 then Inr 1
      else if len \<le> 12480 then Inr 2
      else if len \<le> 918744 then Inr 3
      else Inl (RuntimeError ''len>918744''))"

definition decodeLengthLength :: "int \<Rightarrow> exn + nat" where
  "decodeLengthLength b1 =
     (if b1 < 0 then Inl (RuntimeError ''b1<0'')
      else if b1 \<le> 192 then Inr 1
      else if b1 \<le> 240 then Inr 2
      else if b1 \<le> 254 then Inr 3
      else Inl (RuntimeError ''b1>254''))"

definition decodeVLLength1 :: "int \<Rightarrow> exn + int" where
  "decodeVLLength1 b1 =
     (if b1 < 0 then Inl (RuntimeError ''b1<0'')
      else if b1 > 254 then Inl (RuntimeError ''b1>254'')
      else Inr b1)"

definition decodeVLLength2 :: "int \<Rightarrow> int \<Rightarrow> exn + int" where
  "decodeVLLength2 b1 b2 =
     (if b1 < 193 then Inl (RuntimeError ''b1<193'')
      else if b1 > 240 then Inl (RuntimeError ''b1>240'')
      else Inr (193 + (b1 - 193) * 256 + b2))"

definition decodeVLLength3 :: "int \<Rightarrow> int \<Rightarrow> int \<Rightarrow> exn + int" where
  "decodeVLLength3 b1 b2 b3 =
     (if b1 < 241 then Inl (RuntimeError ''b1<241'')
      else if b1 > 254 then Inl (RuntimeError ''b1>254'')
      else Inr (12481 + (b1 - 241) * 65536 + b2 * 256 + b3))"

definition addVL :: "Blob \<Rightarrow> Serializer \<Rightarrow> exn + nat \<times> Serializer" where
  "addVL v s =
     bindE (encodeVL (int (length v))) (\<lambda>len.
       let (ret, s) = addRaw len s; (_, s) = addRaw v s in Inr (ret, s))"

text \<open>
  The overload for \<open>std::string\<close> calls \<open>addRaw (string.size ())\<close>. No \<open>addRaw\<close> takes an integer,
  and the conversion the call selects is the constructor \<open>Serializer (int n)\<close>, which reserves
  capacity and leaves \<open>mData\<close> empty: the length is not written.
\<close>

definition addVL_string :: "Blob \<Rightarrow> Serializer \<Rightarrow> nat \<times> Serializer" where
  "addVL_string str s =
     (let (ret, s) = addRaw (mData \<lparr>mData = []\<rparr>) s;
          s = (if str \<noteq> [] then snd (addRaw str s) else s)
      in (ret, s))"

text \<open>
  The two readers of a length. The first call, \<open>decodeLengthLength (b1)\<close>, stands before the
  \<open>try\<close> block; what is thrown inside the block is caught and turned into a false result.
\<close>

definition caught :: "exn + 'a \<Rightarrow> 'a option" where
  "caught r = (case r of Inl _ \<Rightarrow> None | Inr x \<Rightarrow> Some x)"

definition getVLLength :: "Serializer \<Rightarrow> nat \<Rightarrow> exn + int option" where
  "getVLLength s offset =
     (case get8 s offset of None \<Rightarrow> Inr None
      | Some b1 \<Rightarrow>
        bindE (decodeLengthLength (uint b1)) (\<lambda>lenLen.
          if lenLen = 1 then Inr (caught (decodeVLLength1 (uint b1)))
          else if lenLen = 2 then
            (case get8 s (offset + 1) of None \<Rightarrow> Inr None
             | Some b2 \<Rightarrow> Inr (caught (decodeVLLength2 (uint b1) (uint b2))))
          else if lenLen = 3 then
            (case get8 s (offset + 1) of None \<Rightarrow> Inr None
             | Some b2 \<Rightarrow>
               (case get8 s (offset + 2) of None \<Rightarrow> Inr None
                | Some b3 \<Rightarrow> Inr (caught (decodeVLLength3 (uint b1) (uint b2) (uint b3)))))
          else Inr None))"

definition getVL :: "Serializer \<Rightarrow> nat \<Rightarrow> exn + (Blob \<times> nat) option" where
  "getVL s offset =
     (case get8 s offset of None \<Rightarrow> Inr None
      | Some b1 \<Rightarrow>
        bindE (decodeLengthLength (uint b1)) (\<lambda>lenLen.
          let datLen =
            (if lenLen = 1 then caught (decodeVLLength1 (uint b1))
             else if lenLen = 2 then
               (case get8 s (offset + 1) of None \<Rightarrow> None
                | Some b2 \<Rightarrow> caught (decodeVLLength2 (uint b1) (uint b2)))
             else if lenLen = 3 then
               (case get8 s (offset + 1) of None \<Rightarrow> None
                | Some b2 \<Rightarrow>
                  (case get8 s (offset + 2) of None \<Rightarrow> None
                   | Some b3 \<Rightarrow> caught (decodeVLLength3 (uint b1) (uint b2) (uint b3))))
             else None)
          in (case datLen of None \<Rightarrow> Inr None
              | Some n \<Rightarrow>
                Inr (map_option (\<lambda>o'. (o', lenLen + nat n)) (getRaw s (offset + lenLen) (nat n))))))"

subsection \<open>The iterator\<close>

record SerializerIterator =
  mSerializer :: Serializer
  mPos :: nat

definition it_begin :: "Serializer \<Rightarrow> SerializerIterator" where
  "it_begin s = \<lparr>mSerializer = s, mPos = 0\<rparr>"

definition getBytesLeft :: "SerializerIterator \<Rightarrow> int" where
  "getBytesLeft sit = int (length (mData (mSerializer sit))) - int (mPos sit)"

text \<open>One \<open>get\<close> of the iterator: throw \<open>msg\<close> where the serializer returns false, else advance.\<close>

definition it_get ::
  "string \<Rightarrow> (Serializer \<Rightarrow> nat \<Rightarrow> 'a option) \<Rightarrow> nat \<Rightarrow> SerializerIterator \<Rightarrow> exn + 'a \<times> SerializerIterator" where
  "it_get msg get n sit =
     (case get (mSerializer sit) (mPos sit) of
        None \<Rightarrow> Inl (RuntimeError msg)
      | Some v \<Rightarrow> Inr (v, sit\<lparr>mPos := mPos sit + n\<rparr>))"

definition it_get8 :: "SerializerIterator \<Rightarrow> exn + u8 \<times> SerializerIterator" where
  "it_get8 = it_get ''invalid serializer get8'' get8 1"

definition it_get16 :: "SerializerIterator \<Rightarrow> exn + u16 \<times> SerializerIterator" where
  "it_get16 = it_get ''invalid serializer get16'' get16 (16 div 8)"

definition it_get32 :: "SerializerIterator \<Rightarrow> exn + u32 \<times> SerializerIterator" where
  "it_get32 = it_get ''invalid serializer get32'' get32 (32 div 8)"

definition it_get64 :: "SerializerIterator \<Rightarrow> exn + u64 \<times> SerializerIterator" where
  "it_get64 = it_get ''invalid serializer get64'' get64 (64 div 8)"

definition it_get128 :: "SerializerIterator \<Rightarrow> exn + 128 word \<times> SerializerIterator" where
  "it_get128 = it_get ''invalid serializer get128'' get128 (128 div 8)"

definition it_get160 :: "SerializerIterator \<Rightarrow> exn + uint160 \<times> SerializerIterator" where
  "it_get160 = it_get ''invalid serializer get160'' get160 (160 div 8)"

definition it_get256 :: "SerializerIterator \<Rightarrow> exn + uint256 \<times> SerializerIterator" where
  "it_get256 = it_get ''invalid serializer get256'' get256 (256 div 8)"

definition it_getFieldID :: "SerializerIterator \<Rightarrow> exn + (nat \<times> nat) \<times> SerializerIterator" where
  "it_getFieldID sit =
     (case getFieldID (mSerializer sit) (mPos sit) of
        None \<Rightarrow> Inl (RuntimeError ''invalid serializer getFieldID'')
      | Some (type, field) \<Rightarrow>
        Inr ((type, field), sit\<lparr>mPos := mPos sit + 1 + (if type \<ge> 16 then 1 else 0)
                                        + (if field \<ge> 16 then 1 else 0)\<rparr>))"

definition it_getVL :: "SerializerIterator \<Rightarrow> exn + Blob \<times> SerializerIterator" where
  "it_getVL sit =
     bindE (getVL (mSerializer sit) (mPos sit)) (\<lambda>r.
       case r of None \<Rightarrow> Inl (RuntimeError ''invalid serializer getVL'')
       | Some (vl, len) \<Rightarrow> Inr (vl, sit\<lparr>mPos := mPos sit + len\<rparr>))"

text \<open>\<open>getRaw\<close> of the iterator advances first and reads an empty blob when the range is too long.\<close>

definition it_getRaw :: "nat \<Rightarrow> SerializerIterator \<Rightarrow> Blob \<times> SerializerIterator" where
  "it_getRaw iLength sit =
     ((case getRaw (mSerializer sit) (mPos sit) iLength of None \<Rightarrow> [] | Some b \<Rightarrow> b),
      sit\<lparr>mPos := mPos sit + iLength\<rparr>)"

text \<open>Reading a given number of values one after the other.\<close>

fun get_n :: "(SerializerIterator \<Rightarrow> exn + 'a \<times> SerializerIterator) \<Rightarrow> nat \<Rightarrow>
    SerializerIterator \<Rightarrow> exn + 'a list \<times> SerializerIterator" where
  "get_n get 0 sit = Inr ([], sit)"
| "get_n get (Suc n) sit =
     bindE (get sit) (\<lambda>(x, sit). bindE (get_n get n sit) (\<lambda>(xs, sit). Inr (x # xs, sit)))"

subsection \<open>Reading back what was written\<close>

lemma be_word_snoc: "be_word (bs @ [b]) = push_bit 8 (be_word bs) OR ucast b"
  by (simp add: be_word_def)

lemma be_bytes_0 [simp]: "be_bytes 0 w = []"
  by (simp add: be_bytes_def)

lemma be_bytes_Suc: "be_bytes (Suc n) w = be_bytes n (drop_bit 8 w) @ [ucast w]"
proof -
  have "[0..<Suc n] = 0 # map Suc [0..<n]"
    by (metis map_Suc_upt upt_conv_Cons zero_less_Suc)
  then show ?thesis
    by (simp add: be_bytes_def rev_map o_def drop_bit_drop_bit add.commute)
qed

lemma length_be_bytes [simp]: "length (be_bytes n w) = n"
  by (simp add: be_bytes_def)

lemma be_word_be_bytes_take: "be_word (be_bytes n w) = take_bit (8 * n) w"
proof (induction n arbitrary: w)
  case 0
  show ?case by (simp add: be_word_def)
next
  case (Suc n)
  have "push_bit 8 (take_bit (8 * n) (drop_bit 8 w)) OR ucast (ucast w :: u8) = take_bit (8 * Suc n) w"
    by (rule bit_word_eqI) (auto simp: bit_simps)
  then show ?case by (simp only: be_bytes_Suc be_word_snoc Suc.IH)
qed

lemma be_word_be_bytes: "LENGTH('a::len) \<le> 8 * n \<Longrightarrow> be_word (be_bytes n w) = (w :: 'a word)"
  by (simp add: be_word_be_bytes_take take_bit_word_eq_self)

lemma ff_mask: "(0xff :: 'a::len word) = mask 8"
  by (simp add: mask_eq_exp_minus_1)

lemma ucast_and_ff [simp]: "(ucast (w AND 0xff) :: u8) = ucast w" for w :: "'a::len word"
  by (rule bit_word_eqI) (auto simp: ff_mask bit_simps dest: bit_imp_le_length)

lemma add_data:
  "mData (snd (add8 b s)) = mData s @ [b]"
  "mData (snd (add16 h s)) = mData s @ be_bytes 2 h"
  "mData (snd (add32 i s)) = mData s @ be_bytes 4 i"
  "mData (snd (add64 l s)) = mData s @ be_bytes 8 l"
  "mData (snd (add128 a s)) = mData s @ be_bytes 16 a"
  "mData (snd (add160 c s)) = mData s @ be_bytes 20 c"
  "mData (snd (add256 d s)) = mData s @ be_bytes 32 d"
  "mData (snd (addRaw v s)) = mData s @ v"
  by (simp_all add: add8_def add16_def add32_def add64_def add128_def add160_def add256_def
      addRaw_def be_bytes_def upt_rec)

lemma get_data:
  "length pre = n \<Longrightarrow> get16 \<lparr>mData = pre @ be_bytes 2 h @ post\<rparr> n = Some h"
  "length pre = n \<Longrightarrow> get32 \<lparr>mData = pre @ be_bytes 4 i @ post\<rparr> n = Some i"
  "length pre = n \<Longrightarrow> get64 \<lparr>mData = pre @ be_bytes 8 l @ post\<rparr> n = Some l"
  "length pre = n \<Longrightarrow> get160 \<lparr>mData = pre @ be_bytes 20 c @ post\<rparr> n = Some c"
  "length pre = n \<Longrightarrow> get256 \<lparr>mData = pre @ be_bytes 32 d @ post\<rparr> n = Some d"
  by (auto simp: get16_def get32_def get64_def get160_def get256_def be_word_be_bytes)

lemma unat_byte [simp]: "unat (byte n) = n mod 256"
  by (simp add: byte_def unat_of_nat)

lemma u8_low_nibble: "unat (b AND 15) = unat b mod 16" for b :: u8
proof -
  have "(15 :: u8) = mask 4" by (simp add: mask_eq_exp_minus_1)
  then have "b AND 15 = take_bit 4 b" by (simp add: take_bit_eq_mask)
  then show ?thesis by (simp add: take_bit_eq_mod unat_mod)
qed

lemma u8_high_nibble: "unat (drop_bit 4 b) = unat b div 16" for b :: u8
  by (simp add: drop_bit_eq_div unat_div)

lemma nibbles_join: "n < 16 \<Longrightarrow> push_bit 4 t OR n = 16 * t + n" for t n :: nat
proof -
  assume "n < 16"
  then have "take_bit 4 n = n" by (simp add: take_bit_nat_eq_self)
  then have "push_bit 4 t AND n = 0"
    by (intro bit_eqI) (metis bit_0_eq bit_and_iff bit_push_bit_iff bit_take_bit_iff bot_apply bot_bool_def not_less)
  then have "push_bit 4 t + n = push_bit 4 t OR n" by (rule disjunctive_add_eq_or)
  then show ?thesis by (simp add: push_bit_eq_mult)
qed

lemma addFieldID_data:
  "mData (snd (addFieldID type name s)) = mData s @
     (if type < 16 then
        (if name < 16 then [byte (16 * type + name)] else [byte (16 * type), byte name])
      else if name < 16 then [byte name, byte type]
      else [byte 0, byte type, byte name])"
  by (auto simp: addFieldID_def nibbles_join) (simp add: push_bit_eq_mult mult.commute)

lemma addFieldID_fst: "fst (addFieldID type name s) = length (mData s)"
  by (simp add: addFieldID_def)

lemma getFieldID_unfold:
  "getFieldID \<lparr>mData = pre @ b # rest\<rparr> (length pre) =
    (let name = unat b mod 16; type = unat b div 16 in
     (case (if type = 0 then
              (case rest of [] \<Rightarrow> None
               | t # rest' \<Rightarrow> if unat t < 16 then None else Some (unat t, rest'))
            else Some (type, rest)) of None \<Rightarrow> None
      | Some (type, rest) \<Rightarrow>
        if name = 0 then
          (case rest of [] \<Rightarrow> None
           | n # _ \<Rightarrow> if unat n < 16 then None else Some (type, unat n))
        else Some (type, name)))"
  by (auto simp: getFieldID_def get8_def nth_append u8_low_nibble u8_high_nibble Let_def
      split: list.splits option.splits)

lemma fieldID_roundtrip:
  assumes "0 < type" "type < 256" "0 < name" "name < 256"
  shows "getFieldID \<lparr>mData = mData (snd (addFieldID type name s)) @ post\<rparr> (length (mData s)) = Some (type, name)"
proof -
  consider "type < 16" "name < 16" | "type < 16" "16 \<le> name" | "16 \<le> type" "name < 16" | "16 \<le> type" "16 \<le> name"
    by linarith
  then show ?thesis
    using assms by cases (simp_all add: addFieldID_data getFieldID_unfold Let_def)
qed


lemma get8_at: "get8 \<lparr>mData = pre @ b # rest\<rparr> (length pre) = Some b"
  by (simp add: get8_def nth_append)

lemma get8_at1: "get8 \<lparr>mData = pre @ a # b # rest\<rparr> (length pre + 1) = Some b"
  by (simp add: get8_def nth_append)

lemma get8_at2: "get8 \<lparr>mData = pre @ a # b # c # rest\<rparr> (length pre + 2) = Some c"
  by (simp add: get8_def nth_append)

lemma getRaw_at:
  "n = length (pre @ hd') \<Longrightarrow> getRaw \<lparr>mData = pre @ hd' @ v @ post\<rparr> n (length v) = Some v"
  by (simp add: getRaw_def)

lemma getVL_1:
  assumes "uint b1 = int (length v)" "length v \<le> 192"
  shows "getVL \<lparr>mData = pre @ b1 # v @ post\<rparr> (length pre) = Inr (Some (v, 1 + length v))"
  using assms getRaw_at [of _ pre "[b1]" v post]
  by (simp add: getVL_def get8_at decodeLengthLength_def decodeVLLength1_def caught_def)

lemma getVL_2:
  assumes "193 \<le> uint b1" "uint b1 \<le> 240"
    and "193 + (uint b1 - 193) * 256 + uint b2 = int (length v)"
  shows "getVL \<lparr>mData = pre @ b1 # b2 # v @ post\<rparr> (length pre) = Inr (Some (v, 2 + length v))"
  using assms getRaw_at [of _ pre "[b1, b2]" v post]
  by (simp add: getVL_def get8_at get8_at1 [simplified] decodeLengthLength_def decodeVLLength2_def caught_def)

lemma getVL_3:
  assumes "241 \<le> uint b1" "uint b1 \<le> 254"
    and "12481 + (uint b1 - 241) * 65536 + uint b2 * 256 + uint b3 = int (length v)"
  shows "getVL \<lparr>mData = pre @ b1 # b2 # b3 # v @ post\<rparr> (length pre) = Inr (Some (v, 3 + length v))"
  using assms getRaw_at [of "length pre + 3" pre "[b1, b2, b3]" v post]
  by (simp add: getVL_def get8_at get8_at1 [simplified] get8_at2 [simplified] decodeLengthLength_def
      decodeVLLength3_def caught_def)

lemma uint_u8: "uint (word_of_int k :: u8) = k mod 256"
  by (simp add: uint_word_of_int)

lemma uint_u8_plus: "uint (a + word_of_int k :: u8) = (uint a + k) mod 256"
  by (simp add: uint_word_ariths uint_u8 mod_simps)

lemma three_bytes: "m div 65536 * 65536 + m div 256 mod 256 * 256 + m mod 256 = m" for m :: int
proof -
  have "m div 65536 = m div 256 div 256"
    using zdiv_zmult2_eq [of 256 m 256] by simp
  moreover have "m div 256 div 256 * 256 + m div 256 mod 256 = m div 256" by (rule div_mult_mod_eq)
  moreover have "m div 256 * 256 + m mod 256 = m" by (rule div_mult_mod_eq)
  ultimately show ?thesis by linarith
qed

lemma three_bytes_shift:
  "x * 65536 + y * 256 + z = n - 12481 \<Longrightarrow> 12481 + (241 + x - 241) * 65536 + y * 256 + z = n"
  for x y z n :: int
  by simp

lemma getVL_encodeVL:
  assumes "encodeVL (int (length v)) = Inr bs"
  shows "getVL \<lparr>mData = pre @ bs @ v @ post\<rparr> (length pre) = Inr (Some (v, length bs + length v))"
proof -
  let ?n = "int (length v)"
  consider (one) "?n \<le> 192" | (two) "192 < ?n" "?n \<le> 12480" | (three) "12480 < ?n" "?n \<le> 918744"
    using assms by (fastforce simp: encodeVL_def split: if_splits)
  then show ?thesis
  proof cases
    case one
    then show ?thesis using assms getVL_1 [of "word_of_int ?n" v pre post]
      by (auto simp: encodeVL_def uint_u8 simp del: of_int_of_nat_eq)
  next
    case two
    let ?b1 = "193 + word_of_int ((?n - 193) div 2 ^ 8) :: u8"
    let ?b2 = "word_of_int ((?n - 193) mod 256) :: u8"
    have b1: "uint ?b1 = 193 + (?n - 193) div 256"
      using two by (simp only: uint_u8_plus) (simp add: mod_pos_pos_trivial)
    have b2: "uint ?b2 = (?n - 193) mod 256" by (simp add: uint_u8)
    have "bs = [?b1, ?b2]" using assms two by (simp add: encodeVL_def Let_def)
    moreover have "getVL \<lparr>mData = pre @ ?b1 # ?b2 # v @ post\<rparr> (length pre) = Inr (Some (v, 2 + length v))"
      using two by (intro getVL_2; simp only: b1 b2) simp_all
    ultimately show ?thesis by simp
  next
    case three
    let ?m = "?n - 12481"
    let ?b1 = "241 + word_of_int (?m div 2 ^ 16) :: u8"
    let ?b2 = "word_of_int (?m div 2 ^ 8 mod 256) :: u8"
    let ?b3 = "word_of_int (?m mod 256) :: u8"
    have b1: "uint ?b1 = 241 + ?m div 65536"
      using three by (simp only: uint_u8_plus) (simp add: mod_pos_pos_trivial)
    have b2: "uint ?b2 = ?m div 256 mod 256" and b3: "uint ?b3 = ?m mod 256" by (simp_all add: uint_u8)
    have "12481 + (uint ?b1 - 241) * 65536 + uint ?b2 * 256 + uint ?b3 = ?n"
      unfolding b1 b2 b3 by (rule three_bytes_shift) (rule three_bytes)
    moreover have "241 \<le> uint ?b1" "uint ?b1 \<le> 254" unfolding b1 using three by auto
    ultimately have "getVL \<lparr>mData = pre @ ?b1 # ?b2 # ?b3 # v @ post\<rparr> (length pre) = Inr (Some (v, 3 + length v))"
      by (intro getVL_3)
    moreover have "bs = [?b1, ?b2, ?b3]" using assms three by (simp add: encodeVL_def Let_def)
    ultimately show ?thesis by simp
  qed
qed

text \<open>What a writer and a reader of one kind of value promise each other: \<open>put\<close> appends the value's
  image, and \<open>get\<close>, positioned where it was written and whatever stands before and after it, returns
  the value and stops right behind it.\<close>

locale codec =
  fixes put :: "'a \<Rightarrow> Serializer \<Rightarrow> Serializer"
    and get :: "SerializerIterator \<Rightarrow> exn + 'a \<times> SerializerIterator"
    and img :: "'a \<Rightarrow> Blob"
    and valid :: "'a \<Rightarrow> bool"
  assumes put_img: "valid x \<Longrightarrow> mData (put x s) = mData s @ img x"
    and get_img: "valid x \<Longrightarrow>
      get \<lparr>mSerializer = \<lparr>mData = pre @ img x @ post\<rparr>, mPos = length pre\<rparr> =
      Inr (x, \<lparr>mSerializer = \<lparr>mData = pre @ img x @ post\<rparr>, mPos = length pre + length (img x)\<rparr>)"
begin

lemma get_put:
  assumes "valid x"
  shows "get \<lparr>mSerializer = \<lparr>mData = mData (put x s) @ post\<rparr>, mPos = length (mData s)\<rparr> =
    Inr (x, \<lparr>mSerializer = \<lparr>mData = mData (put x s) @ post\<rparr>, mPos = length (mData (put x s))\<rparr>)"
  using get_img [OF assms, of "mData s" post] by (simp add: put_img [OF assms])

lemma put_all_img:
  "(\<forall>x\<in>set xs. valid x) \<Longrightarrow> mData (fold put xs s) = mData s @ concat (map img xs)"
  by (induction xs arbitrary: s) (simp_all add: put_img)

lemma get_all_img:
  "(\<forall>x\<in>set xs. valid x) \<Longrightarrow>
    get_n get (length xs) \<lparr>mSerializer = \<lparr>mData = pre @ concat (map img xs) @ post\<rparr>, mPos = length pre\<rparr> =
    Inr (xs, \<lparr>mSerializer = \<lparr>mData = pre @ concat (map img xs) @ post\<rparr>,
              mPos = length pre + length (concat (map img xs))\<rparr>)"
proof (induction xs arbitrary: pre)
  case Nil
  then show ?case by simp
next
  case (Cons x xs)
  then show ?case
    using get_img [of x pre "concat (map img xs) @ post"] Cons.IH [of "pre @ img x"] by simp
qed

lemma get_put_all:
  assumes "\<forall>x\<in>set xs. valid x"
  shows "get_n get (length xs)
      \<lparr>mSerializer = \<lparr>mData = mData (fold put xs s) @ post\<rparr>, mPos = length (mData s)\<rparr> =
    Inr (xs, \<lparr>mSerializer = \<lparr>mData = mData (fold put xs s) @ post\<rparr>,
              mPos = length (mData (fold put xs s))\<rparr>)"
  using get_all_img [OF assms, of "mData s" post] by (simp add: put_all_img [OF assms])

end

interpretation c16: codec "\<lambda>h s. snd (add16 h s)" it_get16 "be_bytes 2" "\<lambda>_. True"
  by unfold_locales (simp_all add: add_data it_get16_def it_get_def get_data)

interpretation c32: codec "\<lambda>i s. snd (add32 i s)" it_get32 "be_bytes 4" "\<lambda>_. True"
  by unfold_locales (simp_all add: add_data it_get32_def it_get_def get_data)

interpretation c64: codec "\<lambda>l s. snd (add64 l s)" it_get64 "be_bytes 8" "\<lambda>_. True"
  by unfold_locales (simp_all add: add_data it_get64_def it_get_def get_data)

interpretation c160: codec "\<lambda>c s. snd (add160 c s)" it_get160 "be_bytes 20" "\<lambda>_. True"
  by unfold_locales (simp_all add: add_data it_get160_def it_get_def get_data)

interpretation c256: codec "\<lambda>d s. snd (add256 d s)" it_get256 "be_bytes 32" "\<lambda>_. True"
  by unfold_locales (simp_all add: add_data it_get256_def it_get_def get_data)

definition vl_image :: "Blob \<Rightarrow> Blob" where
  "vl_image v = (case encodeVL (int (length v)) of Inl _ \<Rightarrow> [] | Inr bs \<Rightarrow> bs @ v)"

definition put_vl :: "Blob \<Rightarrow> Serializer \<Rightarrow> Serializer" where
  "put_vl v s = (case addVL v s of Inl _ \<Rightarrow> s | Inr (_, s') \<Rightarrow> s')"

lemma encodeVL_short: "n \<le> 918744 \<Longrightarrow> \<exists>bs. encodeVL n = Inr bs"
  by (simp add: encodeVL_def Let_def)

lemma addVL_encoded:
  "encodeVL (int (length v)) = Inr bs \<Longrightarrow>
    addVL v s = Inr (length (mData s), s\<lparr>mData := mData s @ bs @ v\<rparr>)"
  by (simp add: addVL_def addRaw_def)

interpretation vl: codec put_vl it_getVL vl_image "\<lambda>v. length v \<le> 918744"
proof unfold_locales
  fix v :: Blob and s :: Serializer and pre post :: Blob
  assume "length v \<le> 918744"
  then obtain bs where bs: "encodeVL (int (length v)) = Inr bs"
    using encodeVL_short [of "int (length v)"] by auto
  show "mData (put_vl v s) = mData s @ vl_image v"
    using bs by (simp add: put_vl_def vl_image_def addVL_encoded)
  show "it_getVL \<lparr>mSerializer = \<lparr>mData = pre @ vl_image v @ post\<rparr>, mPos = length pre\<rparr> =
    Inr (v, \<lparr>mSerializer = \<lparr>mData = pre @ vl_image v @ post\<rparr>, mPos = length pre + length (vl_image v)\<rparr>)"
    using getVL_encodeVL [OF bs, of pre post] bs by (simp add: it_getVL_def vl_image_def)
qed

definition field_image :: "nat \<times> nat \<Rightarrow> Blob" where
  "field_image f = mData (snd (addFieldID (fst f) (snd f) \<lparr>mData = []\<rparr>))"

interpretation fid: codec "\<lambda>f s. snd (addFieldID (fst f) (snd f) s)" it_getFieldID field_image
  "\<lambda>(type, name). 0 < type \<and> type < 256 \<and> 0 < name \<and> name < 256"
proof unfold_locales
  fix f :: "nat \<times> nat" and s :: Serializer and pre post :: Blob
  show "mData (snd (addFieldID (fst f) (snd f) s)) = mData s @ field_image f"
    by (simp add: field_image_def addFieldID_data)
  assume "case f of (type, name) \<Rightarrow> 0 < type \<and> type < 256 \<and> 0 < name \<and> name < 256"
  then show "it_getFieldID \<lparr>mSerializer = \<lparr>mData = pre @ field_image f @ post\<rparr>, mPos = length pre\<rparr> =
    Inr (f, \<lparr>mSerializer = \<lparr>mData = pre @ field_image f @ post\<rparr>, mPos = length pre + length (field_image f)\<rparr>)"
    using fieldID_roundtrip [of "fst f" "snd f" "\<lparr>mData = pre\<rparr>" post]
    by (auto simp: it_getFieldID_def field_image_def addFieldID_data split: prod.splits if_splits)
qed

subsection \<open>Properties\<close>

text \<open>
  Variable-length fields survive the wire: any blob of at most 918744 bytes is accepted by
  \<open>addVL\<close>, which returns the offset it wrote at, and \<open>SerializerIterator::getVL\<close> positioned there
  returns exactly that blob and leaves the position behind it, whatever follows.
\<close>

theorem vl_roundtrip:
  assumes "length v \<le> 918744"
  shows "\<exists>s'. addVL v s = Inr (length (mData s), s') \<and>
    it_getVL \<lparr>mSerializer = \<lparr>mData = mData s' @ post\<rparr>, mPos = length (mData s)\<rparr> =
      Inr (v, \<lparr>mSerializer = \<lparr>mData = mData s' @ post\<rparr>, mPos = length (mData s')\<rparr>)"
proof -
  obtain bs where "encodeVL (int (length v)) = Inr bs"
    using encodeVL_short [of "int (length v)"] assms by auto
  then have "addVL v s = Inr (length (mData s), put_vl v s)"
    by (simp add: put_vl_def addVL_encoded)
  then show ?thesis using vl.get_put [OF assms, of s post] by auto
qed

theorem vl_roundtrip_witness:
  "\<exists>s'. addVL [7, 255] \<lparr>mData = [9]\<rparr> = Inr (1, s') \<and>
    it_getVL \<lparr>mSerializer = \<lparr>mData = mData s' @ [3]\<rparr>, mPos = 1\<rparr> =
      Inr ([7, 255], \<lparr>mSerializer = \<lparr>mData = mData s' @ [3]\<rparr>, mPos = length (mData s')\<rparr>)"
  using vl_roundtrip [of "[7, 255]" "\<lparr>mData = [9]\<rparr>" "[3]"] by simp

text \<open>
  Field identifiers survive the wire in all four of their encodings (common or uncommon type
  and name): for every type and name from 1 to 255, \<open>SerializerIterator::getFieldID\<close> returns what
  \<open>addFieldID\<close> wrote and advances by exactly the bytes written.
\<close>

theorem field_id_roundtrip:
  assumes "0 < type" "type < 256" "0 < name" "name < 256"
  shows "it_getFieldID \<lparr>mSerializer = \<lparr>mData = mData (snd (addFieldID type name s)) @ post\<rparr>,
      mPos = fst (addFieldID type name s)\<rparr> =
    Inr ((type, name), \<lparr>mSerializer = \<lparr>mData = mData (snd (addFieldID type name s)) @ post\<rparr>,
      mPos = length (mData (snd (addFieldID type name s)))\<rparr>)"
  using fid.get_put [of "(type, name)" s post] assms by (simp add: addFieldID_fst)

theorem field_id_roundtrip_witness:
  "it_getFieldID \<lparr>mSerializer = \<lparr>mData = mData (snd (addFieldID 16 255 \<lparr>mData = []\<rparr>)) @ [1]\<rparr>,
      mPos = fst (addFieldID 16 255 \<lparr>mData = []\<rparr>)\<rparr> =
    Inr ((16, 255), \<lparr>mSerializer = \<lparr>mData = mData (snd (addFieldID 16 255 \<lparr>mData = []\<rparr>)) @ [1]\<rparr>,
      mPos = length (mData (snd (addFieldID 16 255 \<lparr>mData = []\<rparr>)))\<rparr>)"
  by (rule field_id_roundtrip) simp_all


text \<open>
  The \<open>std::string\<close> overload of \<open>addVL\<close> writes the characters and no length in front of them,
  so the field it leaves is not one \<open>getVL\<close> can read in general: a string that starts with the
  character 255 makes the reader throw.
\<close>

theorem addVL_string_no_length:
  "addVL_string str s = (length (mData s), s\<lparr>mData := mData s @ str\<rparr>) \<and>
   (\<exists>e. getVL (snd (addVL_string (255 # str) s)) (length (mData s)) = Inl e)"
  by (auto simp: addVL_string_def addRaw_def getVL_def get8_def decodeLengthLength_def nth_append)

end
