(* ===== verification/Amount.thy ===== *)
theory Amount
  imports Serializer_Model
begin

text \<open>
  Amounts: class \<open>STAmount\<close> of \<open>src/ripple_data/protocol/SerializedTypes.h\<close> and
  \<open>STAmount.cpp\<close>. An amount is a sign, a 64-bit mantissa \<open>mValue\<close>, a decimal exponent
  \<open>mOffset\<close>, and the currency and issuer it is in; currency zero is the native currency (STR), whose
  amounts are whole numbers of base units. The field name an \<open>STAmount\<close> also carries is a label and
  is not modelled. Exponents stay far inside the range of \<open>int\<close> and are mathematical integers.

  Modelled here: the constructors, \<open>canonicalize\<close>, comparison, the native accessors, addition,
  subtraction, the wire format (\<open>add\<close>, \<open>construct\<close>) and \<open>getRound\<close>. Multiplication, division and the
  directed roundings are in \<open>Amount_Arith\<close>.
\<close>

record STAmount =
  mCurrency :: uint160
  mIssuer :: uint160
  mValue :: u64
  mOffset :: int
  mIsNative :: bool
  mIsNegative :: bool

named_theorems amount_consts \<open>the limits of the representation\<close>

definition cMinOffset :: int where [amount_consts]: "cMinOffset = -96"
definition cMaxOffset :: int where [amount_consts]: "cMaxOffset = 80"
definition cMinValue :: u64 where [amount_consts]: "cMinValue = 1000000000000000"
definition cMaxValue :: u64 where [amount_consts]: "cMaxValue = 9999999999999999"
definition cMaxNative :: u64 where [amount_consts]: "cMaxNative = 9000000000000000000"
definition cMaxNativeN :: u64 where [amount_consts]: "cMaxNativeN = 100000000000000000"
definition cNotNative :: u64 where [amount_consts]: "cNotNative = 0x8000000000000000"
definition cPosNative :: u64 where [amount_consts]: "cPosNative = 0x4000000000000000"

text \<open>\<open>CURRENCY_ONE\<close> and \<open>ACCOUNT_ONE\<close>, the placeholders of ratios.\<close>

definition CURRENCY_ONE :: uint160 where "CURRENCY_ONE = 1"
definition ACCOUNT_ONE :: uint160 where "ACCOUNT_ONE = 1"

definition signum :: "STAmount \<Rightarrow> int" where
  "signum a = (if mValue a \<noteq> 0 then (if mIsNegative a then -1 else 1) else 0)"

text \<open>\<open>amount == zero\<close>, which \<open>beast::Zero\<close> resolves through \<open>signum\<close>.\<close>

definition isZero :: "STAmount \<Rightarrow> bool" where
  "isZero a \<longleftrightarrow> signum a = 0"

definition isLegalNet :: "STAmount \<Rightarrow> bool" where
  "isLegalNet a \<longleftrightarrow> \<not> mIsNative a \<or> mValue a \<le> cMaxNativeN"

subsection \<open>canonicalize\<close>

text \<open>The four loops of \<open>canonicalize\<close>, in the order they stand.\<close>

function native_shrink :: "u64 \<Rightarrow> int \<Rightarrow> u64 \<times> int" where
  "native_shrink v off = (if off < 0 then native_shrink (v div 10) (off + 1) else (v, off))"
  by pat_completeness auto
termination
  by (relation "measure (\<lambda>(v, off). nat (- off))") auto

function native_grow :: "u64 \<Rightarrow> int \<Rightarrow> u64 \<times> int" where
  "native_grow v off = (if off > 0 then native_grow (v * 10) (off - 1) else (v, off))"
  by pat_completeness auto
termination
  by (relation "measure (\<lambda>(v, off). nat off)") auto

function scale_up :: "u64 \<Rightarrow> int \<Rightarrow> u64 \<times> int" where
  "scale_up v off =
     (if v < cMinValue \<and> off > cMinOffset then scale_up (v * 10) (off - 1) else (v, off))"
  by pat_completeness auto
termination
  by (relation "measure (\<lambda>(v, off). nat (off - cMinOffset))") auto

lemma scale_down_decr: "cMaxValue < v \<Longrightarrow> unat (v div 10) < unat v"
  by (simp add: cMaxValue_def word_less_nat_alt)

function scale_down :: "u64 \<Rightarrow> int \<Rightarrow> exn + u64 \<times> int" where
  "scale_down v off =
     (if v > cMaxValue then
        if off \<ge> cMaxOffset then Inl (RuntimeError ''value overflow'')
        else scale_down (v div 10) (off + 1)
      else Inr (v, off))"
  by pat_completeness auto
termination
  by (relation "measure (\<lambda>(v, off). unat v)") (auto dest: scale_down_decr simp del: unat_div10)

declare native_shrink.simps [simp del] native_grow.simps [simp del]
  scale_up.simps [simp del] scale_down.simps [simp del]

definition canonicalize :: "STAmount \<Rightarrow> exn + STAmount" where
  "canonicalize a =
     (if mCurrency a = 0 then
        let a = a\<lparr>mIsNative := True\<rparr> in
        if mValue a = 0 then Inr (a\<lparr>mOffset := 0, mIsNegative := False\<rparr>)
        else
          let (v, off) = native_shrink (mValue a) (mOffset a);
              (v, off) = native_grow v off
          in if v > cMaxNative then Inl (RuntimeError ''Native currency amount out of range'')
             else Inr (a\<lparr>mValue := v, mOffset := off\<rparr>)
      else
        let a = a\<lparr>mIsNative := False\<rparr> in
        if mValue a = 0 then Inr (a\<lparr>mOffset := -100, mIsNegative := False\<rparr>)
        else
          let (v, off) = scale_up (mValue a) (mOffset a) in
          bindE (scale_down v off) (\<lambda>(v, off).
            let a = (if off < cMinOffset \<or> v < cMinValue
                     then a\<lparr>mValue := 0, mOffset := 0, mIsNegative := False\<rparr>
                     else a\<lparr>mValue := v, mOffset := off\<rparr>)
            in if mOffset a > cMaxOffset then Inl (RuntimeError ''value overflow'') else Inr a))"

subsection \<open>Constructors\<close>

text \<open>\<open>STAmount (currency, issuer, value, offset, isNegative)\<close>; \<open>canonicalize\<close> sets \<open>mIsNative\<close>.\<close>

definition mkAmount :: "uint160 \<Rightarrow> uint160 \<Rightarrow> u64 \<Rightarrow> int \<Rightarrow> bool \<Rightarrow> exn + STAmount" where
  "mkAmount cur iss v off neg =
     canonicalize \<lparr>mCurrency = cur, mIssuer = iss, mValue = v, mOffset = off,
                   mIsNative = False, mIsNegative = neg\<rparr>"

text \<open>\<open>STAmount (v, isNeg)\<close>: native, and a zero is made positive.\<close>

definition mkNative :: "u64 \<Rightarrow> bool \<Rightarrow> STAmount" where
  "mkNative v neg = \<lparr>mCurrency = 0, mIssuer = 0, mValue = v, mOffset = 0, mIsNative = True,
                     mIsNegative = (if v = 0 then False else neg)\<rparr>"

text \<open>\<open>STAmount (name, v, isNeg)\<close>: native, the sign taken as given.\<close>

definition mkNativeN :: "u64 \<Rightarrow> bool \<Rightarrow> STAmount" where
  "mkNativeN v neg = \<lparr>mCurrency = 0, mIssuer = 0, mValue = v, mOffset = 0, mIsNative = True,
                      mIsNegative = neg\<rparr>"

text \<open>\<open>STAmount (name, std::int64_t v)\<close>, through \<open>set\<close>.\<close>

definition mkNativeS :: "int \<Rightarrow> STAmount" where
  "mkNativeS v = (if v < 0 then mkNativeN (word_of_int (- v)) True else mkNativeN (word_of_int v) False)"

definition createFromInt64 :: "int \<Rightarrow> STAmount" where
  "createFromInt64 value =
     (if value \<ge> 0 then mkNativeN (word_of_int value) False
      else mkNativeN (word_of_int (- value)) True)"

subsection \<open>Native accessors\<close>

definition getNValue :: "STAmount \<Rightarrow> exn + u64" where
  "getNValue a = (if \<not> mIsNative a then Inl (RuntimeError ''not native'') else Inr (mValue a))"

definition getSNValue :: "STAmount \<Rightarrow> exn + int" where
  "getSNValue a =
     (if \<not> mIsNative a then Inl (RuntimeError ''not native'')
      else if mIsNegative a then Inr (s64 (- sint (mValue a)))
      else Inr (sint (mValue a)))"

definition setSNValue :: "int \<Rightarrow> STAmount \<Rightarrow> exn + STAmount" where
  "setSNValue v a =
     (if \<not> mIsNative a then Inl (RuntimeError ''not native'')
      else if v > 0 then Inr (a\<lparr>mIsNegative := False, mValue := word_of_int v\<rparr>)
      else Inr (a\<lparr>mIsNegative := True, mValue := word_of_int (- v)\<rparr>))"

text \<open>\<open>operator+= (std::uint64_t)\<close> and \<open>operator-= (std::uint64_t)\<close>; the operand is cast to signed.\<close>

definition plus_assign_u64 :: "STAmount \<Rightarrow> u64 \<Rightarrow> exn + STAmount" where
  "plus_assign_u64 a v =
     (if \<not> mIsNative a then Inl (RuntimeError ''not native'')
      else bindE (getSNValue a) (\<lambda>n. setSNValue (s64 (n + sint v)) a))"

definition minus_assign_u64 :: "STAmount \<Rightarrow> u64 \<Rightarrow> exn + STAmount" where
  "minus_assign_u64 a v =
     (if \<not> mIsNative a then Inl (RuntimeError ''not native'')
      else bindE (getSNValue a) (\<lambda>n. setSNValue (s64 (n - sint v)) a))"

subsection \<open>Comparison\<close>

definition compare :: "STAmount \<Rightarrow> STAmount \<Rightarrow> int" where
  "compare x a =
     (if mIsNegative x \<noteq> mIsNegative a then (if mIsNegative x then -1 else 1)
      else if mValue x = 0 then
        (if mIsNegative a then 1 else if mValue a \<noteq> 0 then -1 else 0)
      else if mValue a = 0 then 1
      else if mOffset x > mOffset a then (if mIsNegative x then -1 else 1)
      else if mOffset x < mOffset a then (if mIsNegative x then 1 else -1)
      else if mValue x > mValue a then (if mIsNegative x then -1 else 1)
      else if mValue x < mValue a then (if mIsNegative x then 1 else -1)
      else 0)"

definition isComparable :: "STAmount \<Rightarrow> STAmount \<Rightarrow> bool" where
  "isComparable x t =
     (if mIsNative x then mIsNative t
      else if mIsNative t then False
      else mCurrency x = mCurrency t)"

definition throwComparable :: "STAmount \<Rightarrow> STAmount \<Rightarrow> exn + unit" where
  "throwComparable x t =
     (if \<not> isComparable x t then Inl (RuntimeError ''amounts are not comparable'') else Inr ())"

definition amount_eq :: "STAmount \<Rightarrow> STAmount \<Rightarrow> bool" where
  "amount_eq x a \<longleftrightarrow> isComparable x a \<and> mIsNegative x = mIsNegative a \<and>
     mOffset x = mOffset a \<and> mValue x = mValue a"

definition amount_neq :: "STAmount \<Rightarrow> STAmount \<Rightarrow> bool" where
  "amount_neq x a \<longleftrightarrow> mOffset x \<noteq> mOffset a \<or> mValue x \<noteq> mValue a \<or>
     mIsNegative x \<noteq> mIsNegative a \<or> \<not> isComparable x a"

definition amount_less :: "STAmount \<Rightarrow> STAmount \<Rightarrow> exn + bool" where
  "amount_less x a = bindE (throwComparable x a) (\<lambda>_. Inr (compare x a < 0))"

definition amount_greater :: "STAmount \<Rightarrow> STAmount \<Rightarrow> exn + bool" where
  "amount_greater x a = bindE (throwComparable x a) (\<lambda>_. Inr (compare x a > 0))"

definition amount_le :: "STAmount \<Rightarrow> STAmount \<Rightarrow> exn + bool" where
  "amount_le x a = bindE (throwComparable x a) (\<lambda>_. Inr (compare x a \<le> 0))"

definition amount_ge :: "STAmount \<Rightarrow> STAmount \<Rightarrow> exn + bool" where
  "amount_ge x a = bindE (throwComparable x a) (\<lambda>_. Inr (compare x a \<ge> 0))"

definition negate :: "STAmount \<Rightarrow> STAmount" where
  "negate a = (if \<not> isZero a then a\<lparr>mIsNegative := \<not> mIsNegative a\<rparr> else a)"

text \<open>Unary minus, through the constructor that does not canonicalize.\<close>

definition uminus_amount :: "STAmount \<Rightarrow> STAmount" where
  "uminus_amount a = (if mValue a = 0 then a else a\<lparr>mIsNegative := \<not> mIsNegative a\<rparr>)"

subsection \<open>Addition and subtraction\<close>

text \<open>The loop that divides a signed mantissa (truncating) up to the larger exponent.\<close>

function align :: "int \<Rightarrow> int \<Rightarrow> int \<Rightarrow> int \<times> int" where
  "align vv ov target = (if ov < target then align (vv sdiv 10) (ov + 1) target else (vv, ov))"
  by pat_completeness auto
termination
  by (relation "measure (\<lambda>(vv, ov, target). nat (target - ov))") auto

declare align.simps [simp del]

text \<open>The mantissa as a signed integer.\<close>

definition signed_value :: "STAmount \<Rightarrow> int" where
  "signed_value a = (if mIsNegative a then s64 (- sint (mValue a)) else sint (mValue a))"

text \<open>
  The common tail of both operators: align the two mantissas, combine them, drop a result of at
  most ten units in the last place, and let the constructor bring the rest into range.
\<close>

definition combine :: "(int \<Rightarrow> int \<Rightarrow> int) \<Rightarrow> STAmount \<Rightarrow> STAmount \<Rightarrow> exn + STAmount" where
  "combine f v1 v2 =
     (let (vv1, ov1) = align (signed_value v1) (mOffset v1) (mOffset v2);
          (vv2, ov2) = align (signed_value v2) (mOffset v2) ov1;
          fv = s64 (f vv1 vv2)
      in if fv \<ge> -10 \<and> fv \<le> 10 then mkAmount (mCurrency v1) (mIssuer v1) 0 0 False
         else if fv \<ge> 0 then mkAmount (mCurrency v1) (mIssuer v1) (word_of_int fv) ov1 False
         else mkAmount (mCurrency v1) (mIssuer v1) (word_of_int (- fv)) ov1 True)"

definition amount_add :: "STAmount \<Rightarrow> STAmount \<Rightarrow> exn + STAmount" where
  "amount_add v1 v2 =
     bindE (throwComparable v1 v2) (\<lambda>_.
       if isZero v2 then Inr v1
       else if isZero v1 then
         mkAmount (mCurrency v1) (mIssuer v1) (mValue v2) (mOffset v2) (mIsNegative v2)
       else if mIsNative v1 then
         bindE (getSNValue v1) (\<lambda>a. bindE (getSNValue v2) (\<lambda>b. Inr (mkNativeS (s64 (a + b)))))
       else combine (+) v1 v2)"

definition amount_sub :: "STAmount \<Rightarrow> STAmount \<Rightarrow> exn + STAmount" where
  "amount_sub v1 v2 =
     bindE (throwComparable v1 v2) (\<lambda>_.
       if isZero v2 then Inr v1
       else if mIsNative v2 then
         bindE (getSNValue v1) (\<lambda>a. bindE (getSNValue v2) (\<lambda>b. Inr (createFromInt64 (s64 (a - b)))))
       else combine (-) v1 v2)"

subsection \<open>Wire format\<close>

definition amount_put :: "STAmount \<Rightarrow> Serializer \<Rightarrow> Serializer" where
  "amount_put a s =
     (if mIsNative a then
        (if \<not> mIsNegative a then snd (add64 (mValue a OR cPosNative) s)
         else snd (add64 (mValue a) s))
      else
        let s = (if isZero a then snd (add64 cNotNative s)
                 else if mIsNegative a then
                   snd (add64 (mValue a OR push_bit (64 - 10) (word_of_int (mOffset a + 512 + 97))) s)
                 else
                   snd (add64 (mValue a OR push_bit (64 - 10) (word_of_int (mOffset a + 512 + 256 + 97))) s));
            s = snd (add160 (mCurrency a) s)
        in snd (add160 (mIssuer a) s))"

definition amount_construct :: "SerializerIterator \<Rightarrow> exn + STAmount \<times> SerializerIterator" where
  "amount_construct sit =
     bindE (it_get64 sit) (\<lambda>(value, sit).
       if value AND cNotNative = 0 then
         (if value AND cPosNative \<noteq> 0 then Inr (mkNativeN (value AND NOT cPosNative) False, sit)
          else if value = 0 then Inl (RuntimeError ''negative zero is not canonical'')
          else Inr (mkNativeN value True, sit))
       else
         bindE (it_get160 sit) (\<lambda>(uCurrencyID, sit).
           if uCurrencyID = 0 then Inl (RuntimeError ''invalid non-native currency'')
           else
             bindE (it_get160 sit) (\<lambda>(uIssuerID, sit).
               let offset = drop_bit (64 - 10) value;
                   value = value AND NOT (push_bit (64 - 10) 1023)
               in if value \<noteq> 0 then
                    let isNegative = (offset AND 256 = 0);
                        off = uint (offset AND 255) - 97
                    in if value < cMinValue \<or> value > cMaxValue \<or> off < cMinOffset \<or> off > cMaxOffset
                       then Inl (RuntimeError ''invalid currency value'')
                       else bindE (mkAmount uCurrencyID uIssuerID value off isNegative) (\<lambda>a. Inr (a, sit))
                  else if offset \<noteq> 512 then Inl (RuntimeError ''invalid currency value'')
                  else bindE (mkAmount uCurrencyID uIssuerID 0 0 False) (\<lambda>a. Inr (a, sit)))))"

subsection \<open>Rounding off noise in the last place\<close>

definition getRound :: "STAmount \<Rightarrow> exn + STAmount" where
  "getRound a =
     (if mIsNative a then Inr a
      else
        let valueDigits = mValue a mod 1000000000 in
        if valueDigits = 1 then
          mkAmount (mCurrency a) (mIssuer a) (mValue a - 1) (mOffset a) (mIsNegative a)
        else if valueDigits = 999999999 then
          mkAmount (mCurrency a) (mIssuer a) (mValue a + 1) (mOffset a) (mIsNegative a)
        else Inr a)"

definition roundSelf :: "STAmount \<Rightarrow> exn + STAmount" where
  "roundSelf a =
     (if mIsNative a then Inr a
      else
        let valueDigits = mValue a mod 1000000000 in
        if valueDigits = 1 then
          let a = a\<lparr>mValue := mValue a - 1\<rparr> in
          if mValue a < cMinValue then canonicalize a else Inr a
        else if valueDigits = 999999999 then
          let a = a\<lparr>mValue := mValue a + 1\<rparr> in
          if mValue a > cMaxValue then canonicalize a else Inr a
        else Inr a)"

end
