(* ===== verification/Amount_Laws.thy ===== *)
theory Amount_Laws
  imports Amount
begin

text \<open>
  The laws of \<open>STAmount\<close>: the value an amount stands for (\<open>val\<close>), the canonical form every amount that
  leaves \<open>canonicalize\<close> is in, and what \<open>canonicalize\<close>, \<open>compare\<close>, addition, subtraction and the wire
  format do to values. The wire format is an instance of the interface \<open>codec\<close> of
  \<open>Serializer_Model\<close>.
\<close>

text \<open>The number an amount stands for, the mantissa range, and the invariant of amounts.\<close>

definition val :: "STAmount \<Rightarrow> rat" where
  "val a = (if mIsNegative a then -1 else 1) * of_nat (unat (mValue a)) * tenpow (mOffset a)"

definition in_range :: "u64 \<Rightarrow> int \<Rightarrow> bool" where
  "in_range v off \<longleftrightarrow> cMinValue \<le> v \<and> v \<le> cMaxValue \<and> cMinOffset \<le> off \<and> off \<le> cMaxOffset"

definition canonical :: "STAmount \<Rightarrow> bool" where
  "canonical a \<longleftrightarrow> mIsNative a = (mCurrency a = 0) \<and>
     (if mIsNative a then mOffset a = 0 \<and> mValue a \<le> cMaxNative
      else (mValue a = 0 \<and> (mOffset a = -100 \<or> mOffset a = 0) \<and> \<not> mIsNegative a) \<or>
           in_range (mValue a) (mOffset a))"

text \<open>Canonical and not a negative zero.\<close>

definition proper :: "STAmount \<Rightarrow> bool" where
  "proper a \<longleftrightarrow> canonical a \<and> (mValue a = 0 \<longrightarrow> \<not> mIsNegative a)"

definition mag :: "STAmount \<Rightarrow> rat" where
  "mag a = of_nat (unat (mValue a)) * tenpow (mOffset a)"

definition sign_of :: "rat \<Rightarrow> int" where
  "sign_of q = (if q < 0 then -1 else if 0 < q then 1 else 0)"

text \<open>The signed mantissa, and the mantissa once aligned to exponent \<open>t\<close>.\<close>

definition smant :: "STAmount \<Rightarrow> int" where
  "smant a = (if mIsNegative a then - int (unat (mValue a)) else int (unat (mValue a)))"

definition aligned :: "STAmount \<Rightarrow> int \<Rightarrow> int" where
  "aligned a t = fst (align (smant a) (mOffset a) t)"

text \<open>The amounts the wire format carries, and the bytes it gives them.\<close>

definition wire_ok :: "STAmount \<Rightarrow> bool" where
  "wire_ok a \<longleftrightarrow> proper a \<and>
     (if mIsNative a then mIssuer a = 0 \<and> unat (mValue a) < 2 ^ 62
      else mValue a = 0 \<longrightarrow> mOffset a = -100)"

definition amount_image :: "STAmount \<Rightarrow> Blob" where
  "amount_image a = mData (amount_put a \<lparr>mData = []\<rparr>)"

definition header :: "STAmount \<Rightarrow> u64" where
  "header a =
     (if mIsNative a then (if mIsNegative a then mValue a else mValue a OR cPosNative)
      else if mValue a = 0 then cNotNative
      else mValue a OR push_bit 54 (word_of_int (mOffset a + 609 + (if mIsNegative a then 0 else 256))))"

subsection \<open>canonicalize\<close>

lemma in_range_nat:
  "in_range v off \<longleftrightarrow> 10 ^ 15 \<le> unat v \<and> unat v < 10 ^ 16 \<and> -96 \<le> off \<and> off \<le> 80"
  by (auto simp: in_range_def amount_consts word_le_nat_alt)

lemma less_cMinValue: "v < cMinValue \<longleftrightarrow> unat v < 10 ^ 15"
  by (simp add: amount_consts word_less_nat_alt)

lemma cMaxValue_less: "cMaxValue < v \<longleftrightarrow> 10 ^ 16 \<le> unat v"
  by (auto simp: amount_consts word_less_nat_alt)

lemma native_shrink_snd: "snd (native_shrink v off) = max 0 off"
  by (induction v off rule: native_shrink.induct) (subst native_shrink.simps, simp)

lemma native_shrink_fst: "unat (fst (native_shrink v off)) = unat v div 10 ^ nat (- off)"
proof (induction v off rule: native_shrink.induct)
  case (1 v off)
  show ?case
  proof (cases "off < 0")
    case True
    then have "nat (- off) = Suc (nat (- (off + 1)))" by simp
    with 1 True show ?thesis
      by (subst native_shrink.simps) (simp add: div_mult2_eq)
  next
    case False
    then show ?thesis by (subst native_shrink.simps) simp
  qed
qed

lemma native_grow_snd: "0 \<le> off \<Longrightarrow> snd (native_grow v off) = 0"
  by (induction v off rule: native_grow.induct) (subst native_grow.simps, simp)

lemma native_grow_0 [simp]: "native_grow v 0 = (v, 0)"
  by (simp add: native_grow.simps)

lemma native_shrink_0 [simp]: "native_shrink v 0 = (v, 0)"
  by (simp add: native_shrink.simps)

lemma scale_up_spec:
  "unat v \<noteq> 0 \<Longrightarrow> \<exists>k. unat (fst (scale_up v off)) = unat v * 10 ^ k \<and>
     snd (scale_up v off) = off - int k \<and>
     (10 ^ 15 \<le> unat (fst (scale_up v off)) \<or> snd (scale_up v off) \<le> -96) \<and>
     (0 < k \<longrightarrow> unat (fst (scale_up v off)) < 10 ^ 16 \<and> -96 \<le> snd (scale_up v off))"
proof (induction v off rule: scale_up.induct)
  case (1 v off)
  show ?case
  proof (cases "v < cMinValue \<and> off > cMinOffset")
    case True
    then have lt: "unat v < 10 ^ 15" and off: "-96 < off"
      by (simp_all add: less_cMinValue cMinOffset_def)
    have v10: "unat (v * 10) = unat v * 10" using lt by (intro unat_times10) simp
    with "1.prems" have "unat (v * 10) \<noteq> 0" by simp
    from "1.IH" [OF True this] obtain k where k:
      "unat (fst (scale_up (v * 10) (off - 1))) = unat (v * 10) * 10 ^ k"
      "snd (scale_up (v * 10) (off - 1)) = off - 1 - int k"
      "10 ^ 15 \<le> unat (fst (scale_up (v * 10) (off - 1))) \<or> snd (scale_up (v * 10) (off - 1)) \<le> -96"
      "0 < k \<longrightarrow> unat (fst (scale_up (v * 10) (off - 1))) < 10 ^ 16 \<and> -96 \<le> snd (scale_up (v * 10) (off - 1))"
      by blast
    have eq: "scale_up v off = scale_up (v * 10) (off - 1)" using True by (subst scale_up.simps) simp
    show ?thesis
      unfolding eq using k v10 lt off by (intro exI [of _ "Suc k"]) (cases "k = 0"; simp)
  next
    case False
    then show ?thesis
      using scale_up.simps [of v off] by (intro exI [of _ 0]) (auto simp: less_cMinValue cMinOffset_def)
  qed
qed

lemma scale_down_spec:
  "scale_down v off = Inr (v', off') \<Longrightarrow> \<exists>k. unat v' = unat v div 10 ^ k \<and> off' = off + int k \<and>
     unat v' < 10 ^ 16 \<and> (0 < k \<longrightarrow> 10 ^ 15 \<le> unat v' \<and> off' \<le> 80)"
proof (induction v off rule: scale_down.induct)
  case (1 v off)
  show ?case
  proof (cases "v > cMaxValue")
    case True
    have off: "off < 80" and rec: "scale_down (v div 10) (off + 1) = Inr (v', off')"
      using "1.prems" True by (auto simp: scale_down.simps [of v off] cMaxOffset_def split: if_splits)
    from "1.IH" [OF True _ rec] off obtain k where k:
      "unat v' = unat (v div 10) div 10 ^ k" "off' = off + 1 + int k" "unat v' < 10 ^ 16"
      "0 < k \<longrightarrow> 10 ^ 15 \<le> unat v' \<and> off' \<le> 80" by (auto simp: cMaxOffset_def)
    have "10 ^ 15 \<le> unat v div 10" using True by (simp add: cMaxValue_less)
    with k off show ?thesis
      by (intro exI [of _ "Suc k"]) (cases "k = 0"; simp add: div_mult2_eq)
  next
    case False
    then show ?thesis
      using "1.prems" by (intro exI [of _ 0]) (auto simp: scale_down.simps [of v off] cMaxValue_less)
  qed
qed

lemma canonicalize_native:
  "mCurrency a = 0 \<Longrightarrow> canonicalize a = Inr b \<Longrightarrow>
    mIsNative b \<and> mCurrency b = 0 \<and> mOffset b = 0 \<and> mValue b \<le> cMaxNative \<and> mIssuer b = mIssuer a"
  using native_shrink_snd [of "mValue a" "mOffset a"]
    native_grow_snd [of "snd (native_shrink (mValue a) (mOffset a))" "fst (native_shrink (mValue a) (mOffset a))"]
  by (auto simp: canonicalize_def Let_def split: if_splits prod.splits)

text \<open>What \<open>canonicalize\<close> makes of a non-native, non-zero amount.\<close>

lemma canonicalize_iou:
  assumes "mCurrency a \<noteq> 0" "mValue a \<noteq> 0" "canonicalize a = Inr b"
  obtains (underflow) "b = a\<lparr>mIsNative := False, mValue := 0, mOffset := 0, mIsNegative := False\<rparr>"
      "of_nat (unat (mValue a)) * tenpow (mOffset a) < tenpow (-81)"
  | (up) k where "in_range (mValue b) (mOffset b)"
      "b = a\<lparr>mIsNative := False, mValue := mValue b, mOffset := mOffset b\<rparr>"
      "unat (mValue b) = unat (mValue a) * 10 ^ k" "mOffset b = mOffset a - int k"
  | (down) k where "in_range (mValue b) (mOffset b)"
      "b = a\<lparr>mIsNative := False, mValue := mValue b, mOffset := mOffset b\<rparr>"
      "unat (mValue b) = unat (mValue a) div 10 ^ k" "mOffset b = mOffset a + int k"
proof -
  obtain v1 o1 where su: "scale_up (mValue a) (mOffset a) = (v1, o1)" by fastforce
  obtain v2 o2 where sd: "scale_down v1 o1 = Inr (v2, o2)"
    using assms su by (auto simp: canonicalize_def Let_def exn_simps)
  have b: "b = (if o2 < cMinOffset \<or> v2 < cMinValue
      then a\<lparr>mIsNative := False, mValue := 0, mOffset := 0, mIsNegative := False\<rparr>
      else a\<lparr>mIsNative := False, mValue := v2, mOffset := o2\<rparr>)" and
    o2max: "o2 < cMinOffset \<or> v2 < cMinValue \<or> o2 \<le> cMaxOffset"
    using assms su sd by (auto simp: canonicalize_def Let_def split: if_splits)
  have "unat (mValue a) \<noteq> 0" using assms by (simp add: unat_eq_0)
  from scale_up_spec [OF this, of "mOffset a"] su obtain k where k:
    "unat v1 = unat (mValue a) * 10 ^ k" "o1 = mOffset a - int k"
    "10 ^ 15 \<le> unat v1 \<or> o1 \<le> -96" "0 < k \<longrightarrow> unat v1 < 10 ^ 16 \<and> -96 \<le> o1" by auto
  from scale_down_spec [OF sd] obtain j where j:
    "unat v2 = unat v1 div 10 ^ j" "o2 = o1 + int j" "unat v2 < 10 ^ 16"
    "0 < j \<longrightarrow> 10 ^ 15 \<le> unat v2 \<and> o2 \<le> 80" by auto
  show thesis
  proof (cases "o2 < cMinOffset \<or> v2 < cMinValue")
    case True
    have "of_nat (unat (mValue a)) * tenpow (mOffset a) = of_nat (unat v1) * tenpow o1"
      by (simp add: k power_int_diff)
    also have "\<dots> < tenpow (-81)"
    proof (cases "o2 \<le> -97")
      case o2: True
      have "unat v1 < (unat v2 + 1) * 10 ^ j"
        unfolding j(1) by (simp add: dividend_less_div_times add.commute)
      then have "(of_nat (unat v1) :: rat) < of_nat ((unat v2 + 1) * 10 ^ j)" by (simp only: of_nat_less_iff)
      then have "of_nat (unat v1) * tenpow o1 < of_nat (unat v2 + 1) * 10 ^ j * tenpow o1"
        by (intro mult_strict_right_mono) (simp_all add: algebra_simps)
      also have "\<dots> = of_nat (unat v2 + 1) * tenpow o2" by (simp add: j(2) tenpow_add_nat)
      also have "\<dots> \<le> 10 ^ 16 * tenpow (-97)"
      proof (rule mult_mono)
        show "(of_nat (unat v2 + 1) :: rat) \<le> 10 ^ 16"
          using j(3) by (metis Suc_eq_plus1 Suc_leI of_nat_le_iff of_nat_numeral of_nat_power)
        show "tenpow o2 \<le> tenpow (- 97)" using o2 by (rule tenpow_mono)
      qed simp_all
      finally show ?thesis by (simp add: power_int_minus)
    next
      case False
      with True have v2: "unat v2 < 10 ^ 15" by (simp add: less_cMinValue cMinOffset_def)
      with j have "j = 0" by (cases "j = 0") simp_all
      with j v2 k have "unat v1 < 10 ^ 15" "o1 \<le> -96" by simp_all
      have "of_nat (unat v1) * tenpow o1 < 10 ^ 15 * tenpow (-96)"
      proof (rule mult_less_le_imp_less)
        show "(of_nat (unat v1) :: rat) < 10 ^ 15"
          using \<open>unat v1 < 10 ^ 15\<close> by (metis of_nat_less_iff of_nat_numeral of_nat_power)
        show "tenpow o1 \<le> tenpow (- 96)" using \<open>o1 \<le> -96\<close> by (rule tenpow_mono)
      qed simp_all
      then show ?thesis by (simp add: power_int_minus)
    qed
    finally show thesis using b True underflow by simp
  next
    case False
    then have bv: "b = a\<lparr>mIsNative := False, mValue := v2, mOffset := o2\<rparr>" using b by simp
    have rng: "in_range v2 o2" using False o2max j(3)
      by (auto simp: in_range_nat less_cMinValue cMinOffset_def cMaxOffset_def)
    show thesis
    proof (cases "j = 0")
      case True
      show thesis using up [of k] bv rng k j True by simp
    next
      case False
      then have "10 ^ 15 \<le> unat v1 div 10 ^ j" using j(1,4) by simp
      then have "10 ^ 15 * 10 ^ j \<le> unat v1" by (simp add: less_eq_div_iff_mult_less_eq)
      moreover have "10 \<le> (10 :: nat) ^ j" using False self_le_power [of 10 j] by simp
      ultimately have "10 ^ 16 \<le> unat v1"
        using mult_le_mono [of "10 ^ 15" "10 ^ 15" 10 "10 ^ j :: nat"] by simp
      then have "k = 0" using k(4) by (cases "k = 0") simp_all
      then show thesis using down [of j] bv rng k j by simp
    qed
  qed
qed

lemma canonicalize_zero_iou:
  "mCurrency a \<noteq> 0 \<Longrightarrow> mValue a = 0 \<Longrightarrow>
    canonicalize a = Inr (a\<lparr>mIsNative := False, mOffset := -100, mIsNegative := False\<rparr>)"
  by (simp add: canonicalize_def)

lemma canonicalize_frame:
  "canonicalize a = Inr b \<Longrightarrow> mCurrency b = mCurrency a \<and> mIssuer b = mIssuer a"
  by (auto simp: canonicalize_def Let_def exn_simps split: if_splits prod.splits)

lemma canonicalize_ok: "canonicalize a = Inr b \<Longrightarrow> canonical b"
proof (cases "mCurrency a = 0")
  case True
  assume "canonicalize a = Inr b"
  then show ?thesis using canonicalize_native [OF True] by (auto simp: canonical_def)
next
  case False
  assume eq: "canonicalize a = Inr b"
  show ?thesis
  proof (cases "mValue a = 0")
    case True
    then show ?thesis using canonicalize_zero_iou [OF False True] eq False by (auto simp: canonical_def)
  next
    case nz: False
    from False nz eq show ?thesis
    proof (cases rule: canonicalize_iou)
      case underflow
      then show ?thesis using False by (simp add: canonical_def)
    next
      case (up k)
      have "\<not> mIsNative b" "mCurrency b = mCurrency a"
        by (subst up(2), simp)+
      then show ?thesis using up(1) False by (simp add: canonical_def)
    next
      case (down k)
      have "\<not> mIsNative b" "mCurrency b = mCurrency a"
        by (subst down(2), simp)+
      then show ?thesis using down(1) False by (simp add: canonical_def)
    qed
  qed
qed

lemma scale_up_in_range: "in_range v off \<Longrightarrow> scale_up v off = (v, off)"
  by (subst scale_up.simps) (auto simp: in_range_def)

lemma scale_down_in_range: "in_range v off \<Longrightarrow> scale_down v off = Inr (v, off)"
  by (subst scale_down.simps) (auto simp: in_range_def)

lemma canonicalize_in_range:
  "mCurrency a \<noteq> 0 \<Longrightarrow> in_range (mValue a) (mOffset a) \<Longrightarrow>
    canonicalize a = Inr (a\<lparr>mIsNative := False\<rparr>)"
  by (auto simp: canonicalize_def scale_up_in_range scale_down_in_range Let_def)
     (auto simp: in_range_def amount_consts)

lemma mkAmount_in_range:
  "cur \<noteq> 0 \<Longrightarrow> in_range v off \<Longrightarrow> mkAmount cur iss v off neg =
    Inr \<lparr>mCurrency = cur, mIssuer = iss, mValue = v, mOffset = off, mIsNative = False, mIsNegative = neg\<rparr>"
  by (simp add: mkAmount_def canonicalize_in_range)

lemma canonicalize_value_iou:
  assumes "mCurrency a \<noteq> 0" "canonicalize a = Inr b"
  shows "\<bar>val b\<bar> \<le> \<bar>val a\<bar> \<and> 0 \<le> val a * val b \<and>
    (mValue b \<noteq> 0 \<longrightarrow> \<bar>val a\<bar> - \<bar>val b\<bar> < tenpow (mOffset b)) \<and>
    (mValue b = 0 \<longrightarrow> \<bar>val a\<bar> < tenpow (-81))"
proof (cases "mValue a = 0")
  case True
  then show ?thesis using canonicalize_zero_iou [OF assms(1) True] assms(2) by (auto simp: val_def)
next
  case False
  from assms(1) False assms(2) show ?thesis
  proof (cases rule: canonicalize_iou)
    case underflow
    then show ?thesis by (simp add: val_def abs_mult)
  next
    case (up k)
    have neg: "mIsNegative b = mIsNegative a" by (subst up(2)) simp
    have "tenpow (mOffset a) = 10 ^ k * tenpow (mOffset b)"
      using up(4) tenpow_add_nat [of "mOffset b" k] by (simp add: mult.commute)
    then have "val b = val a" unfolding val_def neg up(3) by simp
    moreover have "mValue b \<noteq> 0" using up(1) by (auto simp: in_range_nat)
    ultimately show ?thesis by simp
  next
    case (down k)
    have neg: "mIsNegative b = mIsNegative a" by (subst down(2)) simp
    let ?q = "of_nat (unat (mValue a) div 10 ^ k) :: rat" and ?r = "of_nat (unat (mValue a) mod 10 ^ k) :: rat"
    let ?s = "(if mIsNegative a then -1 else 1) :: rat"
    have "of_nat (unat (mValue a)) = (of_nat (unat (mValue a) div 10 ^ k * 10 ^ k + unat (mValue a) mod 10 ^ k) :: rat)"
      by (simp only: div_mult_mod_eq)
    then have "of_nat (unat (mValue a)) = ?q * 10 ^ k + ?r"
      by (simp only: of_nat_add of_nat_mult of_nat_power of_nat_numeral)
    then have va: "val a = ?s * (?q * 10 ^ k + ?r) * tenpow (mOffset a)" by (simp add: val_def)
    have vb: "val b = ?s * ?q * 10 ^ k * tenpow (mOffset a)"
      unfolding val_def neg down(3,4) tenpow_add_nat by simp
    have "?r < of_nat (10 ^ k)" by (simp only: of_nat_less_iff) simp
    then have r: "0 \<le> ?r" "?r < 10 ^ k" by simp_all
    have "mValue b \<noteq> 0" using down(1) by (auto simp: in_range_nat)
    have "\<bar>val a\<bar> = (?q * 10 ^ k + ?r) * tenpow (mOffset a)" "\<bar>val b\<bar> = ?q * 10 ^ k * tenpow (mOffset a)"
      unfolding va vb using r(1) by (simp_all add: abs_mult)
    moreover have "tenpow (mOffset b) = 10 ^ k * tenpow (mOffset a)"
      unfolding down(4) tenpow_add_nat by simp
    moreover have "?r * tenpow (mOffset a) < 10 ^ k * tenpow (mOffset a)" using r by simp
    moreover have "val a * val b = (?q * 10 ^ k + ?r) * (?q * 10 ^ k) * (tenpow (mOffset a))\<^sup>2"
      unfolding va vb by (simp add: power2_eq_square)
    ultimately show ?thesis using r \<open>mValue b \<noteq> 0\<close> by (auto simp: algebra_simps)
  qed
qed

lemma val_mag: "val a = (if mIsNegative a then - mag a else mag a)"
  by (simp add: val_def mag_def)

lemma mag_0_iff [simp]: "mag a = 0 \<longleftrightarrow> mValue a = 0"
  by (simp add: mag_def unat_eq_0)

lemma mag_nonneg [simp]: "0 \<le> mag a"
  by (simp add: mag_def)

lemma mag_pos: "mValue a \<noteq> 0 \<Longrightarrow> 0 < mag a"
  using mag_0_iff [of a] mag_nonneg [of a] by linarith

lemma in_range_lt_offset:
  assumes "in_range v ov" "in_range w ow" "ow < ov"
  shows "of_nat (unat w) * tenpow ow < of_nat (unat v) * tenpow ov"
proof -
  have "(of_nat (unat w) :: rat) < of_nat (10 ^ 16)" "(of_nat (10 ^ 15) :: rat) \<le> of_nat (unat v)"
    using assms by (simp_all only: of_nat_less_iff of_nat_le_iff in_range_nat)
  then have w: "(of_nat (unat w) :: rat) < 10 ^ 16" and v: "(10 ^ 15 :: rat) \<le> of_nat (unat v)" by simp_all
  have "of_nat (unat w) * tenpow ow < 10 ^ 16 * tenpow ow" using w by simp
  also have "\<dots> = 10 ^ 15 * tenpow (ow + 1)" by (simp add: tenpow_Suc)
  also have "\<dots> \<le> of_nat (unat v) * tenpow ov"
    using v tenpow_mono [of "ow + 1" ov] assms(3) by (intro mult_mono) simp_all
  finally show ?thesis .
qed

lemma comparable_cases:
  assumes "canonical x" "canonical a" "isComparable x a" "mValue x \<noteq> 0" "mValue a \<noteq> 0"
  shows "(mOffset x = 0 \<and> mOffset a = 0) \<or> (in_range (mValue x) (mOffset x) \<and> in_range (mValue a) (mOffset a))"
  using assms by (auto simp: canonical_def isComparable_def split: if_splits)

lemma mag_less_iff:
  assumes "canonical x" "canonical a" "isComparable x a" "mValue x \<noteq> 0" "mValue a \<noteq> 0"
  shows "mag x < mag a \<longleftrightarrow> mOffset x < mOffset a \<or> (mOffset x = mOffset a \<and> mValue x < mValue a)"
proof (cases "mOffset x = mOffset a")
  case True
  then show ?thesis by (simp add: mag_def word_less_nat_alt)
next
  case False
  then have "in_range (mValue x) (mOffset x)" "in_range (mValue a) (mOffset a)"
    using comparable_cases [OF assms] by auto
  then have "mOffset x < mOffset a \<Longrightarrow> mag x < mag a" "mOffset a < mOffset x \<Longrightarrow> mag a < mag x"
    unfolding mag_def by (simp_all only: in_range_lt_offset)
  with False show ?thesis by linarith
qed

lemma isComparable_sym: "isComparable x a \<Longrightarrow> isComparable a x"
  by (auto simp: isComparable_def split: if_splits)

lemma compare_val:
  assumes "proper x" "proper a" "isComparable x a"
  shows "compare x a = sign_of (val x - val a)"
proof -
  have canon: "canonical x" "canonical a" and nz: "mValue x = 0 \<Longrightarrow> \<not> mIsNegative x" "mValue a = 0 \<Longrightarrow> \<not> mIsNegative a"
    using assms by (auto simp: proper_def)
  show ?thesis
  proof (cases "mValue x = 0 \<or> mValue a = 0")
    case True
    moreover have "mValue x = 0 \<Longrightarrow> val x = 0" "mValue a = 0 \<Longrightarrow> val a = 0" by (simp_all add: val_def)
    moreover have "mValue x \<noteq> 0 \<Longrightarrow> if mIsNegative x then val x < 0 else 0 < val x"
      "mValue a \<noteq> 0 \<Longrightarrow> if mIsNegative a then val a < 0 else 0 < val a"
      by (simp_all add: val_mag mag_pos)
    ultimately show ?thesis
      using nz by (cases "mValue x = 0"; cases "mValue a = 0"; cases "mIsNegative x"; cases "mIsNegative a")
        (simp_all add: compare_def sign_of_def)
  next
    case False
    then have pos: "0 < mag x" "0 < mag a" by (simp_all add: mag_pos)
    have lt: "mag x < mag a \<longleftrightarrow> mOffset x < mOffset a \<or> (mOffset x = mOffset a \<and> mValue x < mValue a)"
      "mag a < mag x \<longleftrightarrow> mOffset a < mOffset x \<or> (mOffset a = mOffset x \<and> mValue a < mValue x)"
      using False canon assms(3) isComparable_sym [OF assms(3)] by (simp_all add: mag_less_iff)
    have cmp: "compare x a = (if mIsNegative x then -1 else 1) *
        (if mag x < mag a then -1 else if mag a < mag x then 1 else 0)"
      if "mIsNegative x = mIsNegative a"
      using that False unfolding lt compare_def
      by (cases "mOffset x" "mOffset a" rule: linorder_cases;
          cases "mValue x" "mValue a" rule: linorder_cases) simp_all
    show ?thesis
    proof (cases "mIsNegative x = mIsNegative a")
      case True
      then show ?thesis unfolding cmp [OF True] by (simp add: val_mag sign_of_def)
    next
      case False
      then show ?thesis using pos by (auto simp: val_mag sign_of_def compare_def)
    qed
  qed
qed

lemma align_nonneg: "0 \<le> vv \<Longrightarrow> align vv ov t = (vv div 10 ^ nat (t - ov), max ov t)"
proof (induction vv ov t rule: align.induct)
  case (1 vv ov t)
  show ?case
  proof (cases "ov < t")
    case True
    then have "nat (t - ov) = Suc (nat (t - (ov + 1)))" by simp
    with 1 True show ?thesis
      by (subst align.simps) (simp add: sdiv10_nonneg zdiv_zmult2_eq)
  next
    case False
    then show ?thesis by (subst align.simps) simp
  qed
qed

lemma align_minus: "align (- vv) ov t = map_prod uminus id (align vv ov t)"
proof (induction vv ov t rule: align.induct)
  case (1 vv ov t)
  then show ?case
    by (cases "ov < t") (simp_all add: align.simps [of _ ov t] sdiv10_minus)
qed

lemma align_snd: "snd (align vv ov t) = max ov t"
proof (induction vv ov t rule: align.induct)
  case (1 vv ov t)
  then show ?case by (cases "ov < t") (simp_all add: align.simps [of _ ov t])
qed

lemma signed_value_small: "unat (mValue a) < 2 ^ 63 \<Longrightarrow> signed_value a = smant a"
  by (simp add: signed_value_def smant_def sint_small s64_id)

lemma val_smant: "val a = of_int (smant a) * tenpow (mOffset a)"
  by (simp add: val_def smant_def)

text \<open>The mantissa of an operand once aligned to exponent \<open>t\<close>, and what alignment loses.\<close>

lemma aligned_id [simp]: "t \<le> mOffset a \<Longrightarrow> aligned a t = smant a"
  by (simp add: aligned_def align.simps)

lemma aligned_eq:
  "aligned a t = (if mIsNegative a then -1 else 1) * int (unat (mValue a) div 10 ^ nat (t - mOffset a))"
  using align_nonneg [of "int (unat (mValue a))" "mOffset a" t]
  by (simp add: aligned_def smant_def align_minus zdiv_int)

lemma aligned_bound: "unat (mValue a) < 10 ^ 16 \<Longrightarrow> \<bar>aligned a t\<bar> < 10 ^ 16"
proof -
  assume "unat (mValue a) < 10 ^ 16"
  with div_le_dividend have "unat (mValue a) div 10 ^ nat (t - mOffset a) < 10 ^ 16" by (rule le_less_trans)
  then show ?thesis unfolding aligned_eq by (simp add: abs_mult)
qed

lemma aligned_error:
  assumes "mOffset a \<le> t"
  shows "\<bar>val a - of_int (aligned a t) * tenpow t\<bar> < tenpow t"
proof -
  define n where "n = nat (t - mOffset a)"
  let ?m = "unat (mValue a)" and ?s = "(if mIsNegative a then -1 else 1) :: rat"
  have t: "tenpow t = 10 ^ n * tenpow (mOffset a)"
    using assms tenpow_add_nat [of "mOffset a" n] by (simp add: n_def mult.commute)
  have "val a = ?s * (of_nat (?m div 10 ^ n) * 10 ^ n + of_nat (?m mod 10 ^ n)) * tenpow (mOffset a)"
    by (simp only: val_def rat_split [of ?m n, symmetric])
  moreover have "of_int (aligned a t) = ?s * of_nat (?m div 10 ^ n)"
    by (simp add: aligned_eq n_def)
  ultimately have "val a - of_int (aligned a t) * tenpow t = ?s * (of_nat (?m mod 10 ^ n) * tenpow (mOffset a))"
    unfolding t by (simp add: algebra_simps)
  then have "\<bar>val a - of_int (aligned a t) * tenpow t\<bar> = of_nat (?m mod 10 ^ n) * tenpow (mOffset a)"
    by (simp add: abs_mult)
  also have "\<dots> < 10 ^ n * tenpow (mOffset a)" using rat_mod_less by (intro mult_strict_right_mono) simp_all
  finally show ?thesis by (simp add: t)
qed

lemma combine_eq:
  assumes "unat (mValue v1) < 10 ^ 16" "unat (mValue v2) < 10 ^ 16" "f = (+) \<or> f = (-)"
  defines "m \<equiv> max (mOffset v1) (mOffset v2)"
  defines "fv \<equiv> f (aligned v1 m) (aligned v2 m)"
  shows "combine f v1 v2 =
    (if \<bar>fv\<bar> \<le> 10 then mkAmount (mCurrency v1) (mIssuer v1) 0 0 False
     else mkAmount (mCurrency v1) (mIssuer v1) (word_of_int \<bar>fv\<bar>) m (fv < 0)) \<and> \<bar>fv\<bar> < 2 * 10 ^ 16"
proof -
  have s: "signed_value v1 = smant v1" "signed_value v2 = smant v2"
    using assms by (simp_all add: signed_value_small)
  have a1: "align (smant v1) (mOffset v1) (mOffset v2) = (aligned v1 m, m)"
    using align_snd [of "smant v1" "mOffset v1" "mOffset v2"]
    by (cases "mOffset v1 \<le> mOffset v2") (auto simp: aligned_def m_def max_def prod_eq_iff align.simps)
  have a2: "align (smant v2) (mOffset v2) m = (aligned v2 m, m)"
    using align_snd [of "smant v2" "mOffset v2" m] by (auto simp: aligned_def m_def prod_eq_iff)
  have bnd: "\<bar>fv\<bar> < 2 * 10 ^ 16"
    using aligned_bound [OF assms(1), of m] aligned_bound [OF assms(2), of m] assms(3)
    unfolding fv_def by auto
  then have "s64 fv = fv" by (intro s64_id) auto
  then show ?thesis using bnd
    unfolding combine_def s a1 a2 prod.case Let_def fv_def [symmetric] by (auto simp: abs_if)
qed

lemma mkAmount_value:
  assumes "cur \<noteq> 0" "mkAmount cur iss v off neg = Inr z"
  shows "let q = (if neg then -1 else 1) * of_nat (unat v) * tenpow off in
    \<bar>val z\<bar> \<le> \<bar>q\<bar> \<and> 0 \<le> q * val z \<and>
    (mValue z \<noteq> 0 \<longrightarrow> \<bar>q\<bar> - \<bar>val z\<bar> < tenpow (mOffset z)) \<and> (mValue z = 0 \<longrightarrow> \<bar>q\<bar> < tenpow (-81))"
  using canonicalize_value_iou [OF _ assms(2) [unfolded mkAmount_def]] assms(1)
  by (simp add: val_def Let_def)

lemma mkAmount_offset:
  assumes "cur \<noteq> 0" "mkAmount cur iss v off neg = Inr z" "v \<noteq> 0" "unat v < 2 * 10 ^ 16" "mValue z \<noteq> 0"
  shows "mOffset z \<le> off + 1"
proof -
  let ?a = "\<lparr>mCurrency = cur, mIssuer = iss, mValue = v, mOffset = off, mIsNative = False, mIsNegative = neg\<rparr>"
  have "mCurrency ?a \<noteq> 0" "mValue ?a \<noteq> 0" "canonicalize ?a = Inr z"
    using assms by (simp_all add: mkAmount_def)
  then show ?thesis
  proof (cases rule: canonicalize_iou)
    case underflow
    then show ?thesis using assms(5) by simp
  next
    case (up k)
    then show ?thesis by simp
  next
    case (down k)
    then have "10 ^ 15 \<le> unat v div 10 ^ k" by (simp add: in_range_nat)
    then have "10 ^ 15 * 10 ^ k \<le> unat v" by (simp add: less_eq_div_iff_mult_less_eq)
    with assms(4) have "10 ^ 15 * (10 :: nat) ^ k < 10 ^ 15 * 10 ^ 2" by simp
    then have "(10 :: nat) ^ k < 10 ^ 2" by simp
    then have "k < 2" by (metis power_strict_increasing_iff one_less_numeral_iff semiring_norm(76))
    then show ?thesis using down by simp
  qed
qed

lemma aligned_sum_error:
  fixes x y :: STAmount
  defines "m \<equiv> max (mOffset x) (mOffset y)"
  shows "\<bar>val x + val y - of_int (aligned x m + aligned y m) * tenpow m\<bar> < tenpow m"
proof -
  have "val x = of_int (aligned x m) * tenpow m \<or> val y = of_int (aligned y m) * tenpow m"
    by (cases "mOffset x \<le> mOffset y") (simp_all add: m_def max_def val_smant)
  moreover have "\<bar>val x - of_int (aligned x m) * tenpow m\<bar> < tenpow m" "\<bar>val y - of_int (aligned y m) * tenpow m\<bar> < tenpow m"
    by (simp_all add: aligned_error m_def)
  ultimately show ?thesis
    by (auto simp: algebra_simps)
qed

lemma isZero_iff [simp]: "isZero a \<longleftrightarrow> mValue a = 0"
  by (simp add: isZero_def signum_def)

lemma mantissa_small: "canonical a \<Longrightarrow> \<not> mIsNative a \<Longrightarrow> unat (mValue a) < 10 ^ 16"
  by (auto simp: canonical_def in_range_nat)

lemma add_small_accuracy:
  fixes q e :: rat
  assumes "\<bar>e - q\<bar> < t" "\<bar>q\<bar> \<le> 10 * t"
  shows "\<bar>0 - e\<bar> < 11 * t"
  using assms by linarith

lemma amount_add_iou:
  assumes "canonical x" "canonical y" "isComparable x y" "\<not> mIsNative x" "mValue x \<noteq> 0" "mValue y \<noteq> 0"
    and z: "amount_add x y = Inr z"
  defines "m \<equiv> max (mOffset x) (mOffset y)"
  shows "\<bar>val z - (val x + val y)\<bar> < 11 * tenpow m \<or> (mValue z = 0 \<and> \<bar>val x + val y\<bar> < tenpow (-80))"
proof -
  define fv where "fv = aligned x m + aligned y m"
  have nat: "\<not> mIsNative y" "mCurrency x \<noteq> 0"
    using assms by (auto simp: isComparable_def canonical_def split: if_splits)
  have small: "unat (mValue x) < 10 ^ 16" "unat (mValue y) < 10 ^ 16"
    using assms(1,2,4) nat(1) by (blast intro: mantissa_small)+
  from combine_eq [OF small, of "(+)"] have
    eq: "combine (+) x y = (if \<bar>fv\<bar> \<le> 10 then mkAmount (mCurrency x) (mIssuer x) 0 0 False
      else mkAmount (mCurrency x) (mIssuer x) (word_of_int \<bar>fv\<bar>) m (fv < 0))" and bnd: "\<bar>fv\<bar> < 2 * 10 ^ 16"
    by (simp_all add: m_def fv_def)
  have "amount_add x y = combine (+) x y"
    using assms(3-6) by (simp add: amount_add_def throwComparable_def)
  with z eq have z': "(if \<bar>fv\<bar> \<le> 10 then mkAmount (mCurrency x) (mIssuer x) 0 0 False
      else mkAmount (mCurrency x) (mIssuer x) (word_of_int \<bar>fv\<bar>) m (fv < 0)) = Inr z" by simp
  have err: "\<bar>val x + val y - of_int fv * tenpow m\<bar> < tenpow m"
    using aligned_sum_error [of x y] by (simp add: m_def fv_def)
  show ?thesis
  proof (cases "\<bar>fv\<bar> \<le> 10")
    case True
    then have "mValue z = 0" using z' nat by (auto simp: mkAmount_def canonicalize_def)
    then have "val z = 0" by (simp add: val_def)
    moreover have "\<bar>of_int fv * tenpow m\<bar> \<le> 10 * tenpow m"
      using of_int_le_iff [of "\<bar>fv\<bar>" 10, where 'a = rat] True by (simp add: abs_mult)
    ultimately show ?thesis using add_small_accuracy [OF err] by simp
  next
    case False
    let ?v = "word_of_int \<bar>fv\<bar> :: u64" and ?q = "of_int fv * tenpow m"
    have mk: "mkAmount (mCurrency x) (mIssuer x) ?v m (fv < 0) = Inr z" using z' False by simp
    have uv: "unat ?v = nat \<bar>fv\<bar>" using bnd by (intro unat_word_of_int) simp_all
    have q: "(if fv < 0 then -1 else 1) * of_nat (unat ?v) * tenpow m = ?q" by (simp add: uv)
    from mkAmount_value [OF nat(2) mk] have
      mv: "\<bar>val z\<bar> \<le> \<bar>?q\<bar>" "0 \<le> ?q * val z" "mValue z \<noteq> 0 \<longrightarrow> \<bar>?q\<bar> - \<bar>val z\<bar> < tenpow (mOffset z)"
        "mValue z = 0 \<longrightarrow> \<bar>?q\<bar> < tenpow (-81)" by (simp_all add: q Let_def)
    show ?thesis
    proof (cases "mValue z = 0")
      case True
      have "11 * tenpow m \<le> \<bar>?q\<bar>" using of_int_le_iff [of 11 "\<bar>fv\<bar>", where 'a = rat] False by (simp add: abs_mult)
      moreover have "tenpow (-80) = 10 * tenpow (-81)" using tenpow_Suc [of "-81"] by simp
      ultimately have "\<bar>val x + val y\<bar> < tenpow (-80)" using mv(4) True err by linarith
      with True show ?thesis by simp
    next
      case nz: False
      have "?v \<noteq> 0" using uv False by auto
      then have "mOffset z \<le> m + 1" using mkAmount_offset [OF nat(2) mk _ _ nz] uv bnd by simp
      then have "tenpow (mOffset z) \<le> 10 * tenpow m" using tenpow_mono tenpow_Suc by metis
      moreover have "\<bar>?q - val z\<bar> = \<bar>?q\<bar> - \<bar>val z\<bar>" using mv by (simp add: abs_diff_same_sign)
      ultimately have "\<bar>?q - val z\<bar> < 10 * tenpow m" using mv(3) nz by linarith
      then have "\<bar>val z - (val x + val y)\<bar> < 11 * tenpow m" using err by linarith
      then show ?thesis by simp
    qed
  qed
qed

lemma flag_bits: "cNotNative = 2 ^ 63" "cPosNative = 2 ^ 62"
  by (simp_all add: amount_consts)

lemma bit_cPosNative: "bit cPosNative n \<longleftrightarrow> n = 62"
  unfolding flag_bits bit_exp_iff by (auto simp: possible_bit_def)

lemma wire_join:
  fixes v k :: u64
  assumes "unat v < 2 ^ 54" "unat k < 2 ^ 10"
  shows "drop_bit 54 (v OR push_bit 54 k) = k" "(v OR push_bit 54 k) AND NOT (push_bit 54 1023) = v"
    "(v OR push_bit 54 k) AND cNotNative = 0 \<longleftrightarrow> \<not> bit k 9"
proof -
  have v: "take_bit 54 v = v"
    using assms(1) by (simp add: take_bit_eq_mod word_unat_eq_iff unat_mod)
  have k: "take_bit 10 k = k"
    using assms(2) by (simp add: take_bit_eq_mod word_unat_eq_iff unat_mod)
  have vb: "bit v n \<Longrightarrow> n < 54" for n by (metis v bit_take_bit_iff)
  have kb: "bit k n \<Longrightarrow> n < 10" for n by (metis k bit_take_bit_iff)
  show "drop_bit 54 (v OR push_bit 54 k) = k"
    by (rule bit_word_eqI) (auto simp: bit_simps dest: vb kb)
  have m: "(1023 :: u64) = mask 10" by (simp add: mask_eq_exp_minus_1)
  show "(v OR push_bit 54 k) AND NOT (push_bit 54 1023) = v"
    unfolding m by (rule bit_word_eqI) (auto simp: bit_simps dest: vb kb)
  have c: "cNotNative = 2 ^ 63" by (simp add: amount_consts)
  show "(v OR push_bit 54 k) AND cNotNative = 0 \<longleftrightarrow> \<not> bit k 9"
    unfolding c and_exp_eq_0_iff_not_bit by (auto simp: bit_simps dest: vb)
qed

lemma wire_offset:
  assumes "0 \<le> K" "K < 1024"
  shows "unat (word_of_int K :: u64) < 2 ^ 10" "bit (word_of_int K :: u64) 9 \<longleftrightarrow> 512 \<le> K"
    "(word_of_int K AND 256 = (0 :: u64)) \<longleftrightarrow> even (K div 256)" "uint (word_of_int K AND 255 :: u64) = K mod 256"
proof -
  show "unat (word_of_int K :: u64) < 2 ^ 10" using assms by (simp add: unat_word_of_int)
  have "bit K 9 \<longleftrightarrow> odd (K div 512)" by (simp add: bit_iff_odd)
  moreover have "K div 512 = 0 \<or> K div 512 = 1" using assms by auto
  moreover have "K div 512 = 1 \<longleftrightarrow> 512 \<le> K" using assms by auto
  ultimately have "bit K 9 \<longleftrightarrow> 512 \<le> K" by auto
  then show "bit (word_of_int K :: u64) 9 \<longleftrightarrow> 512 \<le> K" by (simp add: bit_word_of_int_iff)
  have e: "(256 :: u64) = 2 ^ 8" by simp
  show "(word_of_int K AND 256 = (0 :: u64)) \<longleftrightarrow> even (K div 256)"
    unfolding e and_exp_eq_0_iff_not_bit bit_word_of_int_iff by (simp add: bit_iff_odd)
  have m: "(255 :: u64) = mask 8" by (simp add: mask_eq_exp_minus_1)
  show "uint (word_of_int K AND 255 :: u64) = K mod 256"
    unfolding m take_bit_eq_mask [symmetric] using assms
    by (simp add: take_bit_eq_mod uint_mod uint_word_of_int)
qed

lemma amount_put_data:
  "mData (amount_put a s) = mData s @ be_bytes 8 (header a) @
     (if mIsNative a then [] else be_bytes 20 (mCurrency a) @ be_bytes 20 (mIssuer a))"
  by (simp add: amount_put_def header_def add_data Let_def add.commute add.left_commute)

lemma amount_construct_native:
  assumes "wire_ok a" "mIsNative a"
  shows "amount_construct \<lparr>mSerializer = \<lparr>mData = pre @ be_bytes 8 (header a) @ post\<rparr>, mPos = length pre\<rparr> =
    Inr (a, \<lparr>mSerializer = \<lparr>mData = pre @ be_bytes 8 (header a) @ post\<rparr>, mPos = length pre + 8\<rparr>)"
proof -
  have v: "take_bit 62 (mValue a) = mValue a"
    using assms by (simp add: wire_ok_def take_bit_eq_mod word_unat_eq_iff unat_mod)
  have vb: "bit (mValue a) n \<Longrightarrow> n < 62" for n by (metis v bit_take_bit_iff)
  have hb: "bit (header a) n \<longleftrightarrow> bit (mValue a) n \<or> (n = 62 \<and> \<not> mIsNegative a)" for n
    using assms(2) by (auto simp: header_def bit_or_iff bit_cPosNative)
  have top: "\<not> bit (mValue a) 63" "\<not> bit (mValue a) 62" using vb [of 63] vb [of 62] by auto
  have h1: "header a AND cNotNative = 0"
    unfolding flag_bits and_exp_eq_0_iff_not_bit using top by (simp add: hb)
  have h2: "header a AND cPosNative = 0 \<longleftrightarrow> mIsNegative a"
    unfolding flag_bits and_exp_eq_0_iff_not_bit using top by (simp add: hb)
  have h3: "\<not> mIsNegative a \<Longrightarrow> header a AND NOT cPosNative = mValue a"
    by (rule bit_word_eqI) (auto simp: hb bit_and_iff bit_not_iff bit_cPosNative dest: vb)
  have "a = mkNativeN (mValue a) (mIsNegative a)"
    using assms by (auto simp: mkNativeN_def wire_ok_def proper_def canonical_def)
  moreover have "mIsNegative a \<Longrightarrow> header a = mValue a \<and> mValue a \<noteq> 0"
    using assms by (auto simp: header_def wire_ok_def proper_def)
  ultimately show ?thesis
    using h1 h2 h3 c64.get_img [where x = "header a" and pre = pre and post = post]
    by (cases "mIsNegative a") (simp_all add: amount_construct_def)
qed

lemma amount_construct_iou:
  fixes pre post :: Blob
  assumes "wire_ok a" "\<not> mIsNative a"
  defines "d \<equiv> pre @ be_bytes 8 (header a) @ be_bytes 20 (mCurrency a) @ be_bytes 20 (mIssuer a) @ post"
  shows "amount_construct \<lparr>mSerializer = \<lparr>mData = d\<rparr>, mPos = length pre\<rparr> =
    Inr (a, \<lparr>mSerializer = \<lparr>mData = d\<rparr>, mPos = length pre + 48\<rparr>)"
proof -
  have cur: "mCurrency a \<noteq> 0" using assms by (simp add: wire_ok_def proper_def canonical_def)
  have g: "it_get64 \<lparr>mSerializer = \<lparr>mData = d\<rparr>, mPos = length pre\<rparr> =
      Inr (header a, \<lparr>mSerializer = \<lparr>mData = d\<rparr>, mPos = length pre + 8\<rparr>)"
    "it_get160 \<lparr>mSerializer = \<lparr>mData = d\<rparr>, mPos = length pre + 8\<rparr> =
      Inr (mCurrency a, \<lparr>mSerializer = \<lparr>mData = d\<rparr>, mPos = length pre + 28\<rparr>)"
    "it_get160 \<lparr>mSerializer = \<lparr>mData = d\<rparr>, mPos = length pre + 28\<rparr> =
      Inr (mIssuer a, \<lparr>mSerializer = \<lparr>mData = d\<rparr>, mPos = length pre + 48\<rparr>)"
    using c64.get_img [where x = "header a" and pre = pre] c160.get_img [where x = "mCurrency a" and pre = "pre @ be_bytes 8 (header a)"]
      c160.get_img [where x = "mIssuer a" and pre = "pre @ be_bytes 8 (header a) @ be_bytes 20 (mCurrency a)"]
    by (simp_all add: d_def)
  show ?thesis
  proof (cases "mValue a = 0")
    case True
    then have h: "header a = cNotNative" using assms by (simp add: header_def)
    have "mkAmount (mCurrency a) (mIssuer a) 0 0 False = Inr a"
      using True cur assms(1,2) by (cases a) (auto simp: mkAmount_def canonicalize_def wire_ok_def proper_def)
    then show ?thesis using cur by (simp add: amount_construct_def g h) (simp add: amount_consts)
  next
    case False
    then have r: "in_range (mValue a) (mOffset a)" using assms by (auto simp: wire_ok_def proper_def canonical_def)
    define K where "K = mOffset a + 609 + (if mIsNegative a then 0 else 256)"
    have b: "0 \<le> mOffset a + 97" "mOffset a + 97 < 256" using r by (simp_all add: in_range_nat)
    have e: "K = (mOffset a + 97) + (if mIsNegative a then 2 else 3) * 256" by (simp add: K_def)
    have K: "512 \<le> K" "K < 1024" using e b by auto
    have K': "K mod 256 = mOffset a + 97" "even (K div 256) \<longleftrightarrow> mIsNegative a"
      unfolding e mod_mult_self1 div_mult_self1 [OF zero_neq_numeral [symmetric]] using b by simp_all
    have h: "header a = mValue a OR push_bit 54 (word_of_int K)" using False assms(2) by (simp add: header_def K_def)
    have "unat (mValue a) < 2 ^ 54" using r by (simp add: in_range_nat)
    note j = wire_join [OF this wire_offset(1) [of K]] and o' = wire_offset(2-4) [of K]
    have "mkAmount (mCurrency a) (mIssuer a) (mValue a) (mOffset a) (mIsNegative a) = Inr a"
      using cur r assms(2) by (simp add: mkAmount_in_range)
    then show ?thesis
      using cur r False K K' j o' unfolding amount_construct_def g bindE.simps prod.case h [symmetric] 
      by (auto simp: h Let_def in_range_def not_less)
  qed
qed

interpretation am: codec amount_put amount_construct amount_image wire_ok
proof unfold_locales
  fix a :: STAmount and s :: Serializer and pre post :: Blob
  show "mData (amount_put a s) = mData s @ amount_image a" by (simp add: amount_image_def amount_put_data)
  assume "wire_ok a"
  then show "amount_construct \<lparr>mSerializer = \<lparr>mData = pre @ amount_image a @ post\<rparr>, mPos = length pre\<rparr> =
     Inr (a, \<lparr>mSerializer = \<lparr>mData = pre @ amount_image a @ post\<rparr>, mPos = length pre + length (amount_image a)\<rparr>)"
    by (cases "mIsNative a")
      (simp_all add: amount_image_def amount_put_data amount_construct_native amount_construct_iou)
qed

lemma canonicalize_idem: "canonical a \<Longrightarrow> mValue a \<noteq> 0 \<Longrightarrow> canonicalize a = Inr a"
proof (cases "mIsNative a")
  case True
  then show "canonical a \<Longrightarrow> mValue a \<noteq> 0 \<Longrightarrow> canonicalize a = Inr a"
    by (cases a) (auto simp: canonical_def canonicalize_def not_less)
next
  case False
  then show "canonical a \<Longrightarrow> mValue a \<noteq> 0 \<Longrightarrow> canonicalize a = Inr a"
    by (auto simp: canonical_def canonicalize_in_range)
qed

lemma smant_negate [simp]: "mValue y \<noteq> 0 \<Longrightarrow> smant (uminus_amount y) = - smant y"
  by (simp add: smant_def uminus_amount_def)

lemma uminus_frame [simp]: "mValue (uminus_amount y) = mValue y" "mOffset (uminus_amount y) = mOffset y"
  "mIsNative (uminus_amount y) = mIsNative y" "mCurrency (uminus_amount y) = mCurrency y"
  "mIssuer (uminus_amount y) = mIssuer y"
  by (simp_all add: uminus_amount_def)

lemma aligned_negate: "mValue y \<noteq> 0 \<Longrightarrow> aligned (uminus_amount y) t = - aligned y t"
  by (simp add: aligned_eq uminus_amount_def)

lemma comparable_negate [simp]: "isComparable x (uminus_amount y) = isComparable x y"
  by (simp add: isComparable_def)

lemma native_small: "canonical a \<Longrightarrow> mIsNative a \<Longrightarrow> unat (mValue a) \<le> 9 * 10 ^ 18"
  by (simp add: canonical_def amount_consts word_le_nat_alt)

lemma getSNValue_small: "canonical a \<Longrightarrow> mIsNative a \<Longrightarrow> getSNValue a = Inr (smant a)"
  using native_small [of a] signed_value_small [of a]
  by (auto simp: getSNValue_def signed_value_def)

lemma canonical_negate [simp]: "canonical (uminus_amount y) = canonical y"
  by (auto simp: canonical_def uminus_amount_def)

lemma createFromInt64_mkNativeS: "createFromInt64 v = mkNativeS v"
  by (simp add: createFromInt64_def mkNativeS_def)

lemma comparable_native: "isComparable x y \<Longrightarrow> mIsNative y = mIsNative x"
  by (simp add: isComparable_def split: if_splits)

lemma sub_add_negate:
  assumes "canonical x" "canonical y" "mValue x \<noteq> 0"
  shows "amount_sub x y = amount_add x (uminus_amount y)"
proof (cases "isComparable x y \<and> mValue y \<noteq> 0")
  case True
  note nat = comparable_native [OF conjunct1 [OF True]]
  show ?thesis
  proof (cases "mIsNative x")
    case native: True
    then show ?thesis using True nat assms
      by (simp add: amount_sub_def amount_add_def throwComparable_def getSNValue_small createFromInt64_mkNativeS)
  next
    case False
    have "combine (-) x y = combine (+) x (uminus_amount y)"
    proof -
      have m: "unat (mValue x) < 10 ^ 16" "unat (mValue y) < 10 ^ 16" "unat (mValue (uminus_amount y)) < 10 ^ 16"
        using False nat assms by (simp_all only: mantissa_small uminus_frame not_False_eq_True)
      show ?thesis
        unfolding conjunct1 [OF combine_eq [OF m(1,2) disjI2 [OF refl]]] conjunct1 [OF combine_eq [OF m(1,3) disjI1 [OF refl]]]
        using True by (simp only: aligned_negate uminus_frame diff_conv_add_uminus not_False_eq_True)
    qed
    then show ?thesis using True nat assms False
      by (simp add: amount_sub_def amount_add_def throwComparable_def)
  qed
qed (auto simp: amount_sub_def amount_add_def throwComparable_def)

lemma mkNativeS_exact:
  assumes "\<bar>v\<bar> < 2 ^ 63"
  shows "smant (mkNativeS v) = v"
  using assms unat_word_of_int [of "- v"] unat_word_of_int [of v]
  by (simp add: mkNativeS_def mkNativeN_def smant_def del: of_int_minus)

lemma native_add:
  assumes "canonical x" "canonical y" "mIsNative x" "mIsNative y" "isLegalNet x" "isLegalNet y"
  shows "\<exists>z. amount_add x y = Inr z \<and> mIsNative z \<and> smant z = smant x + smant y"
proof -
  have b: "\<bar>smant x\<bar> \<le> 10 ^ 17" "\<bar>smant y\<bar> \<le> 10 ^ 17"
    using assms by (auto simp: isLegalNet_def smant_def amount_consts word_le_nat_alt)
  then have s: "s64 (smant x + smant y) = smant x + smant y" by (intro s64_id) auto
  have m: "smant (mkNativeS (smant x + smant y)) = smant x + smant y" using b by (intro mkNativeS_exact) auto
  have c: "isComparable x y" using assms by (simp add: isComparable_def)
  have z: "canonicalize \<lparr>mCurrency = 0, mIssuer = mIssuer x, mValue = mValue y, mOffset = 0, mIsNative = False,
      mIsNegative = mIsNegative y\<rparr> = Inr \<lparr>mCurrency = 0, mIssuer = mIssuer x, mValue = mValue y, mOffset = 0,
      mIsNative = True, mIsNegative = mIsNegative y\<rparr>" if "mValue y \<noteq> 0"
    using that assms by (auto simp: canonicalize_def canonical_def not_less)
  have o0: "mOffset y = 0" "mCurrency x = 0" using assms by (auto simp: canonical_def)
  consider "mValue y = 0" | "mValue y \<noteq> 0" "mValue x = 0" | "mValue y \<noteq> 0" "mValue x \<noteq> 0" by blast
  then show ?thesis
  proof cases
    case 2
    then show ?thesis using assms c z o0 by (auto simp: amount_add_def throwComparable_def mkAmount_def smant_def)
  next
    case 3
    then show ?thesis using assms c s m
      by (simp add: amount_add_def throwComparable_def getSNValue_small) (simp add: mkNativeS_def mkNativeN_def)
  qed (use assms c in \<open>auto simp: amount_add_def throwComparable_def smant_def\<close>)
qed

text \<open>Overflow: \<open>canonicalize\<close> refuses exactly the magnitudes from \<open>10^96\<close> up.\<close>

lemma tenpow_96: "10 ^ 16 * tenpow 80 = tenpow 96" "10 ^ 15 * tenpow 81 = tenpow 96"
  using tenpow_add_nat [of 80 16] tenpow_add_nat [of 81 15] by simp_all

lemma mag_lower:
  assumes "10 ^ n \<le> unat v" "t \<le> off"
  shows "10 ^ n * tenpow t \<le> of_nat (unat v) * tenpow off"
proof (rule mult_mono)
  have "(of_nat (10 ^ n) :: rat) \<le> of_nat (unat v)" using assms(1) by (simp only: of_nat_le_iff)
  then show "(10 ^ n :: rat) \<le> of_nat (unat v)" by simp
qed (use tenpow_mono [OF assms(2)] in simp_all)

lemma scale_down_throws:
  "scale_down v off = Inl e \<Longrightarrow> tenpow 96 \<le> of_nat (unat v) * tenpow off"
proof (induction v off rule: scale_down.induct)
  case (1 v off)
  have v: "v > cMaxValue" using 1(2) by (auto simp: scale_down.simps [of v off] split: if_splits)
  show ?case
  proof (cases "off \<ge> cMaxOffset")
    case True
    then show ?thesis using mag_lower [of 16 v 80 off] v
      unfolding tenpow_96 by (simp add: cMaxValue_less cMaxOffset_def)
  next
    case False
    then have "tenpow 96 \<le> of_nat (unat (v div 10)) * tenpow (off + 1)"
      using 1 v by (simp add: scale_down.simps [of v off])
    also have "\<dots> = of_nat (unat v div 10 ^ 1) * 10 ^ 1 * tenpow off" by (simp add: tenpow_Suc)
    also have "\<dots> \<le> of_nat (unat v) * tenpow off"
      using rat_split [of "unat v" 1] by (intro mult_right_mono) simp_all
    finally show ?thesis .
  qed
qed

lemma canonicalize_throws:
  assumes "mCurrency a \<noteq> 0" "canonicalize a = Inl e"
  shows "tenpow 96 \<le> \<bar>val a\<bar>"
proof -
  have nz: "mValue a \<noteq> 0" using assms canonicalize_zero_iou by fastforce
  obtain v1 o1 where su: "scale_up (mValue a) (mOffset a) = (v1, o1)" by fastforce
  from scale_up_spec [of "mValue a" "mOffset a"] nz su obtain k where
    k: "unat v1 = unat (mValue a) * 10 ^ k" "o1 = mOffset a - int k" by (auto simp: unat_eq_0)
  have m: "\<bar>val a\<bar> = of_nat (unat v1) * tenpow o1"
    by (simp add: val_def k power_int_diff abs_mult)
  show ?thesis
  proof (cases "scale_down v1 o1")
    case (Inl e')
    then show ?thesis using scale_down_throws m by simp
  next
    case (Inr p)
    then obtain v2 o2 where sd: "scale_down v1 o1 = Inr (v2, o2)" by (cases p) simp
    from scale_down_spec [OF sd] obtain j where j: "unat v2 = unat v1 div 10 ^ j" "o2 = o1 + int j"
      "0 < j \<longrightarrow> o2 \<le> 80" by auto
    have "\<not> o2 < cMinOffset" "\<not> v2 < cMinValue" "cMaxOffset < o2"
      using assms nz su sd by (auto simp: canonicalize_def Let_def cMaxOffset_def split: if_splits)
    then have "10 ^ 15 \<le> unat v1" "81 \<le> o1" using j
      by (auto simp: less_cMinValue cMaxOffset_def elim!: order.trans)
    from mag_lower [OF this] show ?thesis by (simp only: m tenpow_96)
  qed
qed

lemma canonicalize_below:
  assumes "mCurrency a \<noteq> 0" "canonicalize a = Inr b"
  shows "\<bar>val a\<bar> < tenpow 96"
proof (cases "mValue b = 0")
  case True
  then have "\<bar>val a\<bar> < tenpow (-81)" using canonicalize_value_iou [OF assms] by simp
  also have "\<dots> \<le> tenpow 96" by (rule tenpow_mono) simp
  finally show ?thesis .
next
  case False
  have "canonical b" "mCurrency b \<noteq> 0" using canonicalize_ok canonicalize_frame assms by metis+
  then have r: "in_range (mValue b) (mOffset b)" using False by (auto simp: canonical_def)
  then have "Suc (unat (mValue b)) \<le> 10 ^ 16" by (simp add: in_range_nat)
  then have "(of_nat (Suc (unat (mValue b))) :: rat) \<le> of_nat (10 ^ 16)" by (simp only: of_nat_le_iff)
  then have v: "(of_nat (unat (mValue b)) + 1 :: rat) \<le> 10 ^ 16" by simp
  have "\<bar>val a\<bar> < \<bar>val b\<bar> + tenpow (mOffset b)" using canonicalize_value_iou [OF assms] False by simp
  also have "\<dots> = (of_nat (unat (mValue b)) + 1) * tenpow (mOffset b)"
    by (simp add: val_def abs_mult algebra_simps)
  also have "\<dots> \<le> 10 ^ 16 * tenpow 80"
    using v r tenpow_mono [of "mOffset b" 80] by (intro mult_mono) (simp_all add: in_range_nat)
  finally show ?thesis by (simp only: tenpow_96)
qed

text \<open>Sample amounts of one issued currency, for concrete inputs.\<close>

definition iou :: "u64 \<Rightarrow> int \<Rightarrow> bool \<Rightarrow> STAmount" where
  "iou v off neg = \<lparr>mCurrency = 5, mIssuer = 6, mValue = v, mOffset = off, mIsNative = False, mIsNegative = neg\<rparr>"

lemma iou_canonical: "in_range v off \<Longrightarrow> canonical (iou v off neg)" "in_range v off \<Longrightarrow> proper (iou v off neg)"
  by (auto simp: iou_def canonical_def proper_def in_range_nat)

lemma iou_sel [simp]: "mCurrency (iou v off neg) = 5" "mIssuer (iou v off neg) = 6" "mValue (iou v off neg) = v"
  "mOffset (iou v off neg) = off" "\<not> mIsNative (iou v off neg)" "mIsNegative (iou v off neg) = neg"
  by (simp_all add: iou_def)



text \<open>
  C6. Comparison decides the order of the values: for canonical amounts without a negative zero
  that are comparable, \<open>compare\<close> is the sign of the difference, although it only looks at signs,
  exponents and mantissas.
\<close>

theorem compare_correct:
  assumes "proper x" "proper y" "isComparable x y"
  shows "compare x y = sign_of (val x - val y)"
  using assms by (rule compare_val)

theorem compare_correct_witness:
  "compare (mkNative 5 True) (mkNative 7 False) = sign_of (val (mkNative 5 True) - val (mkNative 7 False))"
  by (rule compare_correct) (simp_all add: proper_def canonical_def mkNative_def isComparable_def amount_consts)

text \<open>
  C7. Addition of two non-zero amounts of an issued currency: whenever it returns, the result differs
  from the exact sum by less than eleven units of the larger operand's last place, or both the
  result is zero and the sum is below \<open>10^-80\<close>.
\<close>

theorem amount_add_accuracy:
  assumes "canonical x" "canonical y" "isComparable x y" "\<not> mIsNative x" "mValue x \<noteq> 0" "mValue y \<noteq> 0"
    and "amount_add x y = Inr z"
  shows "\<bar>val z - (val x + val y)\<bar> < 11 * tenpow (max (mOffset x) (mOffset y)) \<or>
    (mValue z = 0 \<and> \<bar>val x + val y\<bar> < tenpow (-80))"
  using assms by (rule amount_add_iou)

theorem amount_add_accuracy_witness:
  "let x = iou 1500000000000000 0 False; y = iou 2500000000000000 (-3) True; z = iou 1497500000000000 0 False
   in amount_add x y = Inr z \<and> \<bar>val z - (val x + val y)\<bar> < 11 * tenpow 0"
proof -
  let ?x = "iou 1500000000000000 0 False" and ?y = "iou 2500000000000000 (-3) True"
    and ?z = "iou 1497500000000000 0 False"
  have "amount_add ?x ?y = Inr ?z" 
    by (simp add: amount_add_def iou_def throwComparable_def isComparable_def combine_def signed_value_def align.simps
      s64_id signed_divide_int_def Let_def mkAmount_in_range in_range_def amount_consts)
  then show ?thesis using amount_add_accuracy [of ?x ?y ?z]
    by (simp add: Let_def iou_canonical in_range_def amount_consts isComparable_def)
qed

text \<open>
  C21. Subtraction is addition of the negation, for canonical amounts with a non-zero minuend, native
  or not, comparable or not (both then throw).
\<close>

theorem amount_sub_is_add_negation:
  assumes "canonical x" "canonical y" "mValue x \<noteq> 0"
  shows "amount_sub x y = amount_add x (uminus_amount y)"
  using assms by (rule sub_add_negate)

theorem amount_sub_is_add_negation_witness:
  "amount_sub (iou 1500000000000000 0 False) (mkNative 3 False) =
   amount_add (iou 1500000000000000 0 False) (uminus_amount (mkNative 3 False))"
  by (rule amount_sub_is_add_negation)
    (simp_all add: iou_canonical in_range_def amount_consts canonical_def mkNative_def)

text \<open>
  Native addition is exact on legal net amounts (at most \<open>10^17\<close> units): it returns, the result is
  native, and its signed value is the sum; no 64-bit operation on the way wraps.
\<close>

theorem native_add_exact:
  assumes "canonical x" "canonical y" "mIsNative x" "mIsNative y" "isLegalNet x" "isLegalNet y"
  shows "\<exists>z. amount_add x y = Inr z \<and> mIsNative z \<and> smant z = smant x + smant y"
  using assms by (rule native_add)

theorem native_add_exact_witness:
  "\<exists>z. amount_add (mkNative 100 True) (mkNative 7 False) = Inr z \<and> mIsNative z \<and> smant z = -93"
  using native_add_exact [of "mkNative 100 True" "mkNative 7 False"]
  by (simp add: canonical_def mkNative_def isLegalNet_def smant_def amount_consts)

text \<open>
  Beyond legal net amounts native addition is not checked: two canonical amounts of
  \<open>9 * 10^18\<close> units (\<open>cMaxNative\<close>) add up to a negative amount.
\<close>

theorem native_add_wraps:
  "let m = mkNative cMaxNative False in
   canonical m \<and> amount_add m m = Inr (mkNativeN 446744073709551616 True)"
  by (simp add: Let_def canonical_def amount_add_def throwComparable_def isComparable_def mkNative_def
      getSNValue_def amount_consts s64_def mkNativeS_def)

text \<open>
  There are two zeros of an issued currency: a value that underflows in \<open>canonicalize\<close> becomes a
  zero with exponent 0, while a zero is given exponent -100. \<open>compare\<close> takes them as equal and
  \<open>operator!=\<close> as different, and subtracting from the first loses the operand: \<open>0 - 1.5\<close> is zero.
\<close>

theorem two_zeros:
  "let underflowed = iou 0 0 False; zero = iou 0 (-100) False; x = iou 1500000000000000 (-15) False in
   mkAmount 5 6 1 (-97) False = Inr underflowed \<and> mkAmount 5 6 0 0 False = Inr zero \<and>
   compare underflowed zero = 0 \<and> amount_neq underflowed zero \<and>
   amount_sub underflowed x = Inr zero \<and> amount_sub zero x = Inr (uminus_amount x)"
  by (simp add: Let_def iou_def mkAmount_def canonicalize_def scale_up.simps scale_down.simps amount_consts
      compare_def amount_neq_def amount_sub_def throwComparable_def isComparable_def combine_def
      signed_value_def align_nonneg s64_id uminus_amount_def)



end
