(* ===== verification/Amount_Arith.thy ===== *)
theory Amount_Arith
  imports Amount_Laws
begin

text \<open>
  Multiplication, division, rates and the directed roundings of \<open>STAmount\<close>: \<open>divide\<close>, \<open>multiply\<close>,
  \<open>getRate\<close>, \<open>setRate\<close>, \<open>getPay\<close> of \<open>STAmount.cpp\<close> and all of \<open>STAmountRound.cpp\<close>.

  The products are computed with OpenSSL's big numbers (\<open>CBigNum\<close>, \<open>BN_add_word64\<close> and the like in
  \<open>src/ripple/sslutil/impl/CBigNum.cpp\<close> forward to the library). The library is a parameter \<open>ops\<close> of
  every definition here, and \<open>bignum_laws\<close> states its documented behaviour where no allocation fails:
  word additions and multiplications are exact and return 1, a division by a non-zero word returns
  the remainder and leaves the quotient, and \<open>BN_get_word\<close> returns all ones for what does not fit.
\<close>

record 'bn bignum_ops =
  BN_zero :: 'bn
  BN_add_word :: "'bn \<Rightarrow> u64 \<Rightarrow> int \<times> 'bn"
  BN_mul_word :: "'bn \<Rightarrow> u64 \<Rightarrow> int \<times> 'bn"
  BN_div_word :: "'bn \<Rightarrow> u64 \<Rightarrow> u64 \<times> 'bn"
  BN_get_word :: "'bn \<Rightarrow> u64"

definition bignum_laws :: "'bn bignum_ops \<Rightarrow> ('bn \<Rightarrow> nat) \<Rightarrow> bool" where
  "bignum_laws ops bn_val \<longleftrightarrow>
     bn_val (BN_zero ops) = 0 \<and>
     (\<forall>b w. fst (BN_add_word ops b w) = 1 \<and> bn_val (snd (BN_add_word ops b w)) = bn_val b + unat w) \<and>
     (\<forall>b w. fst (BN_mul_word ops b w) = 1 \<and> bn_val (snd (BN_mul_word ops b w)) = bn_val b * unat w) \<and>
     (\<forall>b w. w \<noteq> 0 \<longrightarrow> unat (fst (BN_div_word ops b w)) = bn_val b mod unat w \<and>
        bn_val (snd (BN_div_word ops b w)) = bn_val b div unat w) \<and>
     (\<forall>b. BN_get_word ops b = (if bn_val b < 2 ^ 64 then of_nat (bn_val b) else -1))"

text \<open>An instance of the library on the natural numbers, for concrete inputs.\<close>

definition bn_nat :: "nat bignum_ops" where
  "bn_nat = \<lparr>BN_zero = 0, BN_add_word = (\<lambda>b w. (1, b + unat w)), BN_mul_word = (\<lambda>b w. (1, b * unat w)),
     BN_div_word = (\<lambda>b w. (of_nat (b mod unat w), b div unat w)),
     BN_get_word = (\<lambda>b. if b < 2 ^ 64 then of_nat b else -1)\<rparr>"

definition tenTo14 :: u64 where [amount_consts]: "tenTo14 = 100000000000000"
definition tenTo14m1 :: u64 where [amount_consts]: "tenTo14m1 = tenTo14 - 1"
definition tenTo17 :: u64 where [amount_consts]: "tenTo17 = tenTo14 * 1000"

definition bn_error :: exn where
  "bn_error = RuntimeError ''internal bn error''"

subsection \<open>Bringing a native operand into range\<close>

lemma raise_min_incr: "v \<noteq> 0 \<Longrightarrow> v < cMinValue \<Longrightarrow> unat v < unat (v * 10) \<and> unat v < 10 ^ 15"
  by (simp add: less_cMinValue unat_times10 unat_gt_0)

text \<open>
  The loop \<open>while (value < cMinValue)\<close>. A zero mantissa would never leave it; every caller has
  returned on a zero operand before.
\<close>

function raise_min :: "u64 \<Rightarrow> int \<Rightarrow> u64 \<times> int" where
  "raise_min v off = (if v \<noteq> 0 \<and> v < cMinValue then raise_min (v * 10) (off - 1) else (v, off))"
  by pat_completeness auto
termination
  by (relation "measure (\<lambda>(v, off). 10 ^ 15 - unat v)")
    (use raise_min_incr in \<open>force simp del: of_nat_numeral intro!: diff_less_mono2\<close>)+

declare raise_min.simps [simp del]

definition operand :: "STAmount \<Rightarrow> u64 \<times> int" where
  "operand a = (if mIsNative a then raise_min (mValue a) (mOffset a) else (mValue a, mOffset a))"

subsection \<open>divide and multiply\<close>

text \<open>
  \<open>v = x; v *= y; [v += r;] v /= z\<close>, giving up where the source does: the result of the optional
  addition is not looked at.
\<close>

definition bn_muldiv :: "'bn bignum_ops \<Rightarrow> u64 \<Rightarrow> u64 \<Rightarrow> u64 option \<Rightarrow> u64 \<Rightarrow> exn + u64" where
  "bn_muldiv ops x y r z =
     (let (c1, v) = BN_add_word ops (BN_zero ops) x in
      if c1 \<noteq> 1 then Inl bn_error
      else let (c2, v) = BN_mul_word ops v y in
        if c2 \<noteq> 1 then Inl bn_error
        else let v = (case r of None \<Rightarrow> v | Some w \<Rightarrow> snd (BN_add_word ops v w));
                 (m, v) = BN_div_word ops v z
             in if m = -1 then Inl bn_error else Inr (BN_get_word ops v))"

definition divide_amount :: "'bn bignum_ops \<Rightarrow> STAmount \<Rightarrow> STAmount \<Rightarrow> uint160 \<Rightarrow> uint160 \<Rightarrow> exn + STAmount" where
  "divide_amount ops num den uCurrencyID uIssuerID =
     (if isZero den then Inl (RuntimeError ''division by zero'')
      else if isZero num then mkAmount uCurrencyID uIssuerID 0 0 False
      else
        let (numVal, numOffset) = operand num; (denVal, denOffset) = operand den in
        bindE (bn_muldiv ops numVal tenTo17 None denVal) (\<lambda>v.
          mkAmount uCurrencyID uIssuerID (v + 5) (numOffset - denOffset - 17)
            (mIsNegative num \<noteq> mIsNegative den)))"

text \<open>The product of two native amounts in native units; the casts to unsigned are the source's.\<close>

definition multiply_native :: "STAmount \<Rightarrow> STAmount \<Rightarrow> exn + STAmount" where
  "multiply_native v1 v2 =
     bindE (getSNValue v1) (\<lambda>s1. bindE (getSNValue v2) (\<lambda>s2.
       let minV = word_of_int (if s1 < s2 then s1 else s2) :: u64;
           maxV = word_of_int (if s1 < s2 then s2 else s1) :: u64
       in if minV > 3000000000 then Inl (RuntimeError ''Native value overflow'')
          else if drop_bit 32 maxV * minV > 2095475792 then Inl (RuntimeError ''Native value overflow'')
          else Inr (mkNativeN (minV * maxV) False)))"

definition multiply :: "'bn bignum_ops \<Rightarrow> STAmount \<Rightarrow> STAmount \<Rightarrow> uint160 \<Rightarrow> uint160 \<Rightarrow> exn + STAmount" where
  "multiply ops v1 v2 uCurrencyID uIssuerID =
     (if isZero v1 \<or> isZero v2 then mkAmount uCurrencyID uIssuerID 0 0 False
      else if mIsNative v1 \<and> mIsNative v2 \<and> uCurrencyID = 0 then multiply_native v1 v2
      else
        let (value1, offset1) = operand v1; (value2, offset2) = operand v2 in
        bindE (bn_muldiv ops value1 value2 None tenTo14) (\<lambda>v.
          mkAmount uCurrencyID uIssuerID (v + 7) (offset1 + offset2 + 14)
            (mIsNegative v1 \<noteq> mIsNegative v2)))"

subsection \<open>Rates\<close>

definition getRate :: "'bn bignum_ops \<Rightarrow> STAmount \<Rightarrow> STAmount \<Rightarrow> u64" where
  "getRate ops offerOut offerIn =
     (if isZero offerOut then 0
      else case divide_amount ops offerIn offerOut CURRENCY_ONE ACCOUNT_ONE of
        Inl _ \<Rightarrow> 0
      | Inr r \<Rightarrow> if isZero r then 0
                 else push_bit (64 - 8) (word_of_int (mOffset r + 100)) OR mValue r)"

definition setRate :: "u64 \<Rightarrow> exn + STAmount" where
  "setRate rate =
     (if rate = 0 then mkAmount CURRENCY_ONE ACCOUNT_ONE 0 0 False
      else
        let mantissa = rate AND NOT (push_bit (64 - 8) 255);
            exponent = uint (drop_bit (64 - 8) rate) - 100
        in mkAmount CURRENCY_ONE ACCOUNT_ONE mantissa exponent False)"

definition getPay :: "'bn bignum_ops \<Rightarrow> STAmount \<Rightarrow> STAmount \<Rightarrow> STAmount \<Rightarrow> exn + STAmount" where
  "getPay ops offerOut offerIn needed =
     (if isZero offerOut then mkAmount (mCurrency offerIn) (mIssuer offerIn) 0 0 False
      else bindE (amount_ge needed offerOut) (\<lambda>more.
        if more then Inr needed
        else bindE (multiply ops needed offerIn CURRENCY_ONE ACCOUNT_ONE) (\<lambda>p.
          bindE (divide_amount ops p offerOut (mCurrency offerIn) (mIssuer offerIn)) (\<lambda>ret.
            bindE (amount_greater ret offerIn) (\<lambda>gt. Inr (if gt then offerIn else ret))))))"

subsection \<open>Directed rounding\<close>

function round_native_loop :: "u64 \<Rightarrow> int \<Rightarrow> nat \<Rightarrow> u64 \<times> int \<times> nat" where
  "round_native_loop value off loops =
     (if off < -1 then round_native_loop (value div 10) (off + 1) (loops + 1) else (value, off, loops))"
  by pat_completeness auto
termination
  by (relation "measure (\<lambda>(value, off, loops). nat (- off))") auto

function round_big_loop :: "u64 \<Rightarrow> int \<Rightarrow> u64 \<times> int" where
  "round_big_loop value off =
     (if value > 10 * cMaxValue then round_big_loop (value div 10) (off + 1) else (value, off))"
  by pat_completeness auto
termination
  by (relation "measure (\<lambda>(value, off). unat value)")
    (auto simp: cMaxValue_def word_less_nat_alt)

declare round_native_loop.simps [simp del] round_big_loop.simps [simp del]

definition canonicalizeRound :: "bool \<Rightarrow> u64 \<Rightarrow> int \<Rightarrow> bool \<Rightarrow> u64 \<times> int" where
  "canonicalizeRound isNative value off roundUp =
     (if \<not> roundUp then (value, off)
      else if isNative then
        (if off < 0 then
           let (value, off, loops) = round_native_loop value off 0;
               value = value + (if loops \<ge> 2 then 9 else 10)
           in (value div 10, off + 1)
         else (value, off))
      else if value > cMaxValue then
        let (value, off) = round_big_loop value off in ((value + 9) div 10, off + 1)
      else (value, off))"

text \<open>The alignment of \<open>addRound\<close> and \<open>subRound\<close>: the last division rounds up on demand.\<close>

definition align_round :: "bool \<Rightarrow> int \<Rightarrow> int \<Rightarrow> int \<Rightarrow> int \<times> int" where
  "align_round roundUp vv ov target =
     (if ov < target then
        let (vv, ov) = align vv ov (target - 1);
            vv = (if roundUp then s64 (vv + 9) else vv)
        in (vv sdiv 10, ov + 1)
      else (vv, ov))"

text \<open>The common tail of \<open>addRound\<close> and \<open>subRound\<close>, on signed mantissas.\<close>

definition combine_round :: "bool \<Rightarrow> STAmount \<Rightarrow> int \<Rightarrow> int \<Rightarrow> int \<Rightarrow> exn + STAmount" where
  "combine_round roundUp v1 vv1 vv2 ov2 =
     (let (vv1, ov1) = align_round roundUp vv1 (mOffset v1) ov2;
          (vv2, ov2) = align_round roundUp vv2 ov2 ov1;
          fv = s64 (vv1 + vv2)
      in if fv \<ge> -10 \<and> fv \<le> 10 then mkAmount (mCurrency v1) (mIssuer v1) 0 0 False
         else if fv \<ge> 0 then
           let (v, ov1) = canonicalizeRound False (word_of_int fv) ov1 roundUp
           in mkAmount (mCurrency v1) (mIssuer v1) v ov1 False
         else
           let (v, ov1) = canonicalizeRound False (word_of_int (- fv)) ov1 (\<not> roundUp)
           in mkAmount (mCurrency v1) (mIssuer v1) v ov1 True)"

definition addRound :: "STAmount \<Rightarrow> STAmount \<Rightarrow> bool \<Rightarrow> exn + STAmount" where
  "addRound v1 v2 roundUp =
     bindE (throwComparable v1 v2) (\<lambda>_.
       if mValue v2 = 0 then Inr v1
       else if mValue v1 = 0 then
         mkAmount (mCurrency v1) (mIssuer v1) (mValue v2) (mOffset v2) (mIsNegative v2)
       else if mIsNative v1 then
         bindE (getSNValue v1) (\<lambda>a. bindE (getSNValue v2) (\<lambda>b. Inr (mkNativeS (s64 (a + b)))))
       else combine_round roundUp v1 (signed_value v1) (signed_value v2) (mOffset v2))"

definition subRound :: "STAmount \<Rightarrow> STAmount \<Rightarrow> bool \<Rightarrow> exn + STAmount" where
  "subRound v1 v2 roundUp =
     bindE (throwComparable v1 v2) (\<lambda>_.
       if mValue v2 = 0 then Inr v1
       else if mValue v1 = 0 then
         mkAmount (mCurrency v1) (mIssuer v1) (mValue v2) (mOffset v2) (\<not> mIsNegative v2)
       else if mIsNative v1 then
         bindE (getSNValue v1) (\<lambda>a. bindE (getSNValue v2) (\<lambda>b. Inr (mkNativeS (s64 (a - b)))))
       else combine_round roundUp v1 (signed_value v1)
              (if \<not> mIsNegative v2 then s64 (- sint (mValue v2)) else sint (mValue v2)) (mOffset v2))"

definition mulRound ::
  "'bn bignum_ops \<Rightarrow> STAmount \<Rightarrow> STAmount \<Rightarrow> uint160 \<Rightarrow> uint160 \<Rightarrow> bool \<Rightarrow> exn + STAmount" where
  "mulRound ops v1 v2 uCurrencyID uIssuerID roundUp =
     (if isZero v1 \<or> isZero v2 then mkAmount uCurrencyID uIssuerID 0 0 False
      else if mIsNative v1 \<and> mIsNative v2 \<and> uCurrencyID = 0 then multiply_native v1 v2
      else
        let (value1, offset1) = operand v1; (value2, offset2) = operand v2;
            resultNegative = (mIsNegative v1 \<noteq> mIsNegative v2)
        in bindE (bn_muldiv ops value1 value2 (if resultNegative \<noteq> roundUp then Some tenTo14m1 else None) tenTo14) (\<lambda>amount.
             let (amount, off) = canonicalizeRound (uCurrencyID = 0) amount (offset1 + offset2 + 14) (resultNegative \<noteq> roundUp)
             in mkAmount uCurrencyID uIssuerID amount off resultNegative))"

definition divRound ::
  "'bn bignum_ops \<Rightarrow> STAmount \<Rightarrow> STAmount \<Rightarrow> uint160 \<Rightarrow> uint160 \<Rightarrow> bool \<Rightarrow> exn + STAmount" where
  "divRound ops num den uCurrencyID uIssuerID roundUp =
     (if isZero den then Inl (RuntimeError ''division by zero'')
      else if isZero num then mkAmount uCurrencyID uIssuerID 0 0 False
      else
        let (numVal, numOffset) = operand num; (denVal, denOffset) = operand den;
            resultNegative = (mIsNegative num \<noteq> mIsNegative den)
        in bindE (bn_muldiv ops numVal tenTo17 (if resultNegative \<noteq> roundUp then Some (denVal - 1) else None) denVal) (\<lambda>amount.
             let (amount, off) = canonicalizeRound (uCurrencyID = 0) amount (numOffset - denOffset - 17) (resultNegative \<noteq> roundUp)
             in mkAmount uCurrencyID uIssuerID amount off resultNegative))"

subsection \<open>What the theorems speak of\<close>

text \<open>
  A result within one unit in the last place of \<open>P\<close>, one rounded toward zero from \<open>P\<close>, and the word
  \<open>getRate\<close> makes of a quotient. An exception is allowed only for \<open>P\<close> beyond the range of amounts.
\<close>

definition within_ulp :: "exn + STAmount \<Rightarrow> uint160 \<Rightarrow> uint160 \<Rightarrow> rat \<Rightarrow> bool" where
  "within_ulp r cur iss P = (case r of
     Inl e \<Rightarrow> tenpow 95 \<le> \<bar>P\<bar>
   | Inr z \<Rightarrow> mCurrency z = cur \<and> mIssuer z = iss \<and> canonical z \<and>
       (if mValue z = 0 then \<bar>P\<bar> < tenpow (-81) else \<bar>val z - P\<bar> < tenpow (mOffset z)))"

definition rate_word :: "STAmount \<Rightarrow> u64" where
  "rate_word r = push_bit (64 - 8) (word_of_int (mOffset r + 100)) OR mValue r"

definition toward_zero :: "exn + STAmount \<Rightarrow> rat \<Rightarrow> bool" where
  "toward_zero r P = (case r of
     Inl e \<Rightarrow> tenpow 95 \<le> \<bar>P\<bar>
   | Inr z \<Rightarrow> canonical z \<and> 0 \<le> P * val z \<and> \<bar>val z\<bar> \<le> \<bar>P\<bar> \<and>
       (if mValue z = 0 then \<bar>P\<bar> < tenpow (-80) else \<bar>P\<bar> - \<bar>val z\<bar> < 2 * tenpow (mOffset z)))"

subsection \<open>Operands and quotients\<close>

lemma raise_min_spec:
  "v \<noteq> 0 \<Longrightarrow> \<exists>k. unat (fst (raise_min v off)) = unat v * 10 ^ k \<and> snd (raise_min v off) = off - int k \<and>
     10 ^ 15 \<le> unat (fst (raise_min v off)) \<and> (0 < k \<longrightarrow> unat (fst (raise_min v off)) < 10 ^ 16)"
proof (induction v off rule: raise_min.induct)
  case (1 v off)
  show ?case
  proof (cases "v < cMinValue")
    case True
    have u: "unat (v * 10) = unat v * 10" using raise_min_incr [OF 1(2) True] by (simp add: unat_times10)
    then have "v * 10 \<noteq> 0" using 1(2) by (simp add: unat_eq_0 [symmetric])
    from 1(1) [OF _ this] 1(2) True obtain k where
      k: "unat (fst (raise_min (v * 10) (off - 1))) = unat (v * 10) * 10 ^ k"
        "snd (raise_min (v * 10) (off - 1)) = off - 1 - int k"
        "10 ^ 15 \<le> unat (fst (raise_min (v * 10) (off - 1)))"
        "0 < k \<longrightarrow> unat (fst (raise_min (v * 10) (off - 1))) < 10 ^ 16" by auto
    have "k = 0 \<Longrightarrow> unat (fst (raise_min (v * 10) (off - 1))) < 10 ^ 16"
      using k(1) u True by (simp add: less_cMinValue)
    then show ?thesis using k u True 1(2)
      by (intro exI [of _ "Suc k"]) (auto simp: raise_min.simps [of v off])
  next
    case False
    then show ?thesis by (intro exI [of _ 0]) (simp add: raise_min.simps [of v off] less_cMinValue)
  qed
qed

text \<open>An operand keeps its magnitude and lies between \<open>10^15\<close> and \<open>10^17\<close>, below \<open>10^16\<close> unless it is a large native amount.\<close>

lemma operand_spec:
  assumes "canonical a" "mValue a \<noteq> 0" "isLegalNet a" "operand a = (v, off)"
  shows "of_nat (unat v) * tenpow off = mag a \<and> 10 ^ 15 \<le> unat v \<and> unat v \<le> 10 ^ 17 \<and>
    (unat (mValue a) < 10 ^ 16 \<longrightarrow> unat v < 10 ^ 16)"
proof (cases "mIsNative a")
  case True
  from raise_min_spec [OF assms(2), of "mOffset a"] obtain k where
    k: "unat v = unat (mValue a) * 10 ^ k" "off = mOffset a - int k" "10 ^ 15 \<le> unat v" "0 < k \<longrightarrow> unat v < 10 ^ 16"
    using assms(4) True by (auto simp: operand_def)
  have "unat (mValue a) \<le> 10 ^ 17" using assms(3) True by (simp add: isLegalNet_def amount_consts word_le_nat_alt)
  with k show ?thesis
    by (cases "k = 0") (simp_all add: mag_def power_int_diff)
next
  case False
  then have "in_range v off" "v = mValue a" "off = mOffset a" using assms by (auto simp: operand_def canonical_def)
  then show ?thesis
    by (simp add: mag_def in_range_nat)
qed

lemma bn_muldiv_eq:
  fixes x y z :: u64 and r :: "u64 option"
  assumes "bignum_laws ops bn_val" "z \<noteq> 0"
  defines "n \<equiv> (unat x * unat y + (case r of None \<Rightarrow> 0 | Some w \<Rightarrow> unat w)) div unat z"
  shows "bn_muldiv ops x y r z = Inr (if n < 2 ^ 64 then of_nat n else -1)"
proof -
  have "unat z \<noteq> 0" using assms(2) by (simp add: unat_eq_0)
  then have m: "k mod unat z < unat z" for k by simp
  have "k mod unat z < unat (-1 :: u64)" for k
    using m [of k] unsigned_less [of z, where 'a = nat] by (simp add: unsigned_minus_1_eq_mask mask_eq_exp_minus_1)
  then have "fst (BN_div_word ops b z) \<noteq> -1" for b
    using assms(1,2) by (metis bignum_laws_def less_irrefl)
  then show ?thesis using assms(1,2)
    by (simp add: bn_muldiv_def bignum_laws_def n_def Let_def split_beta split: option.split)
qed

lemma mkAmount_down:
  assumes "cur \<noteq> 0" "mkAmount cur iss v off neg = Inr z" "10 ^ 16 \<le> unat v" "mValue z \<noteq> 0"
  shows "off + 1 \<le> mOffset z"
proof -
  let ?a = "\<lparr>mCurrency = cur, mIssuer = iss, mValue = v, mOffset = off, mIsNative = False, mIsNegative = neg\<rparr>"
  have "mCurrency ?a \<noteq> 0" "mValue ?a \<noteq> 0" "canonicalize ?a = Inr z"
    using assms by (auto simp: mkAmount_def)
  then show ?thesis
  proof (cases rule: canonicalize_iou)
    case (up k)
    have "10 ^ 16 \<le> unat v * 10 ^ k" using assms(3) by (rule order.trans) simp
    then show ?thesis using up by (simp add: in_range_nat)
  next
    case (down k)
    then have "k \<noteq> 0" using assms(3) by (intro notI) (simp add: in_range_nat)
    then show ?thesis using down by simp
  qed (use assms in auto)
qed


lemma round_arith:
  fixes V A C P T U :: rat
  assumes "V \<le> A + C" "A + C - V < U" "C \<le> 7 * T" "T \<le> C" "A \<le> P" "P < A + T" "10 * T \<le> U" "0 < T"
  shows "\<bar>V - P\<bar> < U"
  using assms by linarith

text \<open>
  A quotient \<open>q\<close> with at least seventeen digits, moved up by at most seven and canonicalized, is
  within one unit in the last place of anything between \<open>q\<close> and \<open>q + 1\<close> units.
\<close>

lemma mkAmount_rounded:
  fixes P :: rat and c q :: nat
  assumes "cur \<noteq> 0" "mkAmount cur iss w off neg = Inr z" "unat w = q + c" "1 \<le> c" "c \<le> 7" "10 ^ 16 \<le> q"
    and P: "of_nat q * tenpow off \<le> P" "P < (of_nat q + 1) * tenpow off"
  shows "if mValue z = 0 then P < tenpow (-81)
    else \<bar>val z - (if neg then - P else P)\<bar> < tenpow (mOffset z)"
proof -
  let ?T = "tenpow off" and ?s = "(if neg then -1 else 1) :: rat"
  let ?q = "?s * of_nat (unat w) * ?T"
  have mk: "\<bar>val z\<bar> \<le> \<bar>?q\<bar>" "0 \<le> ?q * val z" "mValue z \<noteq> 0 \<longrightarrow> \<bar>?q\<bar> - \<bar>val z\<bar> < tenpow (mOffset z)"
    "mValue z = 0 \<longrightarrow> \<bar>?q\<bar> < tenpow (-81)"
    using mkAmount_value [OF assms(1,2)] by (simp_all add: Let_def)
  have q: "\<bar>?q\<bar> = of_nat q * ?T + of_nat c * ?T" by (simp add: assms(3) abs_mult distrib_right)
  have "(1 :: rat) \<le> of_nat c" using assms(4) by simp
  then have c: "of_nat c * ?T \<le> 7 * ?T" "?T \<le> of_nat c * ?T" using assms(5) by simp_all
  have P': "P < of_nat q * ?T + ?T" using P(2) by (simp add: distrib_right)
  show ?thesis
  proof (cases "mValue z = 0")
    case True
    have "P < of_nat q * ?T + of_nat c * ?T" using P' c(2) by linarith
    also have "\<dots> < tenpow (-81)" using mk(4) True by (simp only: q)
    finally show ?thesis unfolding if_P [OF True] .
  next
    case False
    have "off + 1 \<le> mOffset z" using mkAmount_down [OF assms(1,2)] assms(3,6) False by simp
    then have "10 * ?T \<le> tenpow (mOffset z)" using tenpow_mono [of "off + 1" "mOffset z"] by (simp add: tenpow_Suc)
    moreover have "val z = ?s * \<bar>val z\<bar>"
    proof -
      have "0 < of_nat (unat w) * ?T" using assms(3,4) by simp
      moreover have "0 \<le> of_nat (unat w) * ?T * (?s * val z)" using mk(2) by (simp only: mult_ac)
      ultimately have "0 \<le> ?s * val z" using mult_pos_neg not_le by blast
      then show ?thesis by (cases neg) simp_all
    qed
    moreover have "\<bar>\<bar>val z\<bar> - P\<bar> < tenpow (mOffset z)"
      by (rule round_arith [OF mk(1) [unfolded q] mk(3) [unfolded q, rule_format, OF False] c P(1) P' \<open>10 * ?T \<le> _\<close> tenpow_pos])
    ultimately show ?thesis using False by (cases neg) (auto simp: abs_if split: if_splits)
  qed
qed

lemma mkAmount_frame: "mkAmount cur iss v off neg = Inr z \<Longrightarrow> mCurrency z = cur \<and> mIssuer z = iss \<and> canonical z"
  using canonicalize_frame canonicalize_ok by (fastforce simp: mkAmount_def)

lemma mkAmount_within_ulp:
  assumes "cur \<noteq> 0" "unat w = q + c" "1 \<le> c" "c \<le> 7" "10 ^ 16 \<le> q"
    and P: "of_nat q * tenpow off \<le> P" "P < (of_nat q + 1) * tenpow off"
  shows "within_ulp (mkAmount cur iss w off neg) cur iss (if neg then - P else P)"
proof (cases "mkAmount cur iss w off neg")
  case (Inl e)
  let ?T = "tenpow off"
  have "tenpow 96 \<le> of_nat (unat w) * ?T"
    using canonicalize_throws [OF _ Inl [unfolded mkAmount_def]] assms(1) by (cases neg) (simp_all add: val_def abs_mult)
  also have "\<dots> \<le> of_nat (10 * q) * ?T"
  proof (rule mult_right_mono)
    have "unat w \<le> 10 * q" using assms(2-5) by simp
    then show "(of_nat (unat w) :: rat) \<le> of_nat (10 * q)" by (simp only: of_nat_le_iff)
  qed simp
  also have "\<dots> \<le> 10 * P" using P(1) by simp
  finally have "tenpow 95 \<le> P" using tenpow_Suc [of 95] by simp
  then show ?thesis using Inl by (simp add: within_ulp_def)
next
  case (Inr z)
  have "0 \<le> of_nat q * tenpow off" by simp
  then have "0 \<le> P" using P(1) by (rule order.trans)
  then have "\<bar>if neg then - P else P\<bar> = P" by simp
  then show ?thesis using mkAmount_rounded [OF assms(1) Inr assms(2-5) P] mkAmount_frame [OF Inr] Inr
    by (simp only: within_ulp_def sum.case simp_thms)
qed

lemma quotient_bounds:
  assumes "b \<noteq> 0"
  shows "(of_nat (n div b) :: rat) \<le> of_nat n / of_nat b" "(of_nat n :: rat) / of_nat b < of_nat (n div b) + 1"
proof -
  have "n div b * b \<le> n" "n < (n div b + 1) * b" using assms by (simp_all add: dividend_less_div_times add.commute)
  then have "(of_nat (n div b * b) :: rat) \<le> of_nat n" "(of_nat n :: rat) < of_nat ((n div b + 1) * b)"
    by (simp_all only: of_nat_le_iff of_nat_less_iff)
  then show "(of_nat (n div b) :: rat) \<le> of_nat n / of_nat b" "(of_nat n :: rat) / of_nat b < of_nat (n div b) + 1"
    using assms by (simp_all add: field_simps)
qed

lemma scaled_quotient_bounds:
  assumes "b \<noteq> 0"
  shows "of_nat (n div b) * tenpow off \<le> of_nat n / of_nat b * tenpow off"
    "of_nat n / of_nat b * tenpow off < (of_nat (n div b) + 1) * tenpow off"
  by (rule mult_right_mono [OF quotient_bounds(1) [OF assms]], simp)
    (rule mult_strict_right_mono [OF quotient_bounds(2) [OF assms]], simp)

lemma word_plus_small: "n + c < 2 ^ 64 \<Longrightarrow> unat (of_nat n + of_nat c :: u64) = n + c"
  by (simp add: unsigned_of_nat take_bit_nat_eq_self flip: of_nat_add)

lemma val_mult: "val a * val b = (if mIsNegative a \<noteq> mIsNegative b then - (mag a * mag b) else mag a * mag b)"
  by (simp add: val_mag)

lemma val_divide: "val a / val b = (if mIsNegative a \<noteq> mIsNegative b then - (mag a / mag b) else mag a / mag b)"
  by (simp add: val_mag)

text \<open>The quotients \<open>multiply\<close> and \<open>divide\<close> compute: at least seventeen digits, within 64 bits, and the floor of the exact value.\<close>

lemma multiply_quotient:
  assumes laws: "bignum_laws ops bn_val" and v1: "canonical v1" "mValue v1 \<noteq> 0" "isLegalNet v1"
    and v2: "canonical v2" "mValue v2 \<noteq> 0" "isLegalNet v2"
    and "cur \<noteq> 0" "\<not> (mIsNative v1 \<and> mIsNative v2)"
    and o: "operand v1 = (a, oa)" "operand v2 = (b, ob)"
  shows "\<exists>q. bn_muldiv ops a b None tenTo14 = Inr (of_nat q) \<and> q + 7 < 2 ^ 64 \<and> 10 ^ 16 \<le> q \<and>
    of_nat q * tenpow (oa + ob + 14) \<le> mag v1 * mag v2 \<and> mag v1 * mag v2 < (of_nat q + 1) * tenpow (oa + ob + 14)"
proof -
  note s1 = operand_spec [OF v1 o(1)] and s2 = operand_spec [OF v2 o(2)]
  define q where "q = unat a * unat b div 10 ^ 14"
  have "unat a < 10 ^ 16 \<or> unat b < 10 ^ 16"
    using s1 s2 assms(9) mantissa_small [OF v1(1)] mantissa_small [OF v2(1)] by blast
  then have "unat a * unat b \<le> 10 ^ 17 * 10 ^ 16"
    using s1 s2 mult_le_mono [of "unat a" "10 ^ 17" "unat b" "10 ^ 16"] mult_le_mono [of "unat a" "10 ^ 16" "unat b" "10 ^ 17"] by auto
  then have "q \<le> 10 ^ 17 * 10 ^ 16 div 10 ^ 14" unfolding q_def by (rule div_le_mono)
  then have q2: "q + 7 < 2 ^ 64" by simp
  have "10 ^ 15 * 10 ^ 15 \<le> unat a * unat b" using s1 s2 by (intro mult_le_mono) simp_all
  then have "10 ^ 15 * 10 ^ 15 div 10 ^ 14 \<le> q" unfolding q_def by (rule div_le_mono)
  then have q1: "10 ^ 16 \<le> q" by simp
  have bn: "bn_muldiv ops a b None tenTo14 = Inr (of_nat q)"
    using bn_muldiv_eq [OF laws, of tenTo14 a b None] q2 by (simp add: tenTo14_def q_def)
  have P: "mag v1 * mag v2 = of_nat (unat a * unat b) / of_nat (10 ^ 14) * tenpow (oa + ob + 14)"
    unfolding conjunct1 [OF s1, symmetric] conjunct1 [OF s2, symmetric]
    using tenpow_add_nat [of "oa + ob" 14] by (simp add: power_int_add)
  have "of_nat q * tenpow (oa + ob + 14) \<le> mag v1 * mag v2" "mag v1 * mag v2 < (of_nat q + 1) * tenpow (oa + ob + 14)"
    unfolding P q_def by (rule scaled_quotient_bounds, simp)+
  then show ?thesis using bn q1 q2 by blast
qed

lemma divide_quotient:
  assumes laws: "bignum_laws ops bn_val" and num: "canonical num" "mValue num \<noteq> 0" "isLegalNet num"
    and den: "canonical den" "mValue den \<noteq> 0" "unat (mValue den) < 10 ^ 16"
    and o: "operand num = (a, oa)" "operand den = (b, ob)"
  shows "\<exists>q. bn_muldiv ops a tenTo17 None b = Inr (of_nat q) \<and> q + 5 < 2 ^ 64 \<and> 10 ^ 16 \<le> q \<and>
    of_nat q * tenpow (oa - ob - 17) \<le> mag num / mag den \<and> mag num / mag den < (of_nat q + 1) * tenpow (oa - ob - 17)"
proof -
  have legal: "isLegalNet den" using den(3) by (simp add: isLegalNet_def amount_consts word_le_nat_alt)
  note s1 = operand_spec [OF num o(1)] and s2 = operand_spec [OF den(1,2) legal o(2)]
  have b: "10 ^ 15 \<le> unat b" "unat b < 10 ^ 16" and a: "10 ^ 15 \<le> unat a" "unat a \<le> 10 ^ 17" using s1 s2 den(3) by auto
  then have b0: "unat b \<noteq> 0" by auto
  define q where "q = unat a * 10 ^ 17 div unat b"
  have "q \<le> 10 ^ 17 * 10 ^ 17 div 10 ^ 15" unfolding q_def using a b
    by (intro order.trans [OF div_le_mono2 div_le_mono]) simp_all
  then have q2: "q + 5 < 2 ^ 64" by simp
  have "10 ^ 15 * 10 ^ 17 div 10 ^ 16 \<le> q" unfolding q_def using a b
    by (intro order.trans [OF div_le_mono2 div_le_mono]) simp_all
  then have q1: "10 ^ 16 \<le> q" by simp
  have "b \<noteq> 0" using b0 by auto
  then have bn: "bn_muldiv ops a tenTo17 None b = Inr (of_nat q)"
    using bn_muldiv_eq [OF laws, of b a tenTo17 None] q2 by (simp add: tenTo17_def tenTo14_def q_def)
  have P: "mag num / mag den = of_nat (unat a * 10 ^ 17) / of_nat (unat b) * tenpow (oa - ob - 17)"
    unfolding conjunct1 [OF s1, symmetric] conjunct1 [OF s2, symmetric]
    using tenpow_add_nat [of "oa - ob - 17" 17] by (simp add: power_int_diff)
  have "of_nat q * tenpow (oa - ob - 17) \<le> mag num / mag den" "mag num / mag den < (of_nat q + 1) * tenpow (oa - ob - 17)"
    unfolding P q_def by (rule scaled_quotient_bounds [OF b0])+
  then show ?thesis using bn q1 q2 by blast
qed

lemma multiply_within_ulp:
  assumes laws: "bignum_laws ops bn_val" and v1: "canonical v1" "mValue v1 \<noteq> 0" "isLegalNet v1"
    and v2: "canonical v2" "mValue v2 \<noteq> 0" "isLegalNet v2"
    and "cur \<noteq> 0" "\<not> (mIsNative v1 \<and> mIsNative v2)"
  shows "within_ulp (multiply ops v1 v2 cur iss) cur iss (val v1 * val v2)"
proof -
  obtain a oa b ob where o: "operand v1 = (a, oa)" "operand v2 = (b, ob)" by fastforce
  obtain q where q: "bn_muldiv ops a b None tenTo14 = Inr (of_nat q)" "q + 7 < 2 ^ 64" "10 ^ 16 \<le> q"
    "of_nat q * tenpow (oa + ob + 14) \<le> mag v1 * mag v2" "mag v1 * mag v2 < (of_nat q + 1) * tenpow (oa + ob + 14)"
    using multiply_quotient [OF assms o] by auto
  have "within_ulp (mkAmount cur iss (of_nat q + 7) (oa + ob + 14) (mIsNegative v1 \<noteq> mIsNegative v2)) cur iss (val v1 * val v2)"
    unfolding val_mult by (rule mkAmount_within_ulp [where c = 7, OF assms(8) _ _ _ q(3-5)])
      (use word_plus_small [OF q(2)] in simp_all)
  then show ?thesis using assms(8) v1(2) v2(2) by (simp add: multiply_def o q(1))
qed

lemma divide_within_ulp:
  assumes laws: "bignum_laws ops bn_val" and num: "canonical num" "mValue num \<noteq> 0" "isLegalNet num"
    and den: "canonical den" "mValue den \<noteq> 0" "unat (mValue den) < 10 ^ 16"
    and "cur \<noteq> 0"
  shows "within_ulp (divide_amount ops num den cur iss) cur iss (val num / val den)"
proof -
  obtain a oa b ob where o: "operand num = (a, oa)" "operand den = (b, ob)" by fastforce
  obtain q where q: "bn_muldiv ops a tenTo17 None b = Inr (of_nat q)" "q + 5 < 2 ^ 64" "10 ^ 16 \<le> q"
    "of_nat q * tenpow (oa - ob - 17) \<le> mag num / mag den" "mag num / mag den < (of_nat q + 1) * tenpow (oa - ob - 17)"
    using divide_quotient [OF assms(1-7) o] by auto
  have "within_ulp (mkAmount cur iss (of_nat q + 5) (oa - ob - 17) (mIsNegative num \<noteq> mIsNegative den)) cur iss (val num / val den)"
    unfolding val_divide by (rule mkAmount_within_ulp [where c = 5, OF assms(8) _ _ _ q(3-5)])
      (use word_plus_small [OF q(2)] in simp_all)
  then show ?thesis using num(2) den(2) by (simp add: divide_amount_def o q(1))
qed

lemma join56:
  fixes k v :: u64
  assumes "unat v < 2 ^ 56" "unat k < 256"
  shows "unat (push_bit 56 k OR v) = unat k * 2 ^ 56 + unat v" "drop_bit 56 (push_bit 56 k OR v) = k"
    "(push_bit 56 k OR v) AND NOT (push_bit 56 255) = v"
proof -
  have v: "take_bit 56 v = v" using assms(1) by (simp add: take_bit_eq_mod word_unat_eq_iff unat_mod)
  have k: "take_bit 8 k = k" using assms(2) by (simp add: take_bit_eq_mod word_unat_eq_iff unat_mod)
  have vb: "bit v n \<Longrightarrow> n < 56" for n by (metis v bit_take_bit_iff)
  have kb: "bit k n \<Longrightarrow> n < 8" for n by (metis k bit_take_bit_iff)
  have "push_bit 56 k + v = push_bit 56 k OR v"
    by (rule disjunctive_add) (auto simp: bit_simps dest: vb)
  moreover have "unat (push_bit 56 k) = unat k * 2 ^ 56"
    using assms(2) by (simp add: push_bit_eq_mult unat_word_ariths)
  ultimately show "unat (push_bit 56 k OR v) = unat k * 2 ^ 56 + unat v"
    using assms by (simp add: unat_word_ariths flip: \<open>push_bit 56 k + v = _\<close>)
  show "drop_bit 56 (push_bit 56 k OR v) = k"
    by (rule bit_word_eqI) (auto simp: bit_simps dest: vb kb)
  have m: "(255 :: u64) = mask 8" by (simp add: mask_eq_exp_minus_1)
  show "(push_bit 56 k OR v) AND NOT (push_bit 56 255) = v"
    unfolding m by (rule bit_word_eqI) (auto simp: bit_simps dest: vb kb)
qed

lemma rate_word_join:
  assumes "in_range (mValue r) (mOffset r)"
  shows "unat (rate_word r) = nat (mOffset r + 100) * 2 ^ 56 + unat (mValue r)"
    "uint (drop_bit 56 (rate_word r)) = mOffset r + 100"
    "rate_word r AND NOT (push_bit 56 255) = mValue r"
proof -
  let ?k = "word_of_int (mOffset r + 100) :: u64"
  have b: "0 \<le> mOffset r + 100" "mOffset r + 100 < 256" and v: "unat (mValue r) < 2 ^ 56"
    using assms by (simp_all add: in_range_nat)
  have k: "unat ?k = nat (mOffset r + 100)" using b by (intro unat_word_of_int) simp_all
  then have k2: "unat ?k < 256" using b by simp
  note j = join56 [OF v k2]
  have w: "rate_word r = push_bit 56 ?k OR mValue r" by (simp add: rate_word_def del: of_int_add)
  show "unat (rate_word r) = nat (mOffset r + 100) * 2 ^ 56 + unat (mValue r)" using j(1) k by (simp only: w)
  show "rate_word r AND NOT (push_bit 56 255) = mValue r" using j(3) by (simp only: w)
  have "uint ?k = mOffset r + 100" using k b by (simp add: uint_nat del: of_int_add)
  then show "uint (drop_bit 56 (rate_word r)) = mOffset r + 100" using j(2) by (simp only: w)
qed

lemma lex_less: "v < m \<Longrightarrow> w < m \<Longrightarrow> i * m + v < j * m + w \<longleftrightarrow> i < j \<or> i = j \<and> v < w" for i j v w m :: nat
proof (cases i j rule: linorder_cases)
  case less
  then have "Suc i * m \<le> j * m" by (intro mult_le_mono1) simp
  then show "v < m \<Longrightarrow> w < m \<Longrightarrow> ?thesis" using less by simp
next
  case greater
  then have "Suc j * m \<le> i * m" by (intro mult_le_mono1) simp
  then show "v < m \<Longrightarrow> w < m \<Longrightarrow> ?thesis" using greater by simp
qed simp

lemma rate_word_less:
  assumes "in_range (mValue r) (mOffset r)" "in_range (mValue s) (mOffset s)"
  shows "rate_word r < rate_word s \<longleftrightarrow> mOffset r < mOffset s \<or> mOffset r = mOffset s \<and> mValue r < mValue s"
proof -
  have "unat (mValue r) < 2 ^ 56" "unat (mValue s) < 2 ^ 56" using assms by (simp_all add: in_range_nat)
  from lex_less [OF this, of "nat (mOffset r + 100)" "nat (mOffset s + 100)"]
  have "rate_word r < rate_word s \<longleftrightarrow> nat (mOffset r + 100) < nat (mOffset s + 100) \<or>
      nat (mOffset r + 100) = nat (mOffset s + 100) \<and> unat (mValue r) < unat (mValue s)"
    by (simp only: word_less_nat_alt rate_word_join(1) [OF assms(1)] rate_word_join(1) [OF assms(2)])
  then show ?thesis using assms by (auto simp: word_less_nat_alt in_range_nat)
qed

lemma divide_frame:
  "divide_amount ops num den cur iss = Inr r \<Longrightarrow> mCurrency r = cur \<and> mIssuer r = iss \<and> canonical r"
  by (auto simp: divide_amount_def exn_simps Let_def split: if_splits prod.splits dest: mkAmount_frame)

lemma rate_iou:
  assumes "divide_amount ops i o' CURRENCY_ONE ACCOUNT_ONE = Inr r" "mValue r \<noteq> 0"
  shows "in_range (mValue r) (mOffset r)" "\<not> mIsNative r" "canonical r"
  using divide_frame [OF assms(1)] assms(2) by (auto simp: canonical_def CURRENCY_ONE_def)

lemma getRate_eq:
  "divide_amount ops i o' CURRENCY_ONE ACCOUNT_ONE = Inr r \<Longrightarrow> mValue r \<noteq> 0 \<Longrightarrow> getRate ops o' i = rate_word r"
  by (auto simp: getRate_def rate_word_def divide_amount_def)

lemma setRate_getRate:
  assumes "divide_amount ops i o' CURRENCY_ONE ACCOUNT_ONE = Inr r" "mValue r \<noteq> 0" "\<not> mIsNegative r"
  shows "setRate (getRate ops o' i) = Inr r"
proof -
  note ir = rate_iou [OF assms(1,2)]
  have "rate_word r \<noteq> 0" using rate_word_join(1) [OF ir(1)] assms(2) by (auto simp: unat_eq_0)
  then have "setRate (rate_word r) = mkAmount CURRENCY_ONE ACCOUNT_ONE (mValue r) (mOffset r) False"
    using rate_word_join(2,3) [OF ir(1)] by (simp add: setRate_def Let_def)
  also have "\<dots> = Inr r"
    using ir assms(3) divide_frame [OF assms(1)] by (cases r) (simp add: mkAmount_in_range CURRENCY_ONE_def)
  finally show ?thesis by (simp add: getRate_eq [OF assms(1,2)])
qed

lemma mkAmount_toward_zero:
  assumes "cur \<noteq> 0" "unat w = q" "10 ^ 16 \<le> q"
    and P: "of_nat q * tenpow off \<le> P" "P < (of_nat q + 1) * tenpow off"
  shows "toward_zero (mkAmount cur iss w off neg) (if neg then - P else P)"
proof (cases "mkAmount cur iss w off neg")
  case (Inl e)
  have "tenpow 95 \<le> tenpow 96" by (rule tenpow_mono) simp
  also have "\<dots> \<le> of_nat q * tenpow off"
    using canonicalize_throws [OF _ Inl [unfolded mkAmount_def]] assms(1,2) by (cases neg) (simp_all add: val_def abs_mult)
  also note P(1)
  finally show ?thesis using Inl by (simp add: toward_zero_def)
next
  case (Inr z)
  let ?T = "tenpow off" and ?s = "(if neg then -1 else 1) :: rat"
  let ?q = "?s * of_nat (unat w) * ?T" and ?P = "if neg then - P else P"
  have q: "\<bar>?q\<bar> = of_nat q * ?T" using assms(2) by (simp add: abs_mult)
  have mk: "\<bar>val z\<bar> \<le> of_nat q * ?T" "0 \<le> ?q * val z" "mValue z \<noteq> 0 \<longrightarrow> of_nat q * ?T - \<bar>val z\<bar> < tenpow (mOffset z)"
    "mValue z = 0 \<longrightarrow> of_nat q * ?T < tenpow (-81)"
    using mkAmount_value [OF assms(1) Inr] q by (simp_all add: Let_def)
  have P': "P < of_nat q * ?T + ?T" using P(2) by (simp add: distrib_right)
  have "0 \<le> of_nat q * ?T" by simp
  from order.trans [OF this P(1)] have P0: "0 \<le> P" .
  then have aP: "\<bar>?P\<bar> = P" by simp
  have "0 < of_nat q * ?T" using assms(3) by simp
  moreover have "0 \<le> of_nat q * ?T * (?s * val z)" using mk(2) assms(2) by (simp only: mult_ac)
  ultimately have "0 \<le> ?s * val z" using mult_pos_neg not_le by blast
  then have s: "0 \<le> ?P * val z"
    using P0 by (cases neg) (simp_all add: mult_nonneg_nonpos)
  have acc: "if mValue z = 0 then P < tenpow (-80) else P - \<bar>val z\<bar> < 2 * tenpow (mOffset z)"
  proof (cases "mValue z = 0")
    case True
    have "1 \<le> (of_nat q :: rat)" using assms(3) by simp
    then have "?T \<le> of_nat q * ?T" by simp
    then have "P < 10 * (of_nat q * ?T)" using P' \<open>0 < of_nat q * ?T\<close> by linarith
    also have "\<dots> < 10 * tenpow (-81)" using mk(4) True by simp
    also have "\<dots> = tenpow (-80)" using tenpow_Suc [of "-81"] by simp
    finally show ?thesis unfolding if_P [OF True] .
  next
    case False
    have "off \<le> mOffset z" using mkAmount_down [OF assms(1) Inr] assms(2,3) False by simp
    then have "?T \<le> tenpow (mOffset z)" by (rule tenpow_mono)
    then have "P - \<bar>val z\<bar> < 2 * tenpow (mOffset z)" using mk(3) False P' by linarith
    then show ?thesis using False by simp
  qed
  have "\<bar>val z\<bar> \<le> P" using mk(1) P(1) by (rule order.trans)
  then show ?thesis using acc s mkAmount_frame [OF Inr] Inr
    by (simp only: toward_zero_def sum.case aP simp_thms)
qed

lemma mulRound_toward_zero:
  assumes laws: "bignum_laws ops bn_val" and v1: "canonical v1" "mValue v1 \<noteq> 0" "isLegalNet v1"
    and v2: "canonical v2" "mValue v2 \<noteq> 0" "isLegalNet v2"
    and "cur \<noteq> 0" "\<not> (mIsNative v1 \<and> mIsNative v2)" and dir: "roundUp = (mIsNegative v1 \<noteq> mIsNegative v2)"
  shows "toward_zero (mulRound ops v1 v2 cur iss roundUp) (val v1 * val v2)"
proof -
  obtain a oa b ob where o: "operand v1 = (a, oa)" "operand v2 = (b, ob)" by fastforce
  obtain q where q: "bn_muldiv ops a b None tenTo14 = Inr (of_nat q)" "q < 2 ^ 64" "10 ^ 16 \<le> q"
    "of_nat q * tenpow (oa + ob + 14) \<le> mag v1 * mag v2" "mag v1 * mag v2 < (of_nat q + 1) * tenpow (oa + ob + 14)"
    using multiply_quotient [OF assms(1-9) o] by auto
  have "toward_zero (mkAmount cur iss (of_nat q) (oa + ob + 14) (mIsNegative v1 \<noteq> mIsNegative v2)) (val v1 * val v2)"
    unfolding val_mult by (rule mkAmount_toward_zero [OF assms(8) _ q(3-5)]) (use q(2) in \<open>simp add: unsigned_of_nat take_bit_nat_eq_self\<close>)
  then show ?thesis using assms(8) v1(2) v2(2) by (auto simp: mulRound_def o q(1) canonicalizeRound_def dir Let_def)
qed

lemma divRound_toward_zero:
  assumes laws: "bignum_laws ops bn_val" and num: "canonical num" "mValue num \<noteq> 0" "isLegalNet num"
    and den: "canonical den" "mValue den \<noteq> 0" "unat (mValue den) < 10 ^ 16"
    and "cur \<noteq> 0" and dir: "roundUp = (mIsNegative num \<noteq> mIsNegative den)"
  shows "toward_zero (divRound ops num den cur iss roundUp) (val num / val den)"
proof -
  obtain a oa b ob where o: "operand num = (a, oa)" "operand den = (b, ob)" by fastforce
  obtain q where q: "bn_muldiv ops a tenTo17 None b = Inr (of_nat q)" "q < 2 ^ 64" "10 ^ 16 \<le> q"
    "of_nat q * tenpow (oa - ob - 17) \<le> mag num / mag den" "mag num / mag den < (of_nat q + 1) * tenpow (oa - ob - 17)"
    using divide_quotient [OF assms(1-7) o] by auto
  have "toward_zero (mkAmount cur iss (of_nat q) (oa - ob - 17) (mIsNegative num \<noteq> mIsNegative den)) (val num / val den)"
    unfolding val_divide by (rule mkAmount_toward_zero [OF assms(8) _ q(3-5)]) (use q(2) in \<open>simp add: unsigned_of_nat take_bit_nat_eq_self\<close>)
  then show ?thesis using num(2) den(2) by (auto simp: divRound_def o q(1) canonicalizeRound_def dir Let_def)
qed

lemma multiply_native_fits:
  fixes x y :: nat
  assumes "x \<le> y" "x \<le> 3000000000" "y < 2 ^ 63" "y div 2 ^ 32 * x \<le> 2095475792"
  shows "x * y < 2 ^ 64"
proof (cases "y div 2 ^ 32 = 0")
  case True
  then have "y < 2 ^ 32" by (simp add: div_eq_0_iff)
  then have "x * y \<le> 3000000000 * 2 ^ 32" using assms(2) by (intro mult_le_mono) simp_all
  then show ?thesis by simp
next
  case False
  then have "1 * x \<le> y div 2 ^ 32 * x" by (intro mult_le_mono1) simp
  then have x: "x \<le> 2095475792" using assms(4) by linarith
  have "y < (y div 2 ^ 32 + 1) * 2 ^ 32" using dividend_less_div_times [of "2 ^ 32" y] by (simp add: add.commute)
  then have "x * y \<le> x * ((y div 2 ^ 32 + 1) * 2 ^ 32)" by (intro mult_le_mono) simp_all
  also have "\<dots> = (y div 2 ^ 32 * x + x) * 2 ^ 32" by (simp add: algebra_simps)
  also have "\<dots> \<le> (2095475792 + 2095475792) * 2 ^ 32" using assms(4) x by (intro mult_le_mono1) simp
  finally show ?thesis by simp
qed

lemma sint_nonneg_unat: "0 \<le> s \<Longrightarrow> s < 2 ^ 63 \<Longrightarrow> unat (word_of_int s :: u64) = nat s"
  by (rule unat_word_of_int) simp_all

lemma multiply_native_spec:
  assumes "canonical v1" "canonical v2" "mIsNative v1" "mIsNative v2" "\<not> mIsNegative v1" "\<not> mIsNegative v2"
    and "multiply_native v1 v2 = Inr z"
  shows "unat (mValue z) = unat (mValue v1) * unat (mValue v2)"
proof -
  let ?a = "unat (mValue v1)" and ?b = "unat (mValue v2)"
  have b: "?a < 2 ^ 63" "?b < 2 ^ 63" using native_small [OF assms(1,3)] native_small [OF assms(2,4)] by simp_all
  define x y where "x = min ?a ?b" and "y = max ?a ?b"
  have s: "getSNValue v1 = Inr (int ?a)" "getSNValue v2 = Inr (int ?b)"
    using assms by (simp_all add: getSNValue_small smant_def)
  have w: "word_of_int (if int ?a < int ?b then int ?a else int ?b) = (of_nat x :: u64)"
    "word_of_int (if int ?a < int ?b then int ?b else int ?a) = (of_nat y :: u64)"
    by (auto simp: x_def y_def min_def max_def)
  have u: "unat (of_nat x :: u64) = x" "unat (of_nat y :: u64) = y" "x \<le> y" "y < 2 ^ 63"
    using b by (auto simp: x_def y_def unsigned_of_nat take_bit_nat_eq_self min_def max_def)
  have m: "\<not> of_nat x > (3000000000 :: u64)" "\<not> drop_bit 32 (of_nat y) * of_nat x > (2095475792 :: u64)"
    "z = mkNativeN (of_nat x * of_nat y) False"
    using assms(7) unfolding multiply_native_def s bindE.simps w Let_def by (simp_all split: if_splits)
  have x: "x \<le> 3000000000" using m(1) u(1) by (simp add: word_less_nat_alt)
  have d: "unat (drop_bit 32 (of_nat y :: u64)) = y div 2 ^ 32" using u(2) by (simp add: drop_bit_eq_div unat_div)
  have "y div 2 ^ 32 * x < 2 ^ 64"
  proof -
    have "y div 2 ^ 32 < 2 ^ 31" using u(4) by (simp add: div_less_iff_less_mult)
    then have "y div 2 ^ 32 * x \<le> 2 ^ 31 * 3000000000" using x by (intro mult_le_mono) simp_all
    then show ?thesis by simp
  qed
  then have "unat (drop_bit 32 (of_nat y) * of_nat x :: u64) = y div 2 ^ 32 * x"
    using d u(1) by (simp add: unat_word_ariths)
  then have "y div 2 ^ 32 * x \<le> 2095475792" using m(2) by (simp add: word_less_nat_alt)
  then have "x * y < 2 ^ 64" using multiply_native_fits u x by blast
  then have "unat (of_nat x * of_nat y :: u64) = x * y" using u by (simp add: unat_word_ariths)
  then show ?thesis using m(3) by (simp add: mkNativeN_def x_def y_def min_def max_def)
qed

text \<open>
  C17. The product of two legal amounts, at most one of them native, in an issued currency, with
  OpenSSL's big numbers behaving as documented: \<open>multiply\<close> throws only from a product of \<open>10^95\<close> on;
  otherwise the result is canonical, in the asked currency and issuer, and within one unit in its
  last place of the exact product, or zero for a product below \<open>10^-81\<close>.
\<close>

theorem multiply_accuracy:
  assumes "bignum_laws ops bn_val" "canonical v1" "mValue v1 \<noteq> 0" "isLegalNet v1"
    and "canonical v2" "mValue v2 \<noteq> 0" "isLegalNet v2" "cur \<noteq> 0" "\<not> (mIsNative v1 \<and> mIsNative v2)"
  shows "within_ulp (multiply ops v1 v2 cur iss) cur iss (val v1 * val v2)"
  using assms by (rule multiply_within_ulp)

lemma bn_nat_laws: "bignum_laws bn_nat id"
proof -
  have "unat (of_nat (b mod unat w) :: u64) = b mod unat w" if "w \<noteq> 0" for b and w :: u64
  proof -
    have "b mod unat w < unat w" using that by (simp add: unat_gt_0)
    also have "\<dots> < 2 ^ 64" using unsigned_less [of w, where 'a = nat] by simp
    finally show ?thesis by (simp add: unsigned_of_nat take_bit_nat_eq_self)
  qed
  then show ?thesis by (simp add: bignum_laws_def bn_nat_def)
qed

theorem multiply_accuracy_witness:
  "within_ulp (multiply bn_nat (iou 2500000000000000 (-15) True) (mkNative 7 False) 5 6) 5 6 (-35 / 2)"
  using multiply_accuracy [of bn_nat id "iou 2500000000000000 (-15) True" "mkNative 7 False" 5 6]
  by (simp add: bn_nat_laws iou_canonical in_range_def amount_consts isLegalNet_def)
    (simp add: canonical_def mkNative_def amount_consts val_def power_int_minus)



text \<open>
  C19. Rates order offers as their prices: where the two divisions behind \<open>getRate\<close> give non-zero
  results that are not negative, the rates compare as 64-bit words exactly as the quotients do, and
  \<open>setRate\<close> recovers each quotient from its rate.
\<close>

theorem rate_order:
  assumes "divide_amount ops in1 out1 CURRENCY_ONE ACCOUNT_ONE = Inr r1" "mValue r1 \<noteq> 0" "\<not> mIsNegative r1"
    and "divide_amount ops in2 out2 CURRENCY_ONE ACCOUNT_ONE = Inr r2" "mValue r2 \<noteq> 0" "\<not> mIsNegative r2"
  shows "(getRate ops out1 in1 < getRate ops out2 in2 \<longleftrightarrow> val r1 < val r2) \<and>
    setRate (getRate ops out1 in1) = Inr r1"
proof
  note i1 = rate_iou [OF assms(1,2)] and i2 = rate_iou [OF assms(4,5)]
  have "isComparable r1 r2"
    using i1 i2 divide_frame [OF assms(1)] divide_frame [OF assms(4)] by (simp add: isComparable_def)
  then show "getRate ops out1 in1 < getRate ops out2 in2 \<longleftrightarrow> val r1 < val r2"
    using i1 i2 assms by (simp add: getRate_eq rate_word_less mag_less_iff val_mag)
  show "setRate (getRate ops out1 in1) = Inr r1" using assms(1-3) by (rule setRate_getRate)
qed

definition ratio :: "u64 \<Rightarrow> STAmount" where
  "ratio v = \<lparr>mCurrency = CURRENCY_ONE, mIssuer = ACCOUNT_ONE, mValue = v, mOffset = -15, mIsNative = False, mIsNegative = False\<rparr>"

lemma ratio_sample:
  "divide_amount bn_nat (mkNative 2 False) (mkNative 1 False) CURRENCY_ONE ACCOUNT_ONE = Inr (ratio 2000000000000000)"
  "divide_amount bn_nat (mkNative 3 False) (mkNative 1 False) CURRENCY_ONE ACCOUNT_ONE = Inr (ratio 3000000000000000)"
  by (simp_all add: divide_amount_def mkNative_def operand_def raise_min.simps bn_muldiv_def bn_nat_def ratio_def
      mkAmount_def canonicalize_def scale_up.simps scale_down.simps amount_consts CURRENCY_ONE_def)

theorem rate_order_witness:
  "getRate bn_nat (mkNative 1 False) (mkNative 2 False) < getRate bn_nat (mkNative 1 False) (mkNative 3 False)"
  using rate_order [OF ratio_sample(1) _ _ ratio_sample(2)] by (simp add: val_def ratio_def)


text \<open>
  C24. Native times native: for non-negative canonical amounts a product that \<open>multiply\<close> returns is
  exact, the two overflow guards keep it inside 64 bits; but they do not keep it below
  \<open>cMaxNative\<close>: \<open>3000000000 * 4294967295\<close> passes both.
\<close>

theorem multiply_native_exact:
  assumes "canonical v1" "canonical v2" "mIsNative v1" "mIsNative v2" "\<not> mIsNegative v1" "\<not> mIsNegative v2"
    and "multiply_native v1 v2 = Inr z"
  shows "unat (mValue z) = unat (mValue v1) * unat (mValue v2)"
  using assms by (rule multiply_native_spec)

theorem multiply_native_exact_witness:
  "\<exists>z. multiply_native (mkNative 3000000000 False) (mkNative 4294967295 False) = Inr z \<and>
    unat (mValue z) = 3000000000 * 4294967295 \<and> mValue z > cMaxNative"
  using multiply_native_exact [of "mkNative 3000000000 False" "mkNative 4294967295 False" "mkNativeN 12884901885000000000 False"]
  by (simp add: canonical_def mkNative_def amount_consts multiply_native_def getSNValue_def mkNativeN_def)



text \<open>
  The same for \<open>divRound\<close> and the exact quotient.
\<close>

theorem divRound_directed:
  assumes "bignum_laws ops bn_val" "canonical num" "mValue num \<noteq> 0" "isLegalNet num"
    and "canonical den" "mValue den \<noteq> 0" "unat (mValue den) < 10 ^ 16" "cur \<noteq> 0"
    and "roundUp = (mIsNegative num \<noteq> mIsNegative den)"
  shows "toward_zero (divRound ops num den cur iss roundUp) (val num / val den)"
  using assms by (rule divRound_toward_zero)

theorem divRound_directed_witness:
  "toward_zero (divRound bn_nat (mkNative 7 False) (iou 2500000000000000 (-15) True) 5 6 True) (-14 / 5)"
  using divRound_directed [of bn_nat id "mkNative 7 False" "iou 2500000000000000 (-15) True" 5 True 6]
  by (simp add: bn_nat_laws iou_canonical in_range_def amount_consts isLegalNet_def)
    (simp add: canonical_def mkNative_def amount_consts val_def power_int_minus)

text \<open>
  Rounding up a product can round it down: \<open>canonicalizeRound\<close> drops all but the last of the
  surplus digits before it adds nine, so \<open>9000000000000005 * 9000000000000005\<close>, rounded up, is
  returned below the exact product.
\<close>

theorem mulRound_up_below:
  "let x = iou 9000000000000005 0 False in
   \<exists>z. mulRound bn_nat x x 5 6 True = Inr z \<and> val z < val x * val x"
  by (simp add: Let_def iou_def mulRound_def operand_def bn_muldiv_def bn_nat_def canonicalizeRound_def
      round_big_loop.simps mkAmount_in_range in_range_def amount_consts val_def)

text \<open>
  The promise of \<open>SerializedTypes.h\<close> for the directed sums (rounding up, \<open>X + d\<close> is never \<open>X\<close>;
  rounding down, \<open>X - d\<close> is never \<open>X\<close>) does not hold when \<open>d\<close> is far below \<open>X\<close>: both return \<open>X\<close>.
\<close>

theorem addRound_loses_operand:
  "let x = iou 1500000000000000 0 False; d = iou 1500000000000000 (-20) False in
   addRound x d True = Inr x \<and> subRound x d False = Inr x"
  by (simp add: Let_def iou_def addRound_def subRound_def throwComparable_def isComparable_def combine_round_def
      align_round_def align.simps signed_value_def s64_id signed_divide_int_def canonicalizeRound_def
      mkAmount_in_range in_range_def amount_consts)

text \<open>
  \<open>getPay\<close> for someone who needs at least all that is offered returns the amount needed, in the
  currency of the offer's output, and not the offer's input that its comment announces.
\<close>

theorem getPay_full:
  assumes "\<not> isZero offerOut" "amount_ge needed offerOut = Inr True"
  shows "getPay ops offerOut offerIn needed = Inr needed"
  using assms by (simp add: getPay_def)

theorem getPay_full_witness:
  "getPay bn_nat (mkNative 5 False) (iou 1500000000000000 0 False) (mkNative 9 False) = Inr (mkNative 9 False)"
  by (rule getPay_full) (simp_all add: mkNative_def amount_ge_def throwComparable_def isComparable_def compare_def)

end
