(* ===== verification/Ledger_Entry.thy ===== *)
theory Ledger_Entry
  imports Amount_Arith
begin

text \<open>
  Ledger entries: \<open>STObject\<close> and \<open>SerializedLedgerEntry\<close> (SLE) with the formats of
  \<open>LedgerFormats.cpp\<close>, the flags and name spaces of \<open>LedgerFormats.h\<close>, the result codes of
  \<open>TER.h\<close>, and the index functions of \<open>Ledger.cpp\<close> that say where an entry lives.

  An entry maps the fields that are present to their values. A required field of its format is
  always present, an optional one may be absent and then reads as its default, as in
  \<open>STObject::getFieldU32\<close> and the like. Reading a field that is not in the format at all throws in
  the source; every function modelled here reads only fields of the format its entry has.
  SHA-512/half, which turns the serialized name of an entry into its index, is the parameter \<open>h\<close>.
\<close>

subsection \<open>Fields and formats\<close>

text \<open>A field is identified by its type and a number within it (\<open>SField::fieldCode\<close>).\<close>

datatype SerializedTypeID =
    STI_UINT16 | STI_UINT32 | STI_UINT64 | STI_HASH128 | STI_HASH256 | STI_AMOUNT | STI_VL | STI_ACCOUNT
  | STI_OBJECT | STI_ARRAY | STI_UINT8 | STI_HASH160 | STI_PATHSET | STI_VECTOR256

datatype sfield = SField SerializedTypeID int

abbreviation "sfCloseResolution \<equiv> SField STI_UINT8 1"
abbreviation "sfTemplateEntryType \<equiv> SField STI_UINT8 2"
abbreviation "sfTransactionResult \<equiv> SField STI_UINT8 3"
abbreviation "sfLedgerEntryType \<equiv> SField STI_UINT16 1"
abbreviation "sfTransactionType \<equiv> SField STI_UINT16 2"
abbreviation "sfFlags \<equiv> SField STI_UINT32 2"
abbreviation "sfSourceTag \<equiv> SField STI_UINT32 3"
abbreviation "sfSequence \<equiv> SField STI_UINT32 4"
abbreviation "sfPreviousTxnLgrSeq \<equiv> SField STI_UINT32 5"
abbreviation "sfLedgerSequence \<equiv> SField STI_UINT32 6"
abbreviation "sfCloseTime \<equiv> SField STI_UINT32 7"
abbreviation "sfParentCloseTime \<equiv> SField STI_UINT32 8"
abbreviation "sfSigningTime \<equiv> SField STI_UINT32 9"
abbreviation "sfExpiration \<equiv> SField STI_UINT32 10"
abbreviation "sfTransferRate \<equiv> SField STI_UINT32 11"
abbreviation "sfWalletSize \<equiv> SField STI_UINT32 12"
abbreviation "sfOwnerCount \<equiv> SField STI_UINT32 13"
abbreviation "sfDestinationTag \<equiv> SField STI_UINT32 14"
abbreviation "sfHighQualityIn \<equiv> SField STI_UINT32 16"
abbreviation "sfHighQualityOut \<equiv> SField STI_UINT32 17"
abbreviation "sfLowQualityIn \<equiv> SField STI_UINT32 18"
abbreviation "sfLowQualityOut \<equiv> SField STI_UINT32 19"
abbreviation "sfQualityIn \<equiv> SField STI_UINT32 20"
abbreviation "sfQualityOut \<equiv> SField STI_UINT32 21"
abbreviation "sfStampEscrow \<equiv> SField STI_UINT32 22"
abbreviation "sfBondAmount \<equiv> SField STI_UINT32 23"
abbreviation "sfLoadFee \<equiv> SField STI_UINT32 24"
abbreviation "sfOfferSequence \<equiv> SField STI_UINT32 25"
abbreviation "sfInflateSeq \<equiv> SField STI_UINT32 26"
abbreviation "sfLastLedgerSequence \<equiv> SField STI_UINT32 27"
abbreviation "sfTransactionIndex \<equiv> SField STI_UINT32 28"
abbreviation "sfOperationLimit \<equiv> SField STI_UINT32 29"
abbreviation "sfReferenceFeeUnits \<equiv> SField STI_UINT32 30"
abbreviation "sfReserveBase \<equiv> SField STI_UINT32 31"
abbreviation "sfReserveIncrement \<equiv> SField STI_UINT32 32"
abbreviation "sfSetFlag \<equiv> SField STI_UINT32 33"
abbreviation "sfClearFlag \<equiv> SField STI_UINT32 34"
abbreviation "sfIndexNext \<equiv> SField STI_UINT64 1"
abbreviation "sfIndexPrevious \<equiv> SField STI_UINT64 2"
abbreviation "sfBookNode \<equiv> SField STI_UINT64 3"
abbreviation "sfOwnerNode \<equiv> SField STI_UINT64 4"
abbreviation "sfBaseFee \<equiv> SField STI_UINT64 5"
abbreviation "sfExchangeRate \<equiv> SField STI_UINT64 6"
abbreviation "sfLowNode \<equiv> SField STI_UINT64 7"
abbreviation "sfHighNode \<equiv> SField STI_UINT64 8"
abbreviation "sfEmailHash \<equiv> SField STI_HASH128 1"
abbreviation "sfLedgerHash \<equiv> SField STI_HASH256 1"
abbreviation "sfParentHash \<equiv> SField STI_HASH256 2"
abbreviation "sfTransactionHash \<equiv> SField STI_HASH256 3"
abbreviation "sfAccountHash \<equiv> SField STI_HASH256 4"
abbreviation "sfPreviousTxnID \<equiv> SField STI_HASH256 5"
abbreviation "sfLedgerIndex \<equiv> SField STI_HASH256 6"
abbreviation "sfWalletLocator \<equiv> SField STI_HASH256 7"
abbreviation "sfRootIndex \<equiv> SField STI_HASH256 8"
abbreviation "sfAccountTxnID \<equiv> SField STI_HASH256 9"
abbreviation "sfBookDirectory \<equiv> SField STI_HASH256 16"
abbreviation "sfInvoiceID \<equiv> SField STI_HASH256 17"
abbreviation "sfNickname \<equiv> SField STI_HASH256 18"
abbreviation "sfAmendment \<equiv> SField STI_HASH256 19"
abbreviation "sfTakerPaysCurrency \<equiv> SField STI_HASH160 1"
abbreviation "sfTakerPaysIssuer \<equiv> SField STI_HASH160 2"
abbreviation "sfTakerGetsCurrency \<equiv> SField STI_HASH160 3"
abbreviation "sfTakerGetsIssuer \<equiv> SField STI_HASH160 4"
abbreviation "sfAmount \<equiv> SField STI_AMOUNT 1"
abbreviation "sfBalance \<equiv> SField STI_AMOUNT 2"
abbreviation "sfLimitAmount \<equiv> SField STI_AMOUNT 3"
abbreviation "sfTakerPays \<equiv> SField STI_AMOUNT 4"
abbreviation "sfTakerGets \<equiv> SField STI_AMOUNT 5"
abbreviation "sfLowLimit \<equiv> SField STI_AMOUNT 6"
abbreviation "sfHighLimit \<equiv> SField STI_AMOUNT 7"
abbreviation "sfFee \<equiv> SField STI_AMOUNT 8"
abbreviation "sfSendMax \<equiv> SField STI_AMOUNT 9"
abbreviation "sfMinimumOffer \<equiv> SField STI_AMOUNT 16"
abbreviation "sfRippleEscrow \<equiv> SField STI_AMOUNT 17"
abbreviation "sfDeliveredAmount \<equiv> SField STI_AMOUNT 18"
abbreviation "sfPublicKey \<equiv> SField STI_VL 1"
abbreviation "sfMessageKey \<equiv> SField STI_VL 2"
abbreviation "sfSigningPubKey \<equiv> SField STI_VL 3"
abbreviation "sfTxnSignature \<equiv> SField STI_VL 4"
abbreviation "sfGenerator \<equiv> SField STI_VL 5"
abbreviation "sfSignature \<equiv> SField STI_VL 6"
abbreviation "sfDomain \<equiv> SField STI_VL 7"
abbreviation "sfFundCode \<equiv> SField STI_VL 8"
abbreviation "sfRemoveCode \<equiv> SField STI_VL 9"
abbreviation "sfExpireCode \<equiv> SField STI_VL 10"
abbreviation "sfCreateCode \<equiv> SField STI_VL 11"
abbreviation "sfMemoType \<equiv> SField STI_VL 12"
abbreviation "sfMemoData \<equiv> SField STI_VL 13"
abbreviation "sfAccount \<equiv> SField STI_ACCOUNT 1"
abbreviation "sfOwner \<equiv> SField STI_ACCOUNT 2"
abbreviation "sfDestination \<equiv> SField STI_ACCOUNT 3"
abbreviation "sfIssuer \<equiv> SField STI_ACCOUNT 4"
abbreviation "sfTarget \<equiv> SField STI_ACCOUNT 7"
abbreviation "sfRegularKey \<equiv> SField STI_ACCOUNT 8"
abbreviation "sfInflationDest \<equiv> SField STI_ACCOUNT 9"
abbreviation "sfSetAuthKey \<equiv> SField STI_ACCOUNT 10"
abbreviation "sfPaths \<equiv> SField STI_PATHSET 1"
abbreviation "sfIndexes \<equiv> SField STI_VECTOR256 1"
abbreviation "sfHashes \<equiv> SField STI_VECTOR256 2"
abbreviation "sfAmendments \<equiv> SField STI_VECTOR256 3"
abbreviation "sfTransactionMetaData \<equiv> SField STI_OBJECT 2"
abbreviation "sfCreatedNode \<equiv> SField STI_OBJECT 3"
abbreviation "sfDeletedNode \<equiv> SField STI_OBJECT 4"
abbreviation "sfModifiedNode \<equiv> SField STI_OBJECT 5"
abbreviation "sfPreviousFields \<equiv> SField STI_OBJECT 6"
abbreviation "sfFinalFields \<equiv> SField STI_OBJECT 7"
abbreviation "sfNewFields \<equiv> SField STI_OBJECT 8"
abbreviation "sfTemplateEntry \<equiv> SField STI_OBJECT 9"
abbreviation "sfMemo \<equiv> SField STI_OBJECT 10"
abbreviation "sfSigningAccounts \<equiv> SField STI_ARRAY 2"
abbreviation "sfTxnSignatures \<equiv> SField STI_ARRAY 3"
abbreviation "sfSignatures \<equiv> SField STI_ARRAY 4"
abbreviation "sfTemplate \<equiv> SField STI_ARRAY 5"
abbreviation "sfNecessary \<equiv> SField STI_ARRAY 6"
abbreviation "sfSufficient \<equiv> SField STI_ARRAY 7"
abbreviation "sfAffectedNodes \<equiv> SField STI_ARRAY 8"
abbreviation "sfMemos \<equiv> SField STI_ARRAY 9"

text \<open>
  The steps of a payment path (\<open>STPathElement\<close>) and the values of fields, by type. An account is
  kept as the bytes it was read with, which need not be the twenty of an account identifier; inner
  objects and the named objects of an array are the list of their fields.
\<close>

record STPathElement =
  peType :: u32
  peAccountID :: uint160
  peCurrencyID :: uint160
  peIssuerID :: uint160

datatype st_value =
    VU8 u8 | VU16 u16 | VU32 u32 | VU64 u64 | VH128 "128 word" | VH160 uint160 | VH256 uint256 | VAmount STAmount
  | VBlob Blob | VAccount Blob | VPathSet "STPathElement list list" | VV256 "uint256 list"
  | VObject "(sfield \<times> st_value) list" | VArray "(sfield \<times> (sfield \<times> st_value) list) list"

datatype LedgerEntryType =
    ltINVALID | ltACCOUNT_ROOT | ltCONTRACT | ltDIR_NODE | ltGENERATOR_MAP | ltNICKNAME
    | ltOFFER | ltRIPPLE_STATE | ltLEDGER_HASHES | ltAMENDMENTS | ltFEE_SETTINGS

datatype SOE_Flags = SOE_REQUIRED | SOE_OPTIONAL | SOE_DEFAULT

text \<open>The formats, without the common fields; \<open>sfLedgerEntryType\<close> is the component \<open>mType\<close> of the entry.\<close>

fun format :: "LedgerEntryType \<Rightarrow> (sfield \<times> SOE_Flags) list" where
  "format ltACCOUNT_ROOT = [
     (sfAccount, SOE_REQUIRED), (sfSequence, SOE_REQUIRED), (sfBalance, SOE_REQUIRED),
     (sfOwnerCount, SOE_REQUIRED), (sfPreviousTxnID, SOE_REQUIRED),
     (sfPreviousTxnLgrSeq, SOE_REQUIRED), (sfAccountTxnID, SOE_OPTIONAL),
     (sfRegularKey, SOE_OPTIONAL), (sfTransferRate, SOE_OPTIONAL), (sfDomain, SOE_OPTIONAL),
     (sfInflationDest, SOE_OPTIONAL), (sfSetAuthKey, SOE_OPTIONAL)]"
| "format ltCONTRACT = [
     (sfAccount, SOE_REQUIRED), (sfBalance, SOE_REQUIRED), (sfPreviousTxnID, SOE_REQUIRED),
     (sfPreviousTxnLgrSeq, SOE_REQUIRED), (sfIssuer, SOE_REQUIRED), (sfOwner, SOE_REQUIRED),
     (sfExpiration, SOE_REQUIRED), (sfBondAmount, SOE_REQUIRED), (sfCreateCode, SOE_OPTIONAL),
     (sfFundCode, SOE_OPTIONAL), (sfRemoveCode, SOE_OPTIONAL), (sfExpireCode, SOE_OPTIONAL)]"
| "format ltDIR_NODE = [
     (sfOwner, SOE_OPTIONAL), (sfTakerPaysCurrency, SOE_OPTIONAL),
     (sfTakerPaysIssuer, SOE_OPTIONAL), (sfTakerGetsCurrency, SOE_OPTIONAL),
     (sfTakerGetsIssuer, SOE_OPTIONAL), (sfExchangeRate, SOE_OPTIONAL),
     (sfIndexes, SOE_REQUIRED), (sfRootIndex, SOE_REQUIRED), (sfIndexNext, SOE_OPTIONAL),
     (sfIndexPrevious, SOE_OPTIONAL)]"
| "format ltGENERATOR_MAP = [
     (sfGenerator, SOE_REQUIRED)]"
| "format ltNICKNAME = [
     (sfAccount, SOE_REQUIRED), (sfMinimumOffer, SOE_OPTIONAL)]"
| "format ltOFFER = [
     (sfAccount, SOE_REQUIRED), (sfSequence, SOE_REQUIRED), (sfTakerPays, SOE_REQUIRED),
     (sfTakerGets, SOE_REQUIRED), (sfBookDirectory, SOE_REQUIRED), (sfBookNode, SOE_REQUIRED),
     (sfOwnerNode, SOE_REQUIRED), (sfPreviousTxnID, SOE_REQUIRED),
     (sfPreviousTxnLgrSeq, SOE_REQUIRED), (sfExpiration, SOE_OPTIONAL)]"
| "format ltRIPPLE_STATE = [
     (sfBalance, SOE_REQUIRED), (sfLowLimit, SOE_REQUIRED), (sfHighLimit, SOE_REQUIRED),
     (sfPreviousTxnID, SOE_REQUIRED), (sfPreviousTxnLgrSeq, SOE_REQUIRED),
     (sfLowNode, SOE_OPTIONAL), (sfLowQualityIn, SOE_OPTIONAL),
     (sfLowQualityOut, SOE_OPTIONAL), (sfHighNode, SOE_OPTIONAL),
     (sfHighQualityIn, SOE_OPTIONAL), (sfHighQualityOut, SOE_OPTIONAL)]"
| "format ltLEDGER_HASHES = [
     (sfLastLedgerSequence, SOE_OPTIONAL), (sfHashes, SOE_REQUIRED)]"
| "format ltAMENDMENTS = [
     (sfAmendments, SOE_REQUIRED)]"
| "format ltFEE_SETTINGS = [
     (sfBaseFee, SOE_REQUIRED), (sfReferenceFeeUnits, SOE_REQUIRED),
     (sfReserveBase, SOE_REQUIRED), (sfReserveIncrement, SOE_REQUIRED)]"
| "format ltINVALID = []"

definition elements :: "LedgerEntryType \<Rightarrow> (sfield \<times> SOE_Flags) list" where
  "elements lt = [(sfLedgerIndex, SOE_OPTIONAL), (sfLedgerEntryType, SOE_REQUIRED), (sfFlags, SOE_REQUIRED)] @ format lt"

fun lt_code :: "LedgerEntryType \<Rightarrow> u16" where
  "lt_code ltINVALID = 0xffff"
| "lt_code ltACCOUNT_ROOT = 0x61"
| "lt_code ltCONTRACT = 0x63"
| "lt_code ltDIR_NODE = 0x64"
| "lt_code ltGENERATOR_MAP = 0x67"
| "lt_code ltNICKNAME = 0x6e"
| "lt_code ltOFFER = 0x6f"
| "lt_code ltRIPPLE_STATE = 0x72"
| "lt_code ltLEDGER_HASHES = 0x68"
| "lt_code ltAMENDMENTS = 0x66"
| "lt_code ltFEE_SETTINGS = 0x73"

text \<open>The default value of a field, by the type it is declared with.\<close>

fun sf_default :: "sfield \<Rightarrow> st_value" where
  "sf_default (SField STI_UINT8 _) = VU8 0"
| "sf_default (SField STI_UINT16 _) = VU16 0"
| "sf_default (SField STI_UINT32 _) = VU32 0"
| "sf_default (SField STI_UINT64 _) = VU64 0"
| "sf_default (SField STI_AMOUNT _) = VAmount (mkNative 0 False)"
| "sf_default (SField STI_HASH128 _) = VH128 0"
| "sf_default (SField STI_HASH160 _) = VH160 0"
| "sf_default (SField STI_HASH256 _) = VH256 0"
| "sf_default (SField STI_VECTOR256 _) = VV256 []"
| "sf_default (SField STI_VL _) = VBlob []"
| "sf_default (SField STI_ACCOUNT _) = VAccount []"
| "sf_default (SField STI_PATHSET _) = VPathSet []"
| "sf_default (SField STI_OBJECT _) = VObject []"
| "sf_default (SField STI_ARRAY _) = VArray []"

text \<open>The fields of an \<open>STObject\<close>; ledger entries and transactions are records that extend it.\<close>

record STObject =
  mFields :: "sfield \<Rightarrow> st_value option"

record SLE = STObject +
  mType :: LedgerEntryType
  mIndex :: uint256

text \<open>\<open>SerializedLedgerEntry (type, index)\<close>: the required fields with their defaults.\<close>

definition mkSLE :: "LedgerEntryType \<Rightarrow> uint256 \<Rightarrow> SLE" where
  "mkSLE lt index =
     \<lparr>mFields = (\<lambda>f. if f = sfLedgerEntryType then Some (VU16 (lt_code lt))
                   else if (f, SOE_REQUIRED) \<in> set (elements lt) then Some (sf_default f) else None),
       mType = lt, mIndex = index\<rparr>"

definition isFieldPresent :: "'a STObject_scheme \<Rightarrow> sfield \<Rightarrow> bool" where
  "isFieldPresent sle f \<longleftrightarrow> mFields sle f \<noteq> None"

definition makeFieldAbsent :: "sfield \<Rightarrow> 'a STObject_scheme \<Rightarrow> 'a STObject_scheme" where
  "makeFieldAbsent f sle = sle\<lparr>mFields := (mFields sle)(f := None)\<rparr>"

definition getFieldU32 :: "'a STObject_scheme \<Rightarrow> sfield \<Rightarrow> u32" where
  "getFieldU32 sle f = (case mFields sle f of Some (VU32 v) \<Rightarrow> v | _ \<Rightarrow> 0)"

definition getFieldU64 :: "'a STObject_scheme \<Rightarrow> sfield \<Rightarrow> u64" where
  "getFieldU64 sle f = (case mFields sle f of Some (VU64 v) \<Rightarrow> v | _ \<Rightarrow> 0)"

definition getFieldH160 :: "'a STObject_scheme \<Rightarrow> sfield \<Rightarrow> uint160" where
  "getFieldH160 sle f = (case mFields sle f of Some (VH160 v) \<Rightarrow> v | _ \<Rightarrow> 0)"

definition getFieldH256 :: "'a STObject_scheme \<Rightarrow> sfield \<Rightarrow> uint256" where
  "getFieldH256 sle f = (case mFields sle f of Some (VH256 v) \<Rightarrow> v | _ \<Rightarrow> 0)"

definition getFieldAmount :: "'a STObject_scheme \<Rightarrow> sfield \<Rightarrow> STAmount" where
  "getFieldAmount sle f = (case mFields sle f of Some (VAmount v) \<Rightarrow> v | _ \<Rightarrow> mkNative 0 False)"

definition getFieldVL :: "'a STObject_scheme \<Rightarrow> sfield \<Rightarrow> Blob" where
  "getFieldVL sle f = (case mFields sle f of Some (VBlob v) \<Rightarrow> v | _ \<Rightarrow> [])"

text \<open>
  \<open>getFieldAccount\<close> returns a \<open>RippleAddress\<close>, which is unset (\<open>None\<close>) when the value is not an
  account identifier; \<open>getFieldAccount160\<close> then returns zero.
\<close>

definition getFieldAccount :: "'a STObject_scheme \<Rightarrow> sfield \<Rightarrow> uint160 option" where
  "getFieldAccount sle f = (case mFields sle f of Some (VAccount v) \<Rightarrow> if length v = 20 then Some (be_word v) else None | _ \<Rightarrow> None)"

definition getFieldAccount160 :: "'a STObject_scheme \<Rightarrow> sfield \<Rightarrow> uint160" where
  "getFieldAccount160 sle f = (case mFields sle f of Some (VAccount v) \<Rightarrow> if length v = 20 then be_word v else 0 | _ \<Rightarrow> 0)"

definition getFieldV256 :: "'a STObject_scheme \<Rightarrow> sfield \<Rightarrow> uint256 list" where
  "getFieldV256 sle f = (case mFields sle f of Some (VV256 v) \<Rightarrow> v | _ \<Rightarrow> [])"

definition setFieldU32 :: "sfield \<Rightarrow> u32 \<Rightarrow> 'a STObject_scheme \<Rightarrow> 'a STObject_scheme" where
  "setFieldU32 f v sle = sle\<lparr>mFields := (mFields sle)(f \<mapsto> VU32 v)\<rparr>"

definition setFieldU64 :: "sfield \<Rightarrow> u64 \<Rightarrow> 'a STObject_scheme \<Rightarrow> 'a STObject_scheme" where
  "setFieldU64 f v sle = sle\<lparr>mFields := (mFields sle)(f \<mapsto> VU64 v)\<rparr>"

definition setFieldH160 :: "sfield \<Rightarrow> uint160 \<Rightarrow> 'a STObject_scheme \<Rightarrow> 'a STObject_scheme" where
  "setFieldH160 f v sle = sle\<lparr>mFields := (mFields sle)(f \<mapsto> VH160 v)\<rparr>"

definition setFieldH256 :: "sfield \<Rightarrow> uint256 \<Rightarrow> 'a STObject_scheme \<Rightarrow> 'a STObject_scheme" where
  "setFieldH256 f v sle = sle\<lparr>mFields := (mFields sle)(f \<mapsto> VH256 v)\<rparr>"

definition setFieldAmount :: "sfield \<Rightarrow> STAmount \<Rightarrow> 'a STObject_scheme \<Rightarrow> 'a STObject_scheme" where
  "setFieldAmount f v sle = sle\<lparr>mFields := (mFields sle)(f \<mapsto> VAmount v)\<rparr>"

definition setFieldVL :: "sfield \<Rightarrow> Blob \<Rightarrow> 'a STObject_scheme \<Rightarrow> 'a STObject_scheme" where
  "setFieldVL f v sle = sle\<lparr>mFields := (mFields sle)(f \<mapsto> VBlob v)\<rparr>"

definition setFieldAccount :: "sfield \<Rightarrow> uint160 \<Rightarrow> 'a STObject_scheme \<Rightarrow> 'a STObject_scheme" where
  "setFieldAccount f v sle = sle\<lparr>mFields := (mFields sle)(f \<mapsto> VAccount (be_bytes 20 v))\<rparr>"

definition setFieldV256 :: "sfield \<Rightarrow> uint256 list \<Rightarrow> 'a STObject_scheme \<Rightarrow> 'a STObject_scheme" where
  "setFieldV256 f v sle = sle\<lparr>mFields := (mFields sle)(f \<mapsto> VV256 v)\<rparr>"

definition getFieldPathSet :: "'a STObject_scheme \<Rightarrow> sfield \<Rightarrow> STPathElement list list" where
  "getFieldPathSet sle f = (case mFields sle f of Some (VPathSet v) \<Rightarrow> v | _ \<Rightarrow> [])"

definition getFlags :: "'a STObject_scheme \<Rightarrow> u32" where
  "getFlags sle = getFieldU32 sle sfFlags"

definition is_bit_set :: "u32 \<Rightarrow> u32 \<Rightarrow> bool" where
  "is_bit_set x y \<longleftrightarrow> x AND y \<noteq> 0"

text \<open>\<open>STObject::isFlag\<close>: all the bits of the flag are set.\<close>

definition isFlag :: "'a STObject_scheme \<Rightarrow> u32 \<Rightarrow> bool" where
  "isFlag sle f \<longleftrightarrow> getFlags sle AND f = f"

named_theorems flag_consts \<open>ledger flags and parameters\<close>

definition lsfPasswordSpent :: u32 where [flag_consts]: "lsfPasswordSpent = 0x00010000"
definition lsfRequireDestTag :: u32 where [flag_consts]: "lsfRequireDestTag = 0x00020000"
definition lsfRequireAuth :: u32 where [flag_consts]: "lsfRequireAuth = 0x00040000"
definition lsfDisallowSTR :: u32 where [flag_consts]: "lsfDisallowSTR = 0x00080000"
definition lsfDisableMaster :: u32 where [flag_consts]: "lsfDisableMaster = 0x00100000"
definition lsfPassive :: u32 where [flag_consts]: "lsfPassive = 0x00010000"
definition lsfSell :: u32 where [flag_consts]: "lsfSell = 0x00020000"
definition lsfLowReserve :: u32 where [flag_consts]: "lsfLowReserve = 0x00010000"
definition lsfHighReserve :: u32 where [flag_consts]: "lsfHighReserve = 0x00020000"
definition lsfLowAuth :: u32 where [flag_consts]: "lsfLowAuth = 0x00040000"
definition lsfHighAuth :: u32 where [flag_consts]: "lsfHighAuth = 0x00080000"
definition lsfLowNoRipple :: u32 where [flag_consts]: "lsfLowNoRipple = 0x00100000"
definition lsfHighNoRipple :: u32 where [flag_consts]: "lsfHighNoRipple = 0x00200000"

text \<open>\<open>TransactionEngineParams\<close>.\<close>

definition tapNO_CHECK_SIGN :: u32 where [flag_consts]: "tapNO_CHECK_SIGN = 0x01"
definition tapOPEN_LEDGER :: u32 where [flag_consts]: "tapOPEN_LEDGER = 0x10"
definition tapRETRY :: u32 where [flag_consts]: "tapRETRY = 0x20"
definition tapADMIN :: u32 where [flag_consts]: "tapADMIN = 0x400"

text \<open>The parity of transfer rates and qualities.\<close>

definition QUALITY_ONE :: u32 where [flag_consts]: "QUALITY_ONE = 1000000000"

subsection \<open>Result codes\<close>

text \<open>\<open>enum TER\<close> with the numbers the compiler gives the codes; the class of a code is its range.\<close>

type_synonym TER = int

named_theorems ter_codes \<open>numeric transaction results\<close>

definition telLOCAL_ERROR :: TER where [ter_codes]: "telLOCAL_ERROR = -399"
definition telBAD_DOMAIN :: TER where [ter_codes]: "telBAD_DOMAIN = -398"
definition telBAD_PATH_COUNT :: TER where [ter_codes]: "telBAD_PATH_COUNT = -397"
definition telFAILED_PROCESSING :: TER where [ter_codes]: "telFAILED_PROCESSING = -395"
definition telINSUF_FEE_P :: TER where [ter_codes]: "telINSUF_FEE_P = -394"
definition telNO_DST_PARTIAL :: TER where [ter_codes]: "telNO_DST_PARTIAL = -393"
definition telNOT_TIME :: TER where [ter_codes]: "telNOT_TIME = -392"
definition temMALFORMED :: TER where [ter_codes]: "temMALFORMED = -299"
definition temBAD_AMOUNT :: TER where [ter_codes]: "temBAD_AMOUNT = -298"
definition temBAD_AUTH_MASTER :: TER where [ter_codes]: "temBAD_AUTH_MASTER = -297"
definition temBAD_CURRENCY :: TER where [ter_codes]: "temBAD_CURRENCY = -296"
definition temBAD_FEE :: TER where [ter_codes]: "temBAD_FEE = -295"
definition temBAD_EXPIRATION :: TER where [ter_codes]: "temBAD_EXPIRATION = -294"
definition temBAD_ISSUER :: TER where [ter_codes]: "temBAD_ISSUER = -293"
definition temBAD_LIMIT :: TER where [ter_codes]: "temBAD_LIMIT = -292"
definition temBAD_OFFER :: TER where [ter_codes]: "temBAD_OFFER = -291"
definition temBAD_TRANSFER_RATE :: TER where [ter_codes]: "temBAD_TRANSFER_RATE = -287"
definition temBAD_SEND_STR_LIMIT :: TER where [ter_codes]: "temBAD_SEND_STR_LIMIT = -286"
definition temBAD_SEND_STR_MAX :: TER where [ter_codes]: "temBAD_SEND_STR_MAX = -285"
definition temBAD_SEND_STR_NO_DIRECT :: TER where [ter_codes]: "temBAD_SEND_STR_NO_DIRECT = -284"
definition temBAD_SEND_STR_PARTIAL :: TER where [ter_codes]: "temBAD_SEND_STR_PARTIAL = -283"
definition temBAD_SEND_STR_PATHS :: TER where [ter_codes]: "temBAD_SEND_STR_PATHS = -282"
definition temBAD_SIGNATURE :: TER where [ter_codes]: "temBAD_SIGNATURE = -281"
definition temBAD_SRC_ACCOUNT :: TER where [ter_codes]: "temBAD_SRC_ACCOUNT = -280"
definition temBAD_SEQUENCE :: TER where [ter_codes]: "temBAD_SEQUENCE = -279"
definition temDST_IS_SRC :: TER where [ter_codes]: "temDST_IS_SRC = -278"
definition temDST_NEEDED :: TER where [ter_codes]: "temDST_NEEDED = -277"
definition temINVALID :: TER where [ter_codes]: "temINVALID = -276"
definition temINVALID_FLAG :: TER where [ter_codes]: "temINVALID_FLAG = -275"
definition temREDUNDANT :: TER where [ter_codes]: "temREDUNDANT = -274"
definition temREDUNDANT_SEND_MAX :: TER where [ter_codes]: "temREDUNDANT_SEND_MAX = -273"
definition temUNKNOWN :: TER where [ter_codes]: "temUNKNOWN = -270"
definition tefFAILURE :: TER where [ter_codes]: "tefFAILURE = -199"
definition tefALREADY :: TER where [ter_codes]: "tefALREADY = -198"
definition tefBAD_AUTH :: TER where [ter_codes]: "tefBAD_AUTH = -196"
definition tefBAD_LEDGER :: TER where [ter_codes]: "tefBAD_LEDGER = -193"
definition tefCREATED :: TER where [ter_codes]: "tefCREATED = -191"
definition tefDST_TAG_NEEDED :: TER where [ter_codes]: "tefDST_TAG_NEEDED = -190"
definition tefEXCEPTION :: TER where [ter_codes]: "tefEXCEPTION = -189"
definition tefINTERNAL :: TER where [ter_codes]: "tefINTERNAL = -187"
definition tefNO_AUTH_REQUIRED :: TER where [ter_codes]: "tefNO_AUTH_REQUIRED = -186"
definition tefPAST_SEQ :: TER where [ter_codes]: "tefPAST_SEQ = -185"
definition tefWRONG_PRIOR :: TER where [ter_codes]: "tefWRONG_PRIOR = -184"
definition tefMASTER_DISABLED :: TER where [ter_codes]: "tefMASTER_DISABLED = -183"
definition tefMAX_LEDGER :: TER where [ter_codes]: "tefMAX_LEDGER = -182"
definition terRETRY :: TER where [ter_codes]: "terRETRY = -99"
definition terINSUF_FEE_B :: TER where [ter_codes]: "terINSUF_FEE_B = -97"
definition terNO_ACCOUNT :: TER where [ter_codes]: "terNO_ACCOUNT = -96"
definition terNO_AUTH :: TER where [ter_codes]: "terNO_AUTH = -95"
definition terNO_LINE :: TER where [ter_codes]: "terNO_LINE = -94"
definition terOWNERS :: TER where [ter_codes]: "terOWNERS = -93"
definition terPRE_SEQ :: TER where [ter_codes]: "terPRE_SEQ = -92"
definition terNO_RIPPLE :: TER where [ter_codes]: "terNO_RIPPLE = -90"
definition tesSUCCESS :: TER where [ter_codes]: "tesSUCCESS = 0"
definition tecCLAIM :: TER where [ter_codes]: "tecCLAIM = 100"
definition tecPATH_PARTIAL :: TER where [ter_codes]: "tecPATH_PARTIAL = 101"
definition tecUNFUNDED_OFFER :: TER where [ter_codes]: "tecUNFUNDED_OFFER = 103"
definition tecUNFUNDED_PAYMENT :: TER where [ter_codes]: "tecUNFUNDED_PAYMENT = 104"
definition tecFAILED_PROCESSING :: TER where [ter_codes]: "tecFAILED_PROCESSING = 105"
definition tecDIR_FULL :: TER where [ter_codes]: "tecDIR_FULL = 121"
definition tecINSUF_RESERVE_LINE :: TER where [ter_codes]: "tecINSUF_RESERVE_LINE = 122"
definition tecINSUF_RESERVE_OFFER :: TER where [ter_codes]: "tecINSUF_RESERVE_OFFER = 123"
definition tecNO_DST :: TER where [ter_codes]: "tecNO_DST = 124"
definition tecNO_DST_INSUF_STR :: TER where [ter_codes]: "tecNO_DST_INSUF_STR = 125"
definition tecNO_LINE_INSUF_RESERVE :: TER where [ter_codes]: "tecNO_LINE_INSUF_RESERVE = 126"
definition tecNO_LINE_REDUNDANT :: TER where [ter_codes]: "tecNO_LINE_REDUNDANT = 127"
definition tecPATH_DRY :: TER where [ter_codes]: "tecPATH_DRY = 128"
definition tecUNFUNDED :: TER where [ter_codes]: "tecUNFUNDED = 129"
definition tecMASTER_DISABLED :: TER where [ter_codes]: "tecMASTER_DISABLED = 130"
definition tecNO_REGULAR_KEY :: TER where [ter_codes]: "tecNO_REGULAR_KEY = 131"
definition tecOWNERS :: TER where [ter_codes]: "tecOWNERS = 132"
definition tecNO_ISSUER :: TER where [ter_codes]: "tecNO_ISSUER = 133"
definition tecNO_AUTH :: TER where [ter_codes]: "tecNO_AUTH = 134"
definition tecNO_LINE :: TER where [ter_codes]: "tecNO_LINE = 135"

definition isTelLocal :: "TER \<Rightarrow> bool" where "isTelLocal x \<longleftrightarrow> x \<ge> telLOCAL_ERROR \<and> x < temMALFORMED"
definition isTemMalformed :: "TER \<Rightarrow> bool" where "isTemMalformed x \<longleftrightarrow> x \<ge> temMALFORMED \<and> x < tefFAILURE"
definition isTefFailure :: "TER \<Rightarrow> bool" where "isTefFailure x \<longleftrightarrow> x \<ge> tefFAILURE \<and> x < terRETRY"
definition isTerRetry :: "TER \<Rightarrow> bool" where "isTerRetry x \<longleftrightarrow> x \<ge> terRETRY \<and> x < tesSUCCESS"
definition isTesSuccess :: "TER \<Rightarrow> bool" where "isTesSuccess x \<longleftrightarrow> x = tesSUCCESS"
definition isTecClaim :: "TER \<Rightarrow> bool" where "isTecClaim x \<longleftrightarrow> x \<ge> tecCLAIM"

subsection \<open>Indexes\<close>

text \<open>
  The name space letters of \<open>LedgerNameSpace\<close>, and the index functions: each serializes a name and
  hashes it with \<open>h\<close> (\<open>Serializer::getSHA512Half\<close>).
\<close>

definition space :: "char \<Rightarrow> u16" where
  "space c = of_nat (of_char c)"

definition serialize :: "(Serializer \<Rightarrow> Serializer) list \<Rightarrow> Blob" where
  "serialize ws = mData (fold (\<lambda>w s. w s) ws \<lparr>mData = []\<rparr>)"

definition getAccountRootIndex :: "(Blob \<Rightarrow> uint256) \<Rightarrow> uint160 \<Rightarrow> uint256" where
  "getAccountRootIndex h uAccountID =
     h (serialize [snd \<circ> add16 (space CHR ''a''), snd \<circ> add160 uAccountID])"

definition getLedgerFeeIndex :: "(Blob \<Rightarrow> uint256) \<Rightarrow> uint256" where
  "getLedgerFeeIndex h = h (serialize [snd \<circ> add16 (space CHR ''e'')])"

definition getLedgerAmendmentIndex :: "(Blob \<Rightarrow> uint256) \<Rightarrow> uint256" where
  "getLedgerAmendmentIndex h = h (serialize [snd \<circ> add16 (space CHR ''f'')])"

definition getLedgerHashIndex :: "(Blob \<Rightarrow> uint256) \<Rightarrow> uint256" where
  "getLedgerHashIndex h = h (serialize [snd \<circ> add16 (space CHR ''s'')])"

definition getLedgerHashIndexAt :: "(Blob \<Rightarrow> uint256) \<Rightarrow> u32 \<Rightarrow> uint256" where
  "getLedgerHashIndexAt h desiredLedgerIndex =
     h (serialize [snd \<circ> add16 (space CHR ''s''), snd \<circ> add32 (drop_bit 16 desiredLedgerIndex)])"

text \<open>The last eight bytes of an index hold a quality.\<close>

definition getQualityIndex :: "uint256 \<Rightarrow> u64 \<Rightarrow> uint256" where
  "getQualityIndex uBase uNodeDir = (uBase AND NOT (mask 64)) OR ucast uNodeDir"

definition getQuality :: "uint256 \<Rightarrow> u64" where
  "getQuality uBase = ucast uBase"

definition getQualityNext :: "uint256 \<Rightarrow> uint256" where
  "getQualityNext uBase = uBase + 0x10000000000000000"

definition getBookBase :: "(Blob \<Rightarrow> uint256) \<Rightarrow> uint160 \<Rightarrow> uint160 \<Rightarrow> uint160 \<Rightarrow> uint160 \<Rightarrow> uint256" where
  "getBookBase h uTakerPaysCurrency uTakerPaysIssuerID uTakerGetsCurrency uTakerGetsIssuerID =
     getQualityIndex (h (serialize [snd \<circ> add16 (space CHR ''B''), snd \<circ> add160 uTakerPaysCurrency,
       snd \<circ> add160 uTakerGetsCurrency, snd \<circ> add160 uTakerPaysIssuerID, snd \<circ> add160 uTakerGetsIssuerID])) 0"

definition isValidBook :: "uint160 \<Rightarrow> uint160 \<Rightarrow> uint160 \<Rightarrow> uint160 \<Rightarrow> bool" where
  "isValidBook uTakerPaysCurrency uTakerPaysIssuerID uTakerGetsCurrency uTakerGetsIssuerID =
     (if uTakerPaysCurrency = 0 then
        if uTakerPaysIssuerID \<noteq> 0 then False
        else if uTakerGetsCurrency = 0 then False
        else if uTakerGetsIssuerID = 0 then False
        else True
      else if uTakerPaysIssuerID = 0 then False
      else if uTakerGetsCurrency = 0 then
        if uTakerGetsIssuerID \<noteq> 0 then False else True
      else if uTakerPaysCurrency = uTakerGetsCurrency \<and> uTakerGetsIssuerID = uTakerPaysIssuerID then False
      else True)"

definition getDirNodeIndex :: "(Blob \<Rightarrow> uint256) \<Rightarrow> uint256 \<Rightarrow> u64 \<Rightarrow> uint256" where
  "getDirNodeIndex h uDirRoot uNodeIndex =
     (if uNodeIndex \<noteq> 0 then
        h (serialize [snd \<circ> add16 (space CHR ''d''), snd \<circ> add256 uDirRoot, snd \<circ> add64 uNodeIndex])
      else uDirRoot)"

definition getOfferIndex :: "(Blob \<Rightarrow> uint256) \<Rightarrow> uint160 \<Rightarrow> u32 \<Rightarrow> uint256" where
  "getOfferIndex h uAccountID uSequence =
     h (serialize [snd \<circ> add16 (space CHR ''o''), snd \<circ> add160 uAccountID, snd \<circ> add32 uSequence])"

definition getOwnerDirIndex :: "(Blob \<Rightarrow> uint256) \<Rightarrow> uint160 \<Rightarrow> uint256" where
  "getOwnerDirIndex h uAccountID =
     h (serialize [snd \<circ> add16 (space CHR ''O''), snd \<circ> add160 uAccountID])"

definition getRippleStateIndex :: "(Blob \<Rightarrow> uint256) \<Rightarrow> uint160 \<Rightarrow> uint160 \<Rightarrow> uint160 \<Rightarrow> uint256" where
  "getRippleStateIndex h uAID uBID uCurrency =
     (let bAltB = uAID < uBID in
      h (serialize [snd \<circ> add16 (space CHR ''r''), snd \<circ> add160 (if bAltB then uAID else uBID),
        snd \<circ> add160 (if bAltB then uBID else uAID), snd \<circ> add160 uCurrency]))"

subsection \<open>Reading what was written\<close>

named_theorems sle_simps \<open>fields of an entry after a change\<close>

lemma getFieldU32_set [simp, sle_simps]:
  "getFieldU32 (setFieldU32 f v1 sle) g = (if g = f then v1 else getFieldU32 sle g)"
  "getFieldU32 (setFieldU64 f v2 sle) g = (if g = f then 0 else getFieldU32 sle g)"
  "getFieldU32 (setFieldH160 f v3 sle) g = (if g = f then 0 else getFieldU32 sle g)"
  "getFieldU32 (setFieldH256 f v4 sle) g = (if g = f then 0 else getFieldU32 sle g)"
  "getFieldU32 (setFieldAmount f v5 sle) g = (if g = f then 0 else getFieldU32 sle g)"
  "getFieldU32 (setFieldVL f v6 sle) g = (if g = f then 0 else getFieldU32 sle g)"
  "getFieldU32 (setFieldAccount f v7 sle) g = (if g = f then 0 else getFieldU32 sle g)"
  "getFieldU32 (setFieldV256 f v8 sle) g = (if g = f then 0 else getFieldU32 sle g)"
  by (simp_all add: getFieldU32_def setFieldU32_def setFieldU64_def setFieldH160_def setFieldH256_def setFieldAmount_def setFieldVL_def setFieldAccount_def setFieldV256_def)

lemma getFieldU64_set [simp, sle_simps]:
  "getFieldU64 (setFieldU32 f v1 sle) g = (if g = f then 0 else getFieldU64 sle g)"
  "getFieldU64 (setFieldU64 f v2 sle) g = (if g = f then v2 else getFieldU64 sle g)"
  "getFieldU64 (setFieldH160 f v3 sle) g = (if g = f then 0 else getFieldU64 sle g)"
  "getFieldU64 (setFieldH256 f v4 sle) g = (if g = f then 0 else getFieldU64 sle g)"
  "getFieldU64 (setFieldAmount f v5 sle) g = (if g = f then 0 else getFieldU64 sle g)"
  "getFieldU64 (setFieldVL f v6 sle) g = (if g = f then 0 else getFieldU64 sle g)"
  "getFieldU64 (setFieldAccount f v7 sle) g = (if g = f then 0 else getFieldU64 sle g)"
  "getFieldU64 (setFieldV256 f v8 sle) g = (if g = f then 0 else getFieldU64 sle g)"
  by (simp_all add: getFieldU64_def setFieldU32_def setFieldU64_def setFieldH160_def setFieldH256_def setFieldAmount_def setFieldVL_def setFieldAccount_def setFieldV256_def)

lemma getFieldH160_set [simp, sle_simps]:
  "getFieldH160 (setFieldU32 f v1 sle) g = (if g = f then 0 else getFieldH160 sle g)"
  "getFieldH160 (setFieldU64 f v2 sle) g = (if g = f then 0 else getFieldH160 sle g)"
  "getFieldH160 (setFieldH160 f v3 sle) g = (if g = f then v3 else getFieldH160 sle g)"
  "getFieldH160 (setFieldH256 f v4 sle) g = (if g = f then 0 else getFieldH160 sle g)"
  "getFieldH160 (setFieldAmount f v5 sle) g = (if g = f then 0 else getFieldH160 sle g)"
  "getFieldH160 (setFieldVL f v6 sle) g = (if g = f then 0 else getFieldH160 sle g)"
  "getFieldH160 (setFieldAccount f v7 sle) g = (if g = f then 0 else getFieldH160 sle g)"
  "getFieldH160 (setFieldV256 f v8 sle) g = (if g = f then 0 else getFieldH160 sle g)"
  by (simp_all add: getFieldH160_def setFieldU32_def setFieldU64_def setFieldH160_def setFieldH256_def setFieldAmount_def setFieldVL_def setFieldAccount_def setFieldV256_def)

lemma getFieldH256_set [simp, sle_simps]:
  "getFieldH256 (setFieldU32 f v1 sle) g = (if g = f then 0 else getFieldH256 sle g)"
  "getFieldH256 (setFieldU64 f v2 sle) g = (if g = f then 0 else getFieldH256 sle g)"
  "getFieldH256 (setFieldH160 f v3 sle) g = (if g = f then 0 else getFieldH256 sle g)"
  "getFieldH256 (setFieldH256 f v4 sle) g = (if g = f then v4 else getFieldH256 sle g)"
  "getFieldH256 (setFieldAmount f v5 sle) g = (if g = f then 0 else getFieldH256 sle g)"
  "getFieldH256 (setFieldVL f v6 sle) g = (if g = f then 0 else getFieldH256 sle g)"
  "getFieldH256 (setFieldAccount f v7 sle) g = (if g = f then 0 else getFieldH256 sle g)"
  "getFieldH256 (setFieldV256 f v8 sle) g = (if g = f then 0 else getFieldH256 sle g)"
  by (simp_all add: getFieldH256_def setFieldU32_def setFieldU64_def setFieldH160_def setFieldH256_def setFieldAmount_def setFieldVL_def setFieldAccount_def setFieldV256_def)

lemma getFieldAmount_set [simp, sle_simps]:
  "getFieldAmount (setFieldU32 f v1 sle) g = (if g = f then mkNative 0 False else getFieldAmount sle g)"
  "getFieldAmount (setFieldU64 f v2 sle) g = (if g = f then mkNative 0 False else getFieldAmount sle g)"
  "getFieldAmount (setFieldH160 f v3 sle) g = (if g = f then mkNative 0 False else getFieldAmount sle g)"
  "getFieldAmount (setFieldH256 f v4 sle) g = (if g = f then mkNative 0 False else getFieldAmount sle g)"
  "getFieldAmount (setFieldAmount f v5 sle) g = (if g = f then v5 else getFieldAmount sle g)"
  "getFieldAmount (setFieldVL f v6 sle) g = (if g = f then mkNative 0 False else getFieldAmount sle g)"
  "getFieldAmount (setFieldAccount f v7 sle) g = (if g = f then mkNative 0 False else getFieldAmount sle g)"
  "getFieldAmount (setFieldV256 f v8 sle) g = (if g = f then mkNative 0 False else getFieldAmount sle g)"
  by (simp_all add: getFieldAmount_def setFieldU32_def setFieldU64_def setFieldH160_def setFieldH256_def setFieldAmount_def setFieldVL_def setFieldAccount_def setFieldV256_def)

lemma getFieldVL_set [simp, sle_simps]:
  "getFieldVL (setFieldU32 f v1 sle) g = (if g = f then [] else getFieldVL sle g)"
  "getFieldVL (setFieldU64 f v2 sle) g = (if g = f then [] else getFieldVL sle g)"
  "getFieldVL (setFieldH160 f v3 sle) g = (if g = f then [] else getFieldVL sle g)"
  "getFieldVL (setFieldH256 f v4 sle) g = (if g = f then [] else getFieldVL sle g)"
  "getFieldVL (setFieldAmount f v5 sle) g = (if g = f then [] else getFieldVL sle g)"
  "getFieldVL (setFieldVL f v6 sle) g = (if g = f then v6 else getFieldVL sle g)"
  "getFieldVL (setFieldAccount f v7 sle) g = (if g = f then [] else getFieldVL sle g)"
  "getFieldVL (setFieldV256 f v8 sle) g = (if g = f then [] else getFieldVL sle g)"
  by (simp_all add: getFieldVL_def setFieldU32_def setFieldU64_def setFieldH160_def setFieldH256_def setFieldAmount_def setFieldVL_def setFieldAccount_def setFieldV256_def)

lemma getFieldAccount160_set [simp, sle_simps]:
  "getFieldAccount160 (setFieldU32 f v1 sle) g = (if g = f then 0 else getFieldAccount160 sle g)"
  "getFieldAccount160 (setFieldU64 f v2 sle) g = (if g = f then 0 else getFieldAccount160 sle g)"
  "getFieldAccount160 (setFieldH160 f v3 sle) g = (if g = f then 0 else getFieldAccount160 sle g)"
  "getFieldAccount160 (setFieldH256 f v4 sle) g = (if g = f then 0 else getFieldAccount160 sle g)"
  "getFieldAccount160 (setFieldAmount f v5 sle) g = (if g = f then 0 else getFieldAccount160 sle g)"
  "getFieldAccount160 (setFieldVL f v6 sle) g = (if g = f then 0 else getFieldAccount160 sle g)"
  "getFieldAccount160 (setFieldAccount f v7 sle) g = (if g = f then v7 else getFieldAccount160 sle g)"
  "getFieldAccount160 (setFieldV256 f v8 sle) g = (if g = f then 0 else getFieldAccount160 sle g)"
  by (simp_all add: be_word_be_bytes getFieldAccount160_def setFieldU32_def setFieldU64_def setFieldH160_def setFieldH256_def setFieldAmount_def setFieldVL_def setFieldAccount_def setFieldV256_def)

lemma getFieldV256_set [simp, sle_simps]:
  "getFieldV256 (setFieldU32 f v1 sle) g = (if g = f then [] else getFieldV256 sle g)"
  "getFieldV256 (setFieldU64 f v2 sle) g = (if g = f then [] else getFieldV256 sle g)"
  "getFieldV256 (setFieldH160 f v3 sle) g = (if g = f then [] else getFieldV256 sle g)"
  "getFieldV256 (setFieldH256 f v4 sle) g = (if g = f then [] else getFieldV256 sle g)"
  "getFieldV256 (setFieldAmount f v5 sle) g = (if g = f then [] else getFieldV256 sle g)"
  "getFieldV256 (setFieldVL f v6 sle) g = (if g = f then [] else getFieldV256 sle g)"
  "getFieldV256 (setFieldAccount f v7 sle) g = (if g = f then [] else getFieldV256 sle g)"
  "getFieldV256 (setFieldV256 f v8 sle) g = (if g = f then v8 else getFieldV256 sle g)"
  by (simp_all add: getFieldV256_def setFieldU32_def setFieldU64_def setFieldH160_def setFieldH256_def setFieldAmount_def setFieldVL_def setFieldAccount_def setFieldV256_def)

lemma SLE_frame [simp, sle_simps]:
  "mType (setFieldU32 f v1 sle) = mType sle" "mIndex (setFieldU32 f v1 sle) = mIndex sle" "isFieldPresent (setFieldU32 f v1 sle) g \<longleftrightarrow> g = f \<or> isFieldPresent sle g"
  "mType (setFieldU64 f v2 sle) = mType sle" "mIndex (setFieldU64 f v2 sle) = mIndex sle" "isFieldPresent (setFieldU64 f v2 sle) g \<longleftrightarrow> g = f \<or> isFieldPresent sle g"
  "mType (setFieldH160 f v3 sle) = mType sle" "mIndex (setFieldH160 f v3 sle) = mIndex sle" "isFieldPresent (setFieldH160 f v3 sle) g \<longleftrightarrow> g = f \<or> isFieldPresent sle g"
  "mType (setFieldH256 f v4 sle) = mType sle" "mIndex (setFieldH256 f v4 sle) = mIndex sle" "isFieldPresent (setFieldH256 f v4 sle) g \<longleftrightarrow> g = f \<or> isFieldPresent sle g"
  "mType (setFieldAmount f v5 sle) = mType sle" "mIndex (setFieldAmount f v5 sle) = mIndex sle" "isFieldPresent (setFieldAmount f v5 sle) g \<longleftrightarrow> g = f \<or> isFieldPresent sle g"
  "mType (setFieldVL f v6 sle) = mType sle" "mIndex (setFieldVL f v6 sle) = mIndex sle" "isFieldPresent (setFieldVL f v6 sle) g \<longleftrightarrow> g = f \<or> isFieldPresent sle g"
  "mType (setFieldAccount f v7 sle) = mType sle" "mIndex (setFieldAccount f v7 sle) = mIndex sle" "isFieldPresent (setFieldAccount f v7 sle) g \<longleftrightarrow> g = f \<or> isFieldPresent sle g"
  "mType (setFieldV256 f v8 sle) = mType sle" "mIndex (setFieldV256 f v8 sle) = mIndex sle" "isFieldPresent (setFieldV256 f v8 sle) g \<longleftrightarrow> g = f \<or> isFieldPresent sle g"
  by (auto simp: isFieldPresent_def setFieldU32_def setFieldU64_def setFieldH160_def setFieldH256_def setFieldAmount_def setFieldVL_def setFieldAccount_def setFieldV256_def)

lemma makeFieldAbsent_simps [simp, sle_simps]:
  "mType (makeFieldAbsent f sle) = mType sle" "mIndex (makeFieldAbsent f sle) = mIndex sle"
  "isFieldPresent (makeFieldAbsent f obj) g \<longleftrightarrow> g \<noteq> f \<and> isFieldPresent obj g"
  "g \<noteq> f \<Longrightarrow> getFieldU32 (makeFieldAbsent f obj) g = getFieldU32 obj g"
  "g \<noteq> f \<Longrightarrow> getFieldAmount (makeFieldAbsent f obj) g = getFieldAmount obj g"
  by (auto simp: makeFieldAbsent_def isFieldPresent_def getFieldU32_def getFieldAmount_def)

lemma mkSLE_frame [simp]: "mType (mkSLE lt index) = lt" "mIndex (mkSLE lt index) = index"
  by (simp_all add: mkSLE_def)

end
