(* ===== verification/Fee_Track.thy ===== *)
theory Fee_Track
  imports Prelude
begin

text \<open>
  Class \<open>LoadFeeTrackImp\<close> of \<open>src/ripple_core/functional/LoadFeeTrackImp.h\<close>: the load factors of the
  fee schedule and the scaling of fees. The record holds the three factors and the count of raises;
  all arithmetic wraps at the width of the source's types. A division by zero, which the callers
  avoid by setting the base fee first, has the value zero here.
\<close>

record LoadFeeTrack =
  mLocalTxnLoadFee :: u32
  mRemoteTxnLoadFee :: u32
  mClusterTxnLoadFee :: u32
  raiseCount :: int

definition lftNormalFee :: u32 where "lftNormalFee = 256"
definition lftFeeIncFraction :: u32 where "lftFeeIncFraction = 4"
definition lftFeeDecFraction :: u32 where "lftFeeDecFraction = 4"
definition lftFeeMax :: u32 where "lftFeeMax = lftNormalFee * 1000000"

definition newFeeTrack :: LoadFeeTrack where
  "newFeeTrack = \<lparr>mLocalTxnLoadFee = lftNormalFee, mRemoteTxnLoadFee = lftNormalFee,
     mClusterTxnLoadFee = lftNormalFee, raiseCount = 0\<rparr>"

definition mulDiv :: "u64 \<Rightarrow> u32 \<Rightarrow> u64 \<Rightarrow> u64" where
  "mulDiv value mul div' =
     (if value > 0x00000000FFFFFFFF then (value div div') * ucast mul else (value * ucast mul) div div')"

definition scaleFeeLoad :: "LoadFeeTrack \<Rightarrow> u64 \<Rightarrow> u64 \<Rightarrow> u32 \<Rightarrow> bool \<Rightarrow> u64" where
  "scaleFeeLoad t fee baseFee referenceFeeUnits bAdmin =
     (let big = fee > 0x00000000FFFFFFFF;
          fee = (if big then fee div baseFee else fee * ucast referenceFeeUnits);
          feeFactor = max (mLocalTxnLoadFee t) (mRemoteTxnLoadFee t);
          uRemFee = max (mRemoteTxnLoadFee t) (mClusterTxnLoadFee t);
          feeFactor = (if bAdmin \<and> feeFactor > uRemFee \<and> feeFactor < 4 * uRemFee then uRemFee else feeFactor);
          fee = mulDiv fee feeFactor (ucast lftNormalFee)
      in if big then fee * ucast referenceFeeUnits else fee div baseFee)"

definition scaleFeeBase :: "u64 \<Rightarrow> u64 \<Rightarrow> u32 \<Rightarrow> u64" where
  "scaleFeeBase fee baseFee referenceFeeUnits = mulDiv fee referenceFeeUnits baseFee"

definition getLoadFactor :: "LoadFeeTrack \<Rightarrow> u32" where
  "getLoadFactor t = max (mClusterTxnLoadFee t) (max (mLocalTxnLoadFee t) (mRemoteTxnLoadFee t))"

definition isLoadedLocal :: "LoadFeeTrack \<Rightarrow> bool" where
  "isLoadedLocal t \<longleftrightarrow> raiseCount t \<noteq> 0 \<or> mLocalTxnLoadFee t \<noteq> lftNormalFee"

definition isLoadedCluster :: "LoadFeeTrack \<Rightarrow> bool" where
  "isLoadedCluster t \<longleftrightarrow> raiseCount t \<noteq> 0 \<or> mLocalTxnLoadFee t \<noteq> lftNormalFee \<or>
     mClusterTxnLoadFee t \<noteq> lftNormalFee"

definition setRemoteFee :: "u32 \<Rightarrow> LoadFeeTrack \<Rightarrow> LoadFeeTrack" where
  "setRemoteFee f t = t\<lparr>mRemoteTxnLoadFee := f\<rparr>"

definition setClusterFee :: "u32 \<Rightarrow> LoadFeeTrack \<Rightarrow> LoadFeeTrack" where
  "setClusterFee fee t = t\<lparr>mClusterTxnLoadFee := fee\<rparr>"

definition raiseLocalFee :: "LoadFeeTrack \<Rightarrow> bool \<times> LoadFeeTrack" where
  "raiseLocalFee t =
     (let t = t\<lparr>raiseCount := raiseCount t + 1\<rparr> in
      if raiseCount t < 2 then (False, t)
      else
        let origFee = mLocalTxnLoadFee t;
            t = (if mLocalTxnLoadFee t < mRemoteTxnLoadFee t then t\<lparr>mLocalTxnLoadFee := mRemoteTxnLoadFee t\<rparr> else t);
            t = t\<lparr>mLocalTxnLoadFee := mLocalTxnLoadFee t + mLocalTxnLoadFee t div lftFeeIncFraction\<rparr>;
            t = (if mLocalTxnLoadFee t > lftFeeMax then t\<lparr>mLocalTxnLoadFee := lftFeeMax\<rparr> else t)
        in (origFee \<noteq> mLocalTxnLoadFee t, t))"

definition lowerLocalFee :: "LoadFeeTrack \<Rightarrow> bool \<times> LoadFeeTrack" where
  "lowerLocalFee t =
     (let origFee = mLocalTxnLoadFee t;
          t = t\<lparr>raiseCount := 0\<rparr>;
          t = t\<lparr>mLocalTxnLoadFee := mLocalTxnLoadFee t - mLocalTxnLoadFee t div lftFeeDecFraction\<rparr>;
          t = (if mLocalTxnLoadFee t < lftNormalFee then t\<lparr>mLocalTxnLoadFee := lftNormalFee\<rparr> else t)
      in (origFee \<noteq> mLocalTxnLoadFee t, t))"

subsection \<open>Bounds and recovery of the local fee\<close>

lemmas lft_consts = lftNormalFee_def lftFeeIncFraction_def lftFeeDecFraction_def lftFeeMax_def

datatype fee_op = RaiseLocal | LowerLocal | SetRemote u32 | SetCluster u32

fun fee_step :: "fee_op \<Rightarrow> LoadFeeTrack \<Rightarrow> LoadFeeTrack" where
  "fee_step RaiseLocal t = snd (raiseLocalFee t)"
| "fee_step LowerLocal t = snd (lowerLocalFee t)"
| "fee_step (SetRemote f) t = setRemoteFee f t"
| "fee_step (SetCluster f) t = setClusterFee f t"

text \<open>A remote fee that one raise cannot push past 32 bits.\<close>

definition raisable :: "u32 \<Rightarrow> bool" where
  "raisable f \<longleftrightarrow> f \<le> 0xCCCCCCCC"

definition fees_ok :: "LoadFeeTrack \<Rightarrow> bool" where
  "fees_ok t \<longleftrightarrow> lftNormalFee \<le> mLocalTxnLoadFee t \<and> mLocalTxnLoadFee t \<le> lftFeeMax \<and> raisable (mRemoteTxnLoadFee t)"

definition raised :: "nat \<Rightarrow> nat" where
  "raised x = min 256000000 (x + x div 4)"

definition lowered :: "nat \<Rightarrow> nat" where
  "lowered x = max 256 (x - x div 4)"

lemma unat_raise: "raisable f \<Longrightarrow> unat (f + f div 4) = unat f + unat f div 4"
  by (auto simp: raisable_def word_le_nat_alt unat_div unat_add_lem [THEN iffD1])

lemma raiseLocalFee_effect:
  assumes "raisable (mRemoteTxnLoadFee t)" "raisable (mLocalTxnLoadFee t)" "1 \<le> raiseCount t"
  shows "unat (mLocalTxnLoadFee (snd (raiseLocalFee t))) = raised (unat (max (mLocalTxnLoadFee t) (mRemoteTxnLoadFee t)))"
proof -
  have m: "raisable (max (mLocalTxnLoadFee t) (mRemoteTxnLoadFee t))" using assms(1,2) by (simp add: max_def)
  have "mLocalTxnLoadFee (snd (raiseLocalFee t)) =
    (let f = max (mLocalTxnLoadFee t) (mRemoteTxnLoadFee t) in min 256000000 (f + f div 4))"
    using assms(3) by (auto simp: raiseLocalFee_def Let_def lft_consts max_def min_def)
  then show ?thesis using unat_raise [OF m] by (auto simp: Let_def raised_def min_def word_le_nat_alt)
qed

lemma lowerLocalFee_effect: "unat (mLocalTxnLoadFee (snd (lowerLocalFee t))) = lowered (unat (mLocalTxnLoadFee t))"
proof -
  have "mLocalTxnLoadFee t div 4 \<le> mLocalTxnLoadFee t" by (simp add: word_le_nat_alt unat_div)
  then have "unat (mLocalTxnLoadFee t - mLocalTxnLoadFee t div 4) = unat (mLocalTxnLoadFee t) - unat (mLocalTxnLoadFee t) div 4"
    by (simp add: unat_sub unat_div)
  then show ?thesis by (auto simp: lowerLocalFee_def Let_def lft_consts lowered_def max_def word_less_nat_alt)
qed

lemma fees_ok_step:
  assumes "fees_ok t" "\<And>f. x = SetRemote f \<Longrightarrow> raisable f"
  shows "fees_ok (fee_step x t)"
proof (cases x)
  case RaiseLocal
  have r: "raisable (mLocalTxnLoadFee t)" using assms(1) by (simp add: fees_ok_def raisable_def lft_consts word_le_nat_alt)
  show ?thesis
  proof (cases "1 \<le> raiseCount t")
    case True
    have "mRemoteTxnLoadFee (snd (raiseLocalFee t)) = mRemoteTxnLoadFee t" by (simp add: raiseLocalFee_def Let_def)
    then show ?thesis using RaiseLocal assms(1) raiseLocalFee_effect [OF _ r True]
      by (auto simp: fees_ok_def lft_consts raised_def word_le_nat_alt max_def)
  next
    case False
    then show ?thesis using RaiseLocal assms(1) by (simp add: raiseLocalFee_def fees_ok_def)
  qed
next
  case LowerLocal
  have "mRemoteTxnLoadFee (snd (lowerLocalFee t)) = mRemoteTxnLoadFee t" by (simp add: lowerLocalFee_def Let_def)
  then show ?thesis using LowerLocal assms(1) lowerLocalFee_effect [of t]
    by (auto simp: fees_ok_def lft_consts lowered_def word_le_nat_alt)
next
  case (SetRemote f)
  then show ?thesis using assms by (simp add: fees_ok_def setRemoteFee_def)
next
  case (SetCluster f)
  then show ?thesis using assms by (simp add: fees_ok_def setClusterFee_def)
qed

lemma fees_ok_run: "fees_ok t \<Longrightarrow> (\<And>f. SetRemote f \<in> set ops \<Longrightarrow> raisable f) \<Longrightarrow> fees_ok (fold fee_step ops t)"
proof (induction ops arbitrary: t)
  case (Cons x ops)
  have "fees_ok (fee_step x t)" using Cons.prems by (intro fees_ok_step) auto
  then show ?case using Cons by simp
qed simp

text \<open>
  C39. Under any series of raises, lowerings and remote and cluster fees the local load fee stays
  between the normal fee of 256 and a million times it, provided that no remote fee exceeds
  0xCCCCCCCC, beyond which adding a quarter to it wraps around.
\<close>

theorem local_fee_bounded:
  assumes "\<And>f. SetRemote f \<in> set ops \<Longrightarrow> raisable f"
  shows "256 \<le> mLocalTxnLoadFee (fold fee_step ops newFeeTrack) \<and> mLocalTxnLoadFee (fold fee_step ops newFeeTrack) \<le> 256000000"
proof -
  have "fees_ok newFeeTrack" by (simp add: fees_ok_def newFeeTrack_def lft_consts raisable_def)
  then have "fees_ok (fold fee_step ops newFeeTrack)" using assms by (rule fees_ok_run)
  then show ?thesis by (simp add: fees_ok_def lft_consts)
qed

theorem local_fee_bounded_witness:
  "256 \<le> mLocalTxnLoadFee (fold fee_step [SetRemote 1000, RaiseLocal, RaiseLocal, LowerLocal] newFeeTrack)"
  using local_fee_bounded [of "[SetRemote 1000, RaiseLocal, RaiseLocal, LowerLocal]"] by (simp add: raisable_def)

text \<open>Just beyond the bound the raise wraps, and the raised local fee is zero.\<close>

lemma raiseLocalFee_wraps:
  "mLocalTxnLoadFee (fold fee_step [SetRemote 0xCCCCCCCD, RaiseLocal, RaiseLocal] newFeeTrack) = 0"
  by (simp add: newFeeTrack_def setRemoteFee_def raiseLocalFee_def Let_def lft_consts)

lemma lowered_bound: "256 \<le> m \<Longrightarrow> 3 * x + 3 \<le> 4 * m \<Longrightarrow> lowered x \<le> m"
  unfolding lowered_def by (intro max.boundedI) linarith+

lemma lowered_third:
  assumes "x \<le> 2 * m" "256 \<le> m"
  shows "(lowered ^^ 3) x \<le> m"
proof -
  obtain a where a: "2 * a \<le> m" "m \<le> 2 * a + 1" using that [of "m div 2"] by simp
  obtain b where b: "6 * b \<le> m" "m \<le> 6 * b + 5" using that [of "m div 6"] by simp
  have "lowered x \<le> m + a + 2" using assms a by (intro lowered_bound) auto
  then have "lowered (lowered x) \<le> m + b + 1" using assms a b by (intro lowered_bound) auto
  then have "lowered (lowered (lowered x)) \<le> m" using assms b by (intro lowered_bound) auto
  then show ?thesis by (simp add: numeral_3_eq_3)
qed

lemma lowered_limit: "x \<le> 256 * 2 ^ k \<Longrightarrow> (lowered ^^ (3 * k)) x \<le> max 256 x \<and> (0 < k \<longrightarrow> (lowered ^^ (3 * k)) x = 256)"
proof (induction k arbitrary: x)
  case (Suc k)
  have "(lowered ^^ (3 * Suc k)) x = (lowered ^^ (3 * k)) ((lowered ^^ 3) x)"
    by (simp only: mult_Suc_right add.commute [of 3] funpow_add o_apply)
  moreover have "(lowered ^^ 3) x \<le> 256 * 2 ^ k" using Suc.prems by (intro lowered_third) auto
  moreover have "256 \<le> (lowered ^^ 3) x" by (simp add: lowered_def numeral_3_eq_3)
  ultimately show ?case using Suc.IH [of "(lowered ^^ 3) x"] by (cases "k = 0") auto
qed simp

text \<open>
  C40. The fee recovers: whatever the state, 72 lowerings in a row bring the local load fee back to
  normal, and \<open>isLoadedLocal\<close> is false from then on.
\<close>

theorem local_fee_recovers: "\<not> isLoadedLocal (((\<lambda>t. snd (lowerLocalFee t)) ^^ 72) t)"
proof -
  have iter: "unat (mLocalTxnLoadFee (((\<lambda>t. snd (lowerLocalFee t)) ^^ n) t)) = (lowered ^^ n) (unat (mLocalTxnLoadFee t))" for n
    by (induction n) (auto simp: lowerLocalFee_effect)
  have "unat (mLocalTxnLoadFee t) \<le> 256 * 2 ^ 24" using unsigned_less [of "mLocalTxnLoadFee t", where 'a = nat] by simp
  from lowered_limit [OF this] have "unat (mLocalTxnLoadFee (((\<lambda>t. snd (lowerLocalFee t)) ^^ 72) t)) = 256"
    by (simp add: iter del: funpow.simps)
  then have f: "mLocalTxnLoadFee (((\<lambda>t. snd (lowerLocalFee t)) ^^ 72) t) = 256" by (simp add: word_unat_eq_iff del: funpow.simps)
  have "raiseCount (((\<lambda>t. snd (lowerLocalFee t)) ^^ Suc n) t) = 0" for n
    by (simp add: lowerLocalFee_def Let_def)
  from this [of 71] f show ?thesis by (simp add: isLoadedLocal_def lft_consts)
qed

subsection \<open>Scaling\<close>

lemma unat_ucast_32_64: "unat (ucast u :: u64) = unat u" for u :: u32
  using unsigned_less [of u, where 'a = nat] by (simp add: unsigned_ucast_eq take_bit_nat_eq_self)

lemma muldiv_split: "0 < d \<Longrightarrow> (v div d) * m \<le> v * m div d \<and> v * m div d \<le> (v div d) * m + m" for v m d :: nat
proof -
  assume "0 < d"
  have "v * m = (v div d) * m * d + (v mod d) * m"
    by (metis add_mult_distrib div_mult_mod_eq mult.assoc mult.commute)
  then have "v * m div d = (v div d) * m + (v mod d) * m div d" using \<open>0 < d\<close> by simp
  moreover have "(v mod d) * m \<le> m * d" using \<open>0 < d\<close> by (simp add: mult.commute mult_left_mono less_imp_le)
  then have "(v mod d) * m div d \<le> m" using \<open>0 < d\<close> div_le_mono [of "(v mod d) * m" "m * d" d] by simp
  ultimately show ?thesis by linarith
qed

text \<open>
  Scaling a fee by the ledger's rate: \<open>scaleFeeBase\<close> is the exact floor of fee times units over
  base fee for every fee below two to the 32; above that it rounds the division first, so it may fall
  short by up to the units, and is right to that accuracy as long as the result fits 64 bits.
\<close>

theorem scaleFeeBase_accuracy:
  assumes "baseFee \<noteq> 0" "(unat fee div unat baseFee) * unat units < 2 ^ 64"
  shows "(unat fee < 2 ^ 32 \<longrightarrow> unat (scaleFeeBase fee baseFee units) = unat fee * unat units div unat baseFee) \<and>
    unat (scaleFeeBase fee baseFee units) \<le> unat fee * unat units div unat baseFee \<and>
    unat fee * unat units div unat baseFee \<le> unat (scaleFeeBase fee baseFee units) + unat units"
proof (cases "unat fee < 2 ^ 32")
  case True
  have "unat fee * unat units \<le> (2 ^ 32 - 1) * (2 ^ 32 - 1)"
    using True unsigned_less [of units, where 'a = nat] by (intro mult_le_mono) auto
  then have "unat (fee * ucast units) = unat fee * unat units"
    by (simp add: unat_word_ariths unat_ucast_32_64)
  then have "unat (scaleFeeBase fee baseFee units) = unat fee * unat units div unat baseFee"
    using True by (simp add: scaleFeeBase_def mulDiv_def word_less_nat_alt unat_div)
  then show ?thesis by simp
next
  case False
  have "unat ((fee div baseFee) * ucast units) = (unat fee div unat baseFee) * unat units"
    using assms(2) by (simp add: unat_word_ariths unat_ucast_32_64 mod_mult_left_eq)
  then have "unat (scaleFeeBase fee baseFee units) = (unat fee div unat baseFee) * unat units"
    using False by (simp add: scaleFeeBase_def mulDiv_def word_less_nat_alt)
  moreover have "0 < unat baseFee" using assms(1) by (simp add: unat_gt_0)
  ultimately show ?thesis using False muldiv_split [of "unat baseFee" "unat fee" "unat units"] by simp
qed

theorem scaleFeeBase_accuracy_witness: "unat (scaleFeeBase 250 10 10) = 250"
  using scaleFeeBase_accuracy [of 10 250 10] by simp

end
