(* ===== verification/Ledger_State.thy ===== *)
theory Ledger_State
  imports Ledger_Entry Fee_Track
begin

text \<open>
  The ledger: class \<open>Ledger\<close> of \<open>src/ripple_app/ledger/Ledger.cpp\<close> as far as transactions see it. Its
  two trees are ordered maps from indexes to entries and from transaction identifiers to their
  serialized form; the hash trees (\<open>SHAMap\<close>) that store them are not modelled. The record also
  holds the header (coins, fee pool, sequence, close times) and the fee schedule, which
  \<open>updateFees\<close> reads on first use.
\<close>

record Ledger =
  mParentHash :: uint256
  mTotCoins :: u64
  mFeePool :: u64
  mLedgerSeq :: u32
  mInflationSeq :: u32
  mInflationAllowed :: bool
  mCloseTime :: u32
  mParentCloseTime :: u32
  mCloseResolution :: int
  mCloseFlags :: u32
  mTransactionMap :: "(uint256 \<times> Blob) list"
  mAccountStateMap :: "(uint256 \<times> SLE) list"
  mBaseFee :: u64
  mReferenceFeeUnits :: u32
  mReserveBase :: u32
  mReserveIncrement :: u32

subsection \<open>The account state\<close>

definition getSLE :: "Ledger \<Rightarrow> uint256 \<Rightarrow> SLE option" where
  "getSLE l uHash = map_of (mAccountStateMap l) uHash"

definition getASNodeI :: "Ledger \<Rightarrow> uint256 \<Rightarrow> LedgerEntryType \<Rightarrow> SLE option" where
  "getASNodeI l nodeID lt =
     (case getSLE l nodeID of None \<Rightarrow> None | Some node \<Rightarrow> if mType node \<noteq> lt then None else Some node)"

datatype LedgerStateParms = lepMISSING | lepCREATED | lepOKAY

text \<open>\<open>writeBack\<close>, with the create flag of its parameter; a missing entry is an error without it.\<close>

definition writeBack :: "bool \<Rightarrow> SLE \<Rightarrow> Ledger \<Rightarrow> LedgerStateParms \<times> Ledger" where
  "writeBack lepCREATE entry l =
     (if getSLE l (mIndex entry) = None \<and> \<not> lepCREATE then (lepMISSING, l)
      else
        let l' = l\<lparr>mAccountStateMap := map_put (mIndex entry) entry (mAccountStateMap l)\<rparr>
        in if getSLE l (mIndex entry) = None then (lepCREATED, l') else (lepOKAY, l'))"

text \<open>\<open>SHAMap::delItem\<close> on the account state.\<close>

definition delItem :: "uint256 \<Rightarrow> Ledger \<Rightarrow> bool \<times> Ledger" where
  "delItem index l =
     (if getSLE l index = None then (False, l)
      else (True, l\<lparr>mAccountStateMap := map_erase index (mAccountStateMap l)\<rparr>))"

text \<open>\<open>peekNextItem\<close> and \<open>peekPrevItem\<close>: the neighbours of a key; zero stands for none.\<close>

definition peekNextItem :: "Ledger \<Rightarrow> uint256 \<Rightarrow> uint256 option" where
  "peekNextItem l uHash = (case filter (\<lambda>p. fst p > uHash) (mAccountStateMap l) of [] \<Rightarrow> None | p # _ \<Rightarrow> Some (fst p))"

definition peekPrevItem :: "Ledger \<Rightarrow> uint256 \<Rightarrow> uint256 option" where
  "peekPrevItem l uHash = (case rev (filter (\<lambda>p. fst p < uHash) (mAccountStateMap l)) of [] \<Rightarrow> None | p # _ \<Rightarrow> Some (fst p))"

definition getNextLedgerIndex :: "Ledger \<Rightarrow> uint256 \<Rightarrow> uint256" where
  "getNextLedgerIndex l uHash = (case peekNextItem l uHash of None \<Rightarrow> 0 | Some i \<Rightarrow> i)"

definition getPrevLedgerIndex :: "Ledger \<Rightarrow> uint256 \<Rightarrow> uint256" where
  "getPrevLedgerIndex l uHash = (case peekPrevItem l uHash of None \<Rightarrow> 0 | Some i \<Rightarrow> i)"

definition getPrevLedgerIndexFrom :: "Ledger \<Rightarrow> uint256 \<Rightarrow> uint256 \<Rightarrow> uint256" where
  "getPrevLedgerIndexFrom l uHash uBegin =
     (case peekNextItem l uHash of None \<Rightarrow> 0 | Some i \<Rightarrow> if i < uBegin then 0 else i)"

subsection \<open>Transactions and coins\<close>

definition hasTransaction :: "Ledger \<Rightarrow> uint256 \<Rightarrow> bool" where
  "hasTransaction l txID \<longleftrightarrow> map_of (mTransactionMap l) txID \<noteq> None"

text \<open>Both forms of \<open>addTransaction\<close>: the item they add to the transaction tree is the argument \<open>item\<close>.\<close>

definition addTransaction :: "uint256 \<Rightarrow> Blob \<Rightarrow> Ledger \<Rightarrow> bool \<times> Ledger" where
  "addTransaction txID item l =
     (if hasTransaction l txID then (False, l)
      else (True, l\<lparr>mTransactionMap := map_put txID item (mTransactionMap l)\<rparr>))"

definition destroyCoins :: "u64 \<Rightarrow> Ledger \<Rightarrow> Ledger" where
  "destroyCoins fee l = l\<lparr>mTotCoins := mTotCoins l - fee, mFeePool := mFeePool l + fee\<rparr>"

definition inflateCoins :: "u64 \<Rightarrow> Ledger \<Rightarrow> Ledger" where
  "inflateCoins newCoins l = l\<lparr>mTotCoins := mTotCoins l + newCoins\<rparr>"

definition incrementInflationSeq :: "Ledger \<Rightarrow> Ledger" where
  "incrementInflationSeq l = l\<lparr>mFeePool := 0, mInflationSeq := mInflationSeq l + 1, mInflationAllowed := False\<rparr>"

subsection \<open>Fees\<close>

text \<open>The defaults of the configuration (\<open>Config.cpp\<close>), which \<open>updateFees\<close> starts from.\<close>

record Config =
  FEE_DEFAULT :: u64
  FEE_ACCOUNT_RESERVE :: u64
  FEE_OWNER_RESERVE :: u64

definition updateFees :: "(Blob \<Rightarrow> uint256) \<Rightarrow> Config \<Rightarrow> Ledger \<Rightarrow> Ledger" where
  "updateFees h cfg l =
     (let (baseFee, referenceFeeUnits, reserveBase, reserveIncrement) =
        (case getSLE l (getLedgerFeeIndex h) of
           Some sle \<Rightarrow>
             if mType sle = ltFEE_SETTINGS
             then (getFieldU64 sle sfBaseFee, getFieldU32 sle sfReferenceFeeUnits,
                   getFieldU32 sle sfReserveBase, getFieldU32 sle sfReserveIncrement)
             else (FEE_DEFAULT cfg, 10, ucast (FEE_ACCOUNT_RESERVE cfg), ucast (FEE_OWNER_RESERVE cfg))
         | None \<Rightarrow> (FEE_DEFAULT cfg, 10, ucast (FEE_ACCOUNT_RESERVE cfg), ucast (FEE_OWNER_RESERVE cfg)))
      in if mBaseFee l = 0
         then l\<lparr>mBaseFee := baseFee, mReferenceFeeUnits := referenceFeeUnits, mReserveBase := reserveBase,
                mReserveIncrement := reserveIncrement\<rparr>
         else l)"

definition getReserve :: "(Blob \<Rightarrow> uint256) \<Rightarrow> Config \<Rightarrow> Ledger \<Rightarrow> u32 \<Rightarrow> u64" where
  "getReserve h cfg l increments =
     (let l = (if mBaseFee l = 0 then updateFees h cfg l else l)
      in scaleFeeBase (scast increments * ucast (mReserveIncrement l) + ucast (mReserveBase l))
           (mBaseFee l) (mReferenceFeeUnits l))"

text \<open>\<open>Ledger::scaleFeeLoad\<close>.\<close>

definition ledgerScaleFeeLoad :: "(Blob \<Rightarrow> uint256) \<Rightarrow> Config \<Rightarrow> LoadFeeTrack \<Rightarrow> Ledger \<Rightarrow> u64 \<Rightarrow> bool \<Rightarrow> u64" where
  "ledgerScaleFeeLoad h cfg t l fee bAdmin =
     (let l = (if mBaseFee l = 0 then updateFees h cfg l else l)
      in scaleFeeLoad t fee (mBaseFee l) (mReferenceFeeUnits l) bAdmin)"

subsection \<open>Directory describers\<close>

definition ownerDirDescriber :: "uint160 \<Rightarrow> SLE \<Rightarrow> bool \<Rightarrow> SLE" where
  "ownerDirDescriber owner sle isNew = setFieldAccount sfOwner owner sle"

definition qualityDirDescriber :: "uint160 \<Rightarrow> uint160 \<Rightarrow> uint160 \<Rightarrow> uint160 \<Rightarrow> u64 \<Rightarrow> SLE \<Rightarrow> bool \<Rightarrow> SLE" where
  "qualityDirDescriber uTakerPaysCurrency uTakerPaysIssuer uTakerGetsCurrency uTakerGetsIssuer uRate sle isNew =
     setFieldU64 sfExchangeRate uRate
       (setFieldH160 sfTakerGetsIssuer uTakerGetsIssuer
         (setFieldH160 sfTakerGetsCurrency uTakerGetsCurrency
           (setFieldH160 sfTakerPaysIssuer uTakerPaysIssuer
             (setFieldH160 sfTakerPaysCurrency uTakerPaysCurrency sle))))"

end
