(* ===== verification/Entry_Set.thy ===== *)
theory Entry_Set
  imports Ledger_State
begin

text \<open>
  Class \<open>LedgerEntrySet\<close> of \<open>src/ripple_app/ledger/LedgerEntrySet.cpp\<close>, the view of a ledger a
  transaction works on, as far as single entries go: caching, creating, modifying and deleting
  entries, and \<open>TransactionEngine::txnWrite\<close>, which commits the set to the ledger.

  The shared pointers to entries the source hands out are the entries of the map \<open>mEntries\<close>; there is
  one per index. A change through a pointer is \<open>poke\<close>, which leaves the action of the entry alone;
  \<open>entryModify\<close>, \<open>entryCreate\<close> and \<open>entryDelete\<close> also store the entry they are given, since the source
  asserts that it is the one in the map. Assertions are those of a release build: they do nothing.
\<close>

datatype LedgerEntryAction = taaNONE | taaCACHED | taaMODIFY | taaDELETE | taaCREATE

record LedgerEntrySetEntry =
  mEntry :: SLE
  mAction :: LedgerEntryAction
  mEntrySeq :: int

text \<open>The metadata of the transaction being applied (\<open>TransactionMetaSet\<close>): its identity, and one object for
  every affected node.\<close>

record TransactionMetaSet =
  mMetaTxID :: uint256
  mMetaLedger :: u32
  mMetaIndex :: u32
  mMetaResult :: int
  mDelivered :: "STAmount option"
  mMetaNodes :: "(sfield \<times> (sfield \<times> st_value) list) list"

definition meta_init :: "uint256 \<Rightarrow> u32 \<Rightarrow> TransactionMetaSet \<Rightarrow> TransactionMetaSet" where
  "meta_init txid ledger ms = ms\<lparr>mMetaTxID := txid, mMetaLedger := ledger, mMetaNodes := [], mDelivered := None\<rparr>"

definition meta_clear :: "TransactionMetaSet \<Rightarrow> TransactionMetaSet" where
  "meta_clear ms = ms\<lparr>mMetaNodes := []\<rparr>"

record LedgerEntrySet =
  mLedger :: Ledger
  mEntries :: "(uint256 \<times> LedgerEntrySetEntry) list"
  mParams :: u32
  mSeq :: int
  mImmutable :: bool
  mSet :: TransactionMetaSet

definition init :: "Ledger \<Rightarrow> uint256 \<Rightarrow> u32 \<Rightarrow> u32 \<Rightarrow> LedgerEntrySet \<Rightarrow> LedgerEntrySet" where
  "init ledger transactionID ledgerID params les =
     les\<lparr>mEntries := [], mLedger := ledger, mSet := meta_init transactionID ledgerID (mSet les), mParams := params,
         mSeq := 0\<rparr>"

definition clear :: "LedgerEntrySet \<Rightarrow> LedgerEntrySet" where
  "clear les = les\<lparr>mEntries := [], mSet := meta_clear (mSet les)\<rparr>"

text \<open>\<open>duplicate\<close> goes through the private constructor, which resets the parameters.\<close>

definition duplicate :: "LedgerEntrySet \<Rightarrow> LedgerEntrySet" where
  "duplicate les = \<lparr>mLedger = mLedger les, mEntries = mEntries les, mParams = 0, mSeq = mSeq les + 1,
     mImmutable = False, mSet = mSet les\<rparr>"

definition setTo :: "LedgerEntrySet \<Rightarrow> LedgerEntrySet \<Rightarrow> LedgerEntrySet" where
  "setTo e les = les\<lparr>mLedger := mLedger e, mEntries := mEntries e, mParams := mParams e, mSeq := mSeq e,
         mSet := mSet e\<rparr>"

definition swapWith :: "LedgerEntrySet \<Rightarrow> LedgerEntrySet \<Rightarrow> LedgerEntrySet \<times> LedgerEntrySet" where
  "swapWith e les =
     (setTo (les\<lparr>mSet := (mSet e)\<lparr>mMetaNodes := mMetaNodes (mSet les)\<rparr>\<rparr>) e,
      setTo (e\<lparr>mSet := (mSet les)\<lparr>mMetaNodes := mMetaNodes (mSet e)\<rparr>\<rparr>) les)"

definition put_entry :: "uint256 \<Rightarrow> SLE \<Rightarrow> LedgerEntryAction \<Rightarrow> LedgerEntrySet \<Rightarrow> LedgerEntrySet" where
  "put_entry i sle a les = les\<lparr>mEntries := map_put i \<lparr>mEntry = sle, mAction = a, mEntrySeq = mSeq les\<rparr> (mEntries les)\<rparr>"

definition poke :: "SLE \<Rightarrow> LedgerEntrySet \<Rightarrow> LedgerEntrySet" where
  "poke sle les = (case map_of (mEntries les) (mIndex sle) of
     None \<Rightarrow> les
   | Some e \<Rightarrow> les\<lparr>mEntries := map_put (mIndex sle) (e\<lparr>mEntry := sle\<rparr>) (mEntries les)\<rparr>)"

definition getEntry :: "uint256 \<Rightarrow> LedgerEntrySet \<Rightarrow> (SLE option \<times> LedgerEntryAction) \<times> LedgerEntrySet" where
  "getEntry index les = (case map_of (mEntries les) index of
     None \<Rightarrow> ((None, taaNONE), les)
   | Some e \<Rightarrow>
       ((Some (mEntry e), mAction e),
        if mEntrySeq e \<noteq> mSeq les then put_entry index (mEntry e) (mAction e) les else les))"

definition hasEntry :: "uint256 \<Rightarrow> LedgerEntrySet \<Rightarrow> LedgerEntryAction" where
  "hasEntry index les = (case map_of (mEntries les) index of None \<Rightarrow> taaNONE | Some e \<Rightarrow> mAction e)"

text \<open>The overloads that take an entry.\<close>

definition entryCache_sle :: "SLE \<Rightarrow> LedgerEntrySet \<Rightarrow> exn + LedgerEntrySet" where
  "entryCache_sle sle les = (case map_of (mEntries les) (mIndex sle) of
     None \<Rightarrow> Inr (put_entry (mIndex sle) sle taaCACHED les)
   | Some e \<Rightarrow>
       if mAction e = taaCACHED then Inr (put_entry (mIndex sle) sle taaCACHED les)
       else Inl (RuntimeError ''Cache after modify/delete/create''))"

definition entryCreate_sle :: "SLE \<Rightarrow> LedgerEntrySet \<Rightarrow> exn + LedgerEntrySet" where
  "entryCreate_sle sle les = (case map_of (mEntries les) (mIndex sle) of
     None \<Rightarrow> Inr (put_entry (mIndex sle) sle taaCREATE les)
   | Some e \<Rightarrow> (case mAction e of
       taaDELETE \<Rightarrow> Inr (put_entry (mIndex sle) sle taaMODIFY les)
     | taaMODIFY \<Rightarrow> Inl (RuntimeError ''Create after modify'')
     | taaCREATE \<Rightarrow> Inl (RuntimeError ''Create after create'')
     | taaCACHED \<Rightarrow> Inl (RuntimeError ''Create after cache'')
     | taaNONE \<Rightarrow> Inl (RuntimeError ''Unknown taa'')))"

definition entryModify :: "SLE \<Rightarrow> LedgerEntrySet \<Rightarrow> exn + LedgerEntrySet" where
  "entryModify sle les = (case map_of (mEntries les) (mIndex sle) of
     None \<Rightarrow> Inr (put_entry (mIndex sle) sle taaMODIFY les)
   | Some e \<Rightarrow> (case mAction e of
       taaCACHED \<Rightarrow> Inr (put_entry (mIndex sle) sle taaMODIFY les)
     | taaCREATE \<Rightarrow> Inr (put_entry (mIndex sle) sle taaCREATE les)
     | taaMODIFY \<Rightarrow> Inr (put_entry (mIndex sle) sle taaMODIFY les)
     | taaDELETE \<Rightarrow> Inl (RuntimeError ''Modify after delete'')
     | taaNONE \<Rightarrow> Inl (RuntimeError ''Unknown taa'')))"

definition entryDelete :: "SLE \<Rightarrow> LedgerEntrySet \<Rightarrow> exn + LedgerEntrySet" where
  "entryDelete sle les = (case map_of (mEntries les) (mIndex sle) of
     None \<Rightarrow> Inr (put_entry (mIndex sle) sle taaDELETE les)
   | Some e \<Rightarrow> (case mAction e of
       taaCACHED \<Rightarrow> Inr (put_entry (mIndex sle) sle taaDELETE les)
     | taaMODIFY \<Rightarrow> Inr (put_entry (mIndex sle) sle taaDELETE les)
     | taaCREATE \<Rightarrow> Inr (les\<lparr>mEntries := map_erase (mIndex sle) (mEntries les)\<rparr>)
     | taaDELETE \<Rightarrow> Inr les
     | taaNONE \<Rightarrow> Inl (RuntimeError ''Unknown taa'')))"

text \<open>The overloads that take a type and an index.\<close>

definition entryCreate :: "LedgerEntryType \<Rightarrow> uint256 \<Rightarrow> LedgerEntrySet \<Rightarrow> exn + SLE \<times> LedgerEntrySet" where
  "entryCreate letType index les =
     (let sleNew = mkSLE letType index in bindE (entryCreate_sle sleNew les) (\<lambda>les. Inr (sleNew, les)))"

definition entryCache :: "LedgerEntryType \<Rightarrow> uint256 \<Rightarrow> LedgerEntrySet \<Rightarrow> exn + SLE option \<times> LedgerEntrySet" where
  "entryCache letType index les =
     (if index \<noteq> 0 then
        let ((sleEntry, action), les) = getEntry index les in
        case sleEntry of
          None \<Rightarrow>
            (case getSLE (mLedger les) index of
               None \<Rightarrow> Inr (None, les)
             | Some sle \<Rightarrow> bindE (entryCache_sle sle les) (\<lambda>les. Inr (Some sle, les)))
        | Some sle \<Rightarrow> Inr (if action = taaDELETE then None else Some sle, les)
      else Inr (None, les))"

definition hasChanges :: "LedgerEntrySet \<Rightarrow> bool" where
  "hasChanges les \<longleftrightarrow> (\<exists>p \<in> set (mEntries les). mAction (snd p) \<noteq> taaCACHED)"

subsection \<open>Iteration\<close>

definition is_deleted :: "LedgerEntrySet \<Rightarrow> uint256 \<Rightarrow> bool" where
  "is_deleted les i \<longleftrightarrow> hasEntry i les = taaDELETE"

lemma next_index_decr:
  assumes "getNextLedgerIndex l x = n" "n \<noteq> 0"
  shows "length (filter (\<lambda>p. n < fst p) (mAccountStateMap l)) < length (filter (\<lambda>p. x < fst p) (mAccountStateMap l))"
proof -
  obtain p ps where f: "filter (\<lambda>p. x < fst p) (mAccountStateMap l) = p # ps" "fst p = n"
    using assms by (auto simp: getNextLedgerIndex_def peekNextItem_def split: list.splits)
  have "p \<in> set (filter (\<lambda>p. x < fst p) (mAccountStateMap l))" by (simp add: f(1))
  then have "x < n" using f(2) by simp
  then have "filter (\<lambda>p. n < fst p) (mAccountStateMap l) = filter (\<lambda>p. n < fst p) (filter (\<lambda>p. x < fst p) (mAccountStateMap l))"
    by (auto intro: filter_cong)
  then have "filter (\<lambda>p. n < fst p) (mAccountStateMap l) = filter (\<lambda>p. n < fst p) (p # ps)" by (simp only: f(1))
  moreover have "length (filter (\<lambda>p. n < fst p) (p # ps)) \<le> length ps" using f(2) by simp
  ultimately show ?thesis using f(1) by simp
qed

text \<open>
  The \<open>do\<close> loop of \<open>getNextLedgerIndex\<close>: the next entry of the ledger the set does not delete. The
  ledger answers zero when it has no next entry; zero is no entry's index and is never deleted.
\<close>

function skip_deleted :: "LedgerEntrySet \<Rightarrow> uint256 \<Rightarrow> uint256" where
  "skip_deleted les x =
     (let n = getNextLedgerIndex (mLedger les) x
      in if n \<noteq> 0 \<and> is_deleted les n then skip_deleted les n else n)"
  by pat_completeness auto
termination
  by (relation "measure (\<lambda>(les, x). length (filter (\<lambda>p. x < fst p) (mAccountStateMap (mLedger les))))")
    (use next_index_decr in auto)

declare skip_deleted.simps [simp del]

definition les_getNextLedgerIndex :: "LedgerEntrySet \<Rightarrow> uint256 \<Rightarrow> uint256" where
  "les_getNextLedgerIndex les uHash =
     (let ledgerNext = skip_deleted les uHash
      in case filter (\<lambda>p. fst p > uHash \<and> mAction (snd p) \<noteq> taaDELETE) (mEntries les) of
           [] \<Rightarrow> ledgerNext
         | p # _ \<Rightarrow> if ledgerNext \<noteq> 0 \<and> ledgerNext < fst p then ledgerNext else fst p)"

definition les_getNextLedgerIndexTo :: "LedgerEntrySet \<Rightarrow> uint256 \<Rightarrow> uint256 \<Rightarrow> uint256" where
  "les_getNextLedgerIndexTo les uHash uEnd =
     (let next = les_getNextLedgerIndex les uHash in if next > uEnd then 0 else next)"

subsection \<open>Commit\<close>

definition txnWrite_entry :: "uint256 \<times> LedgerEntrySetEntry \<Rightarrow> Ledger \<Rightarrow> Ledger" where
  "txnWrite_entry it l = (case mAction (snd it) of
     taaNONE \<Rightarrow> l
   | taaCACHED \<Rightarrow> l
   | taaCREATE \<Rightarrow> snd (writeBack True (mEntry (snd it)) l)
   | taaMODIFY \<Rightarrow> snd (writeBack False (mEntry (snd it)) l)
   | taaDELETE \<Rightarrow> snd (delItem (fst it) l))"

definition txnWrite :: "LedgerEntrySet \<Rightarrow> Ledger" where
  "txnWrite les = fold txnWrite_entry (mEntries les) (mLedger les)"

subsection \<open>The view and the invariant\<close>

definition view :: "LedgerEntrySet \<Rightarrow> uint256 \<Rightarrow> SLE option" where
  "view les i = (case map_of (mEntries les) i of
     None \<Rightarrow> getSLE (mLedger les) i
   | Some e \<Rightarrow> if mAction e = taaDELETE then None else Some (mEntry e))"

definition ledger_ok :: "Ledger \<Rightarrow> bool" where
  "ledger_ok l \<longleftrightarrow> in_order (mAccountStateMap l) \<and> (\<forall>i sle. getSLE l i = Some sle \<longrightarrow> mIndex sle = i)"

definition entry_ok :: "Ledger \<Rightarrow> uint256 \<Rightarrow> LedgerEntrySetEntry \<Rightarrow> bool" where
  "entry_ok l i e \<longleftrightarrow> mIndex (mEntry e) = i \<and> (case mAction e of
     taaNONE \<Rightarrow> False
   | taaCACHED \<Rightarrow> getSLE l i = Some (mEntry e)
   | taaMODIFY \<Rightarrow> getSLE l i \<noteq> None
   | taaDELETE \<Rightarrow> getSLE l i \<noteq> None
   | taaCREATE \<Rightarrow> getSLE l i = None)"

definition les_ok :: "LedgerEntrySet \<Rightarrow> bool" where
  "les_ok les \<longleftrightarrow> ledger_ok (mLedger les) \<and> in_order (mEntries les) \<and>
     (\<forall>i e. map_of (mEntries les) i = Some e \<longrightarrow> entry_ok (mLedger les) i e)"

lemma put_entry_frame [simp]: "mLedger (put_entry i sle a les) = mLedger les" "mParams (put_entry i sle a les) = mParams les"
  "mSeq (put_entry i sle a les) = mSeq les" "mImmutable (put_entry i sle a les) = mImmutable les"
  by (simp_all add: put_entry_def)

lemma map_of_put_entry:
  "in_order (mEntries les) \<Longrightarrow> map_of (mEntries (put_entry i sle a les)) =
     (map_of (mEntries les))(i \<mapsto> \<lparr>mEntry = sle, mAction = a, mEntrySeq = mSeq les\<rparr>)"
  by (simp add: put_entry_def)

lemma view_put_entry:
  "in_order (mEntries les) \<Longrightarrow> view (put_entry i sle a les) = (view les)(i := if a = taaDELETE then None else Some sle)"
  by (auto simp: view_def map_of_put_entry fun_eq_iff split: option.split)

lemma put_entry_ok:
  "les_ok les \<Longrightarrow> entry_ok (mLedger les) i \<lparr>mEntry = sle, mAction = a, mEntrySeq = mSeq les\<rparr> \<Longrightarrow> les_ok (put_entry i sle a les)"
  by (auto simp: les_ok_def map_of_put_entry) (simp add: put_entry_def)

lemma les_okD: "les_ok les \<Longrightarrow> in_order (mEntries les)" "les_ok les \<Longrightarrow> ledger_ok (mLedger les)"
  "les_ok les \<Longrightarrow> map_of (mEntries les) i = Some e \<Longrightarrow> entry_ok (mLedger les) i e"
  by (auto simp: les_ok_def)

lemma view_index: "les_ok les \<Longrightarrow> view les i = Some sle \<Longrightarrow> mIndex sle = i"
  by (auto simp: view_def les_ok_def ledger_ok_def entry_ok_def split: option.splits if_splits)

lemma getEntry_spec:
  assumes "les_ok les" "getEntry i les = ((r, a), les')"
  shows "les_ok les' \<and> view les' = view les \<and> mLedger les' = mLedger les \<and>
    (case map_of (mEntries les) i of None \<Rightarrow> r = None \<and> a = taaNONE \<and> les' = les | Some e \<Rightarrow> r = Some (mEntry e) \<and> a = mAction e)"
proof (cases "map_of (mEntries les) i")
  case None
  then show ?thesis using assms by (simp add: getEntry_def)
next
  case (Some e)
  have "entry_ok (mLedger les) i e" using les_okD(3) [OF assms(1) Some] .
  then have "entry_ok (mLedger les) i \<lparr>mEntry = mEntry e, mAction = mAction e, mEntrySeq = mSeq les\<rparr>"
    by (cases "mAction e") (simp_all add: entry_ok_def)
  moreover have "view (put_entry i (mEntry e) (mAction e) les) = view les"
    using Some les_okD(1) [OF assms(1)] by (auto simp: view_put_entry fun_eq_iff view_def)
  ultimately show ?thesis using assms Some put_entry_ok [OF assms(1)] by (auto simp: getEntry_def)
qed

lemma entryCache_spec:
  assumes ok: "les_ok les" and "i \<noteq> 0"
  shows "\<exists>les'. entryCache lt i les = Inr (view les i, les') \<and> les_ok les' \<and> view les' = view les \<and>
    mLedger les' = mLedger les \<and> mParams les' = mParams les \<and> (view les i \<noteq> None \<longrightarrow> map_of (mEntries les') i \<noteq> None)"
proof (cases "map_of (mEntries les) i")
  case None
  then have g: "getEntry i les = ((None, taaNONE), les)" by (simp add: getEntry_def)
  show ?thesis
  proof (cases "getSLE (mLedger les) i")
    case gn: None
    then show ?thesis using assms None by (simp add: entryCache_def g view_def)
  next
    case (Some sle)
    have i: "mIndex sle = i" using Some les_okD(2) [OF ok] by (auto simp: ledger_ok_def)
    have v: "view les i = Some sle" using None Some by (simp add: view_def)
    have "les_ok (put_entry i sle taaCACHED les)"
      by (rule put_entry_ok [OF ok]) (simp add: entry_ok_def i Some)
    moreover have "view (put_entry i sle taaCACHED les) = view les"
      using v les_okD(1) [OF ok] by (auto simp: view_put_entry fun_eq_iff)
    ultimately show ?thesis using assms None Some
      by (simp add: entryCache_def g entryCache_sle_def i v map_of_put_entry les_okD(1))
  qed
next
  case (Some e)
  obtain les' where g: "getEntry i les = ((Some (mEntry e), mAction e), les')"
    "les' = (if mEntrySeq e \<noteq> mSeq les then put_entry i (mEntry e) (mAction e) les else les)"
    using Some by (simp add: getEntry_def)
  have "view les i = (if mAction e = taaDELETE then None else Some (mEntry e))" using Some by (simp add: view_def)
  then show ?thesis using assms Some getEntry_spec [OF ok g(1)] g(2) les_okD(1) [OF ok]
    by (auto simp: entryCache_def g(1) map_of_put_entry)
qed

lemma entryCreate_spec:
  assumes ok: "les_ok les" and "view les i = None"
  shows "\<exists>les'. entryCreate lt i les = Inr (mkSLE lt i, les') \<and> les_ok les' \<and> view les' = (view les)(i \<mapsto> mkSLE lt i) \<and>
    mLedger les' = mLedger les \<and> mParams les' = mParams les \<and> map_of (mEntries les') i \<noteq> None"
proof (cases "map_of (mEntries les) i")
  case None
  then have "getSLE (mLedger les) i = None" using assms(2) by (simp add: view_def)
  then have "les_ok (put_entry i (mkSLE lt i) taaCREATE les)"
    by (intro put_entry_ok [OF ok]) (simp add: entry_ok_def)
  then show ?thesis using None les_okD(1) [OF ok]
    by (simp add: entryCreate_def Let_def entryCreate_sle_def view_put_entry map_of_put_entry)
next
  case (Some e)
  have d: "mAction e = taaDELETE" using Some assms(2) by (simp add: view_def split: if_splits)
  then have "getSLE (mLedger les) i \<noteq> None" using les_okD(3) [OF ok Some] by (simp add: entry_ok_def)
  then have "les_ok (put_entry i (mkSLE lt i) taaMODIFY les)"
    by (intro put_entry_ok [OF ok]) (simp add: entry_ok_def)
  then show ?thesis using Some d les_okD(1) [OF ok]
    by (simp add: entryCreate_def Let_def entryCreate_sle_def view_put_entry map_of_put_entry)
qed

lemma entryModify_spec:
  assumes ok: "les_ok les" and "view les (mIndex sle) \<noteq> None"
  shows "\<exists>les'. entryModify sle les = Inr les' \<and> les_ok les' \<and> view les' = (view les)(mIndex sle \<mapsto> sle) \<and>
    mLedger les' = mLedger les \<and> mParams les' = mParams les \<and> map_of (mEntries les') (mIndex sle) \<noteq> None"
proof (cases "map_of (mEntries les) (mIndex sle)")
  case None
  then have "getSLE (mLedger les) (mIndex sle) \<noteq> None" using assms(2) by (simp add: view_def)
  then have "les_ok (put_entry (mIndex sle) sle taaMODIFY les)"
    by (intro put_entry_ok [OF ok]) (simp add: entry_ok_def)
  then show ?thesis using None les_okD(1) [OF ok]
    by (simp add: entryModify_def view_put_entry map_of_put_entry)
next
  case (Some e)
  have d: "mAction e \<noteq> taaDELETE" "mAction e \<noteq> taaNONE"
    using Some assms(2) les_okD(3) [OF ok Some] by (auto simp: view_def entry_ok_def split: if_splits)
  define a where "a = (if mAction e = taaCREATE then taaCREATE else taaMODIFY)"
  have "les_ok (put_entry (mIndex sle) sle a les)"
    using les_okD(3) [OF ok Some] d
    by (intro put_entry_ok [OF ok]) (auto simp: entry_ok_def a_def split: LedgerEntryAction.splits)
  moreover have "entryModify sle les = Inr (put_entry (mIndex sle) sle a les)"
    using Some d by (auto simp: entryModify_def a_def split: LedgerEntryAction.splits)
  moreover have "a \<noteq> taaDELETE" by (simp add: a_def)
  ultimately show ?thesis using les_okD(1) [OF ok] by (simp add: view_put_entry map_of_put_entry)
qed

lemma entryDelete_spec:
  assumes ok: "les_ok les" and "view les (mIndex sle) \<noteq> None"
  shows "\<exists>les'. entryDelete sle les = Inr les' \<and> les_ok les' \<and> view les' = (view les)(mIndex sle := None) \<and>
    mLedger les' = mLedger les \<and> mParams les' = mParams les"
proof (cases "map_of (mEntries les) (mIndex sle)")
  case None
  then have "getSLE (mLedger les) (mIndex sle) \<noteq> None" using assms(2) by (simp add: view_def)
  then have "les_ok (put_entry (mIndex sle) sle taaDELETE les)"
    by (intro put_entry_ok [OF ok]) (simp add: entry_ok_def)
  then show ?thesis using None les_okD(1) [OF ok]
    by (simp add: entryDelete_def view_put_entry)
next
  case (Some e)
  note e = les_okD(3) [OF ok Some]
  have d: "mAction e \<noteq> taaDELETE" "mAction e \<noteq> taaNONE"
    using Some assms(2) e by (auto simp: view_def entry_ok_def split: if_splits)
  show ?thesis
  proof (cases "mAction e = taaCREATE")
    case True
    let ?l = "les\<lparr>mEntries := map_erase (mIndex sle) (mEntries les)\<rparr>"
    have "getSLE (mLedger les) (mIndex sle) = None" using True e by (simp add: entry_ok_def)
    then have "view ?l = (view les)(mIndex sle := None)" by (auto simp: view_def fun_eq_iff split: option.split)
    moreover have "les_ok ?l" using ok by (auto simp: les_ok_def split: if_splits)
    ultimately show ?thesis using Some True by (simp add: entryDelete_def)
  next
    case False
    have "les_ok (put_entry (mIndex sle) sle taaDELETE les)"
      using e d False by (intro put_entry_ok [OF ok]) (auto simp: entry_ok_def split: LedgerEntryAction.splits)
    moreover have "entryDelete sle les = Inr (put_entry (mIndex sle) sle taaDELETE les)"
      using Some d False by (auto simp: entryDelete_def split: LedgerEntryAction.splits)
    ultimately show ?thesis using les_okD(1) [OF ok] by (simp add: view_put_entry)
  qed
qed

lemma getSLE_writeBack: "in_order (mAccountStateMap l) \<Longrightarrow> c \<or> getSLE l (mIndex e) \<noteq> None \<Longrightarrow>
   getSLE (snd (writeBack c e l)) = (getSLE l)(mIndex e \<mapsto> e) \<and> in_order (mAccountStateMap (snd (writeBack c e l)))"
  by (auto simp: writeBack_def Let_def getSLE_def fun_eq_iff)

lemma getSLE_delItem: "in_order (mAccountStateMap l) \<Longrightarrow>
   getSLE (snd (delItem i l)) = (getSLE l)(i := None) \<and> in_order (mAccountStateMap (snd (delItem i l)))"
  by (auto simp: delItem_def getSLE_def fun_eq_iff)

lemma txnWrite_entry_effect:
  assumes "entry_ok l i e" "in_order (mAccountStateMap l)"
  shows "getSLE (txnWrite_entry (i, e) l) = (getSLE l)(i := if mAction e = taaDELETE then None else Some (mEntry e)) \<and>
    in_order (mAccountStateMap (txnWrite_entry (i, e) l))"
  using assms getSLE_writeBack [of l _ "mEntry e"] getSLE_delItem [of l i]
  by (cases "mAction e") (auto simp: txnWrite_entry_def entry_ok_def)

lemma txnWrite_entries:
  assumes "in_order es" "in_order (mAccountStateMap l)" "\<And>i e. map_of es i = Some e \<Longrightarrow> entry_ok l i e"
  shows "getSLE (fold txnWrite_entry es l) i = (case map_of es i of
     None \<Rightarrow> getSLE l i | Some e \<Rightarrow> if mAction e = taaDELETE then None else Some (mEntry e))"
  using assms
proof (induction es arbitrary: l)
  case Nil
  then show ?case by simp
next
  case (Cons p es)
  obtain j e where p: "p = (j, e)" by (cases p)
  have j: "map_of es j = None" using Cons.prems(1) p by (auto simp: map_of_eq_None_iff)
  note w = txnWrite_entry_effect [of l j e]
  have e: "entry_ok l j e" using Cons.prems(3) p by simp
  have "entry_ok (txnWrite_entry p l) k e'" if "map_of es k = Some e'" for k e'
  proof -
    have "k \<noteq> j" using that j by auto
    then have "entry_ok l k e'" "getSLE (txnWrite_entry p l) k = getSLE l k"
      using that Cons.prems(3) p w e Cons.prems(2) by auto
    then show ?thesis by (cases "mAction e'") (simp_all add: entry_ok_def)
  qed
  then have "getSLE (fold txnWrite_entry es (txnWrite_entry p l)) i = (case map_of es i of
     None \<Rightarrow> getSLE (txnWrite_entry p l) i | Some e \<Rightarrow> if mAction e = taaDELETE then None else Some (mEntry e))"
    using Cons.prems(1,2) p w e by (intro Cons.IH) auto
  then show ?case using w e Cons.prems(2) p j by (auto split: option.split)
qed

lemma txnWrite_view: "les_ok les \<Longrightarrow> getSLE (txnWrite les) = view les"
  using txnWrite_entries [of "mEntries les" "mLedger les"]
  by (auto simp: fun_eq_iff txnWrite_def view_def les_ok_def ledger_ok_def split: option.split)

lemma init_ok: "ledger_ok l \<Longrightarrow> les_ok (init l i q p les)" "view (init l i q p les) = getSLE l"
  "mLedger (init l i q p les) = l"
  by (auto simp: les_ok_def init_def view_def fun_eq_iff)

subsection \<open>Runs of operations\<close>

text \<open>
  The changes a transactor asks of its set, and what each does to a plain map of entries; the
  abstract operation is undefined where the set would throw or where its result is not kept.
\<close>

datatype les_op = Create LedgerEntryType uint256 | Modify SLE | Delete SLE | Cache LedgerEntryType uint256

fun les_step :: "les_op \<Rightarrow> LedgerEntrySet \<Rightarrow> exn + LedgerEntrySet" where
  "les_step (Create lt i) les = bindE (entryCreate lt i les) (\<lambda>(_, les). Inr les)"
| "les_step (Modify sle) les = entryModify sle les"
| "les_step (Delete sle) les = entryDelete sle les"
| "les_step (Cache lt i) les = bindE (entryCache lt i les) (\<lambda>(_, les). Inr les)"

fun map_step :: "les_op \<Rightarrow> (uint256 \<rightharpoonup> SLE) \<Rightarrow> (uint256 \<rightharpoonup> SLE) option" where
  "map_step (Create lt i) m = (if m i = None then Some (m(i \<mapsto> mkSLE lt i)) else None)"
| "map_step (Modify sle) m = (if m (mIndex sle) = None then None else Some (m(mIndex sle \<mapsto> sle)))"
| "map_step (Delete sle) m = (if m (mIndex sle) = None then None else Some (m(mIndex sle := None)))"
| "map_step (Cache lt i) m = (if i = 0 then None else Some m)"

fun run_exn :: "('o \<Rightarrow> 's \<Rightarrow> exn + 's) \<Rightarrow> 'o list \<Rightarrow> 's \<Rightarrow> exn + 's" where
  "run_exn f [] s = Inr s"
| "run_exn f (x # xs) s = bindE (f x s) (run_exn f xs)"

fun run_opt :: "('o \<Rightarrow> 'm \<Rightarrow> 'm option) \<Rightarrow> 'o list \<Rightarrow> 'm \<Rightarrow> 'm option" where
  "run_opt f [] m = Some m"
| "run_opt f (x # xs) m = (case f x m of None \<Rightarrow> None | Some m' \<Rightarrow> run_opt f xs m')"

text \<open>
  A forward simulation: wherever the abstract step is defined the concrete one succeeds and keeps
  the invariant, the frame and the abstraction. It carries over to runs.
\<close>

locale simulation =
  fixes step :: "'o \<Rightarrow> 's \<Rightarrow> exn + 's" and astep :: "'o \<Rightarrow> 'm \<Rightarrow> 'm option"
    and inv :: "'s \<Rightarrow> bool" and absf :: "'s \<Rightarrow> 'm" and frame :: "'s \<Rightarrow> 'f"
  assumes sim: "inv s \<Longrightarrow> astep x (absf s) = Some m \<Longrightarrow>
    \<exists>s'. step x s = Inr s' \<and> inv s' \<and> absf s' = m \<and> frame s' = frame s"
begin

lemma run_sim: "inv s \<Longrightarrow> run_opt astep xs (absf s) = Some m \<Longrightarrow>
    \<exists>s'. run_exn step xs s = Inr s' \<and> inv s' \<and> absf s' = m \<and> frame s' = frame s"
proof (induction xs arbitrary: s)
  case Nil
  then show ?case by simp
next
  case (Cons x xs)
  obtain m1 where m1: "astep x (absf s) = Some m1" "run_opt astep xs m1 = Some m"
    using Cons.prems(2) by (auto split: option.splits)
  obtain s1 where "step x s = Inr s1" "inv s1" "absf s1 = m1" "frame s1 = frame s"
    using sim [OF Cons.prems(1) m1(1)] by auto
  then show ?case using Cons.IH [of s1] m1(2) by auto
qed

end

lemma les_step_sim:
  assumes "les_ok les" "map_step x (view les) = Some m"
  shows "\<exists>les'. les_step x les = Inr les' \<and> les_ok les' \<and> view les' = m \<and> mLedger les' = mLedger les"
proof (cases x)
  case (Create lt i)
  then show ?thesis using assms entryCreate_spec [of les i lt] by (auto split: if_splits)
next
  case (Modify sle)
  then show ?thesis using assms entryModify_spec [of les sle] by (auto split: if_splits)
next
  case (Delete sle)
  then show ?thesis using assms entryDelete_spec [of les sle] by (auto split: if_splits)
next
  case (Cache lt i)
  then show ?thesis using assms entryCache_spec [of les i lt] by (auto split: if_splits)
qed

interpretation overlay: simulation les_step map_step les_ok view mLedger
  by unfold_locales (rule les_step_sim)

text \<open>
  C10. The entry set is a faithful overlay of its ledger. Whenever a series of creations,
  modifications, deletions and reads is possible on a plain map of entries that starts with the
  ledger's, the set started on the ledger by \<open>init\<close> carries it out without throwing, does not touch
  the ledger on the way, and \<open>txnWrite\<close> then leaves the ledger with exactly the entries of the map.
\<close>

theorem overlay_commit:
  assumes "ledger_ok l" "run_opt map_step ops (getSLE l) = Some m"
  shows "\<exists>les'. run_exn les_step ops (init l i q p les) = Inr les' \<and> mLedger les' = l \<and> view les' = m \<and>
    getSLE (txnWrite les') = m"
  using overlay.run_sim [of "init l i q p les" ops m] assms txnWrite_view by (force simp: init_ok)

subsection \<open>Iteration\<close>

lemma filter_least:
  assumes "in_order xs" "filter P xs = p # ps"
  shows "p \<in> set xs \<and> P p \<and> (\<forall>q \<in> set xs. P q \<longrightarrow> fst p \<le> fst q)"
  using assms
proof (induction xs)
  case (Cons x xs)
  then show ?case by (cases "P x") auto
qed simp

lemma getNextLedgerIndex_least:
  assumes "in_order (mAccountStateMap l)" "getNextLedgerIndex l x = n"
  shows "(n \<noteq> 0 \<longrightarrow> x < n \<and> getSLE l n \<noteq> None) \<and> (\<forall>k > x. getSLE l k \<noteq> None \<longrightarrow> n \<noteq> 0 \<and> n \<le> k)"
proof (cases "filter (\<lambda>p. x < fst p) (mAccountStateMap l)")
  case Nil
  have "getSLE l k = None" if "x < k" for k
    using Nil that by (auto simp: getSLE_def map_of_eq_None_iff filter_empty_conv)
  then show ?thesis using Nil assms by (auto simp: getNextLedgerIndex_def peekNextItem_def)
next
  case (Cons p ps)
  then have n: "n = fst p" using assms by (simp add: getNextLedgerIndex_def peekNextItem_def)
  have p: "p \<in> set (mAccountStateMap l)" "x < fst p" "\<And>q. q \<in> set (mAccountStateMap l) \<Longrightarrow> x < fst q \<Longrightarrow> fst p \<le> fst q"
    using filter_least [OF assms(1) Cons] by auto
  have "n \<noteq> 0" using p(2) n by auto
  moreover have "getSLE l n \<noteq> None" using p(1) n by (simp add: getSLE_def map_of_eq_None_iff del: not_None_eq)
  moreover have "n \<le> k" if "x < k" "getSLE l k \<noteq> None" for k
    using p(3) that n by (auto simp: getSLE_def dest!: map_of_SomeD)
  ultimately show ?thesis using p(2) n by auto
qed

lemma skip_deleted_least:
  assumes "in_order (mAccountStateMap (mLedger les))" "skip_deleted les x = n"
  shows "(n \<noteq> 0 \<longrightarrow> x < n \<and> getSLE (mLedger les) n \<noteq> None \<and> \<not> is_deleted les n) \<and>
    (\<forall>k > x. getSLE (mLedger les) k \<noteq> None \<longrightarrow> \<not> is_deleted les k \<longrightarrow> n \<noteq> 0 \<and> n \<le> k)"
  using assms
proof (induction les x rule: skip_deleted.induct)
  case (1 les x)
  define f where "f = getNextLedgerIndex (mLedger les) x"
  note f = getNextLedgerIndex_least [OF "1.prems"(1) f_def [symmetric]]
  show ?case
  proof (cases "f \<noteq> 0 \<and> is_deleted les f")
    case True
    then have "skip_deleted les f = n"
      using "1.prems"(2) by (simp add: skip_deleted.simps [of les x] Let_def f_def)
    then have r: "(n \<noteq> 0 \<longrightarrow> f < n \<and> getSLE (mLedger les) n \<noteq> None \<and> \<not> is_deleted les n) \<and>
      (\<forall>k > f. getSLE (mLedger les) k \<noteq> None \<longrightarrow> \<not> is_deleted les k \<longrightarrow> n \<noteq> 0 \<and> n \<le> k)"
      using "1.IH" [OF f_def _ "1.prems"(1)] True by simp
    have "f < k" if "x < k" "getSLE (mLedger les) k \<noteq> None" "\<not> is_deleted les k" for k
      using f that True by (metis order_le_less)
    then show ?thesis using r f True by (meson less_trans)
  next
    case False
    then have "n = f" using "1.prems"(2) by (auto simp: skip_deleted.simps [of les x] Let_def f_def)
    then show ?thesis using f False by blast
  qed
qed

lemma in_order_map_of: "in_order m \<Longrightarrow> (k, x) \<in> set m \<longleftrightarrow> map_of m k = Some x"
  using map_of_eq_Some_iff [of m k x] by (auto simp: strict_sorted_iff)

lemma view_present: "les_ok les \<Longrightarrow> view les k \<noteq> None \<longleftrightarrow>
   (getSLE (mLedger les) k \<noteq> None \<and> \<not> is_deleted les k) \<or> (\<exists>e. (k, e) \<in> set (mEntries les) \<and> mAction e \<noteq> taaDELETE)"
  by (auto simp: in_order_map_of [OF les_okD(1)] view_def is_deleted_def hasEntry_def split: option.splits if_splits)

text \<open>
  C35. Iterating over a set visits the entries of its view: \<open>getNextLedgerIndex\<close> returns the least index
  above the given one that has an entry, counting created entries and leaving out deleted ones, and
  zero exactly when there is none.
\<close>

theorem les_next_index:
  assumes ok: "les_ok les"
  shows "(les_getNextLedgerIndex les x \<noteq> 0 \<longrightarrow> x < les_getNextLedgerIndex les x \<and> view les (les_getNextLedgerIndex les x) \<noteq> None) \<and>
    (\<forall>k > x. view les k \<noteq> None \<longrightarrow> les_getNextLedgerIndex les x \<noteq> 0 \<and> les_getNextLedgerIndex les x \<le> k)"
proof -
  define s where "s = skip_deleted les x"
  have o: "in_order (mAccountStateMap (mLedger les))" using les_okD(2) [OF ok] by (simp add: ledger_ok_def)
  note s = skip_deleted_least [OF o s_def [symmetric]]
  let ?P = "\<lambda>p. fst p > x \<and> mAction (snd p) \<noteq> taaDELETE"
  show ?thesis
  proof (cases "filter ?P (mEntries les)")
    case Nil
    then have n: "les_getNextLedgerIndex les x = s" by (simp add: les_getNextLedgerIndex_def s_def)
    have "\<not> (\<exists>e. (k, e) \<in> set (mEntries les) \<and> mAction e \<noteq> taaDELETE)" if "x < k" for k
      using Nil that by (auto simp: filter_empty_conv)
    then show ?thesis using s unfolding n view_present [OF ok] by blast
  next
    case (Cons p ps)
    have p: "p \<in> set (mEntries les)" "?P p" "\<And>q. q \<in> set (mEntries les) \<Longrightarrow> ?P q \<Longrightarrow> fst p \<le> fst q"
      using filter_least [OF les_okD(1) [OF ok] Cons] by auto
    have n: "les_getNextLedgerIndex les x = (if s \<noteq> 0 \<and> s < fst p then s else fst p)"
      using Cons by (simp add: les_getNextLedgerIndex_def s_def Let_def)
    have vp: "view les (fst p) \<noteq> None" using p(1,2) by (subst view_present [OF ok]) (cases p, auto)
    have vs: "s \<noteq> 0 \<Longrightarrow> view les s \<noteq> None" using s by (subst view_present [OF ok]) blast
    have le: "(s \<noteq> 0 \<and> s \<le> k) \<or> fst p \<le> k" if "x < k" "view les k \<noteq> None" for k
      using that(2) s p(3) that(1) unfolding view_present [OF ok] by force
    have "fst p \<noteq> 0" using p(2) by auto
    then show ?thesis using p(2) vp vs s le unfolding n by force
  qed
qed

subsection \<open>An example ledger\<close>

definition sample_ledger :: Ledger where
  "sample_ledger = \<lparr>mParentHash = 0, mTotCoins = 1000000, mFeePool = 0, mLedgerSeq = 2, mInflationSeq = 1,
     mInflationAllowed = False, mCloseTime = 0, mParentCloseTime = 0, mCloseResolution = 30, mCloseFlags = 0,
     mTransactionMap = [], mAccountStateMap = [(3, mkSLE ltOFFER 3), (7, mkSLE ltACCOUNT_ROOT 7)],
     mBaseFee = 10, mReferenceFeeUnits = 10, mReserveBase = 200, mReserveIncrement = 50\<rparr>"

definition sample_les :: LedgerEntrySet where
  "sample_les = \<lparr>mLedger = sample_ledger, mEntries = [], mParams = 0, mSeq = 0, mImmutable = False,
     mSet = \<lparr>mMetaTxID = 0, mMetaLedger = 0, mMetaIndex = -1, mMetaResult = 255, mDelivered = None, mMetaNodes = []\<rparr>\<rparr>"

lemma sample_getSLE: "getSLE sample_ledger = [3 \<mapsto> mkSLE ltOFFER 3, 7 \<mapsto> mkSLE ltACCOUNT_ROOT 7]"
  by (auto simp: getSLE_def sample_ledger_def fun_eq_iff)

lemma sample_ledger_ok: "ledger_ok sample_ledger"
  by (auto simp: ledger_ok_def sample_getSLE split: if_splits) (simp add: sample_ledger_def)

theorem overlay_commit_witness:
  "\<exists>les'. run_exn les_step [Create ltACCOUNT_ROOT 1, Delete (mkSLE ltOFFER 3), Create ltOFFER 5, Cache ltACCOUNT_ROOT 7, Delete (mkSLE ltOFFER 5)]
      (init sample_ledger 0 0 0 sample_les) = Inr les' \<and>
     getSLE (txnWrite les') = [1 \<mapsto> mkSLE ltACCOUNT_ROOT 1, 7 \<mapsto> mkSLE ltACCOUNT_ROOT 7]"
proof -
  have "run_opt map_step [Create ltACCOUNT_ROOT 1, Delete (mkSLE ltOFFER 3), Create ltOFFER 5, Cache ltACCOUNT_ROOT 7, Delete (mkSLE ltOFFER 5)]
      (getSLE sample_ledger) = Some [1 \<mapsto> mkSLE ltACCOUNT_ROOT 1, 7 \<mapsto> mkSLE ltACCOUNT_ROOT 7]"
    by (simp add: sample_getSLE fun_eq_iff)
  from overlay_commit [OF sample_ledger_ok this] show ?thesis by blast
qed

theorem les_next_index_witness:
  "view (init sample_ledger 0 0 0 sample_les) 7 \<noteq> None \<and> les_getNextLedgerIndex (init sample_ledger 0 0 0 sample_les) 3 = 7"
proof -
  have v: "view (init sample_ledger 0 0 0 sample_les) = [3 \<mapsto> mkSLE ltOFFER 3, 7 \<mapsto> mkSLE ltACCOUNT_ROOT 7]"
    by (simp add: init_ok sample_getSLE)
  define n where "n = les_getNextLedgerIndex (init sample_ledger 0 0 0 sample_les) 3"
  have "(n \<noteq> 0 \<longrightarrow> 3 < n \<and> view (init sample_ledger 0 0 0 sample_les) n \<noteq> None) \<and>
    (\<forall>k > 3. view (init sample_ledger 0 0 0 sample_les) k \<noteq> None \<longrightarrow> n \<noteq> 0 \<and> n \<le> k)"
    unfolding n_def by (rule les_next_index [OF init_ok(1) [OF sample_ledger_ok]])
  note n = this
  have "n \<noteq> 0" using n [THEN conjunct2, rule_format, of 7] by (simp add: v)
  then have "3 < n" "n = 3 \<or> n = 7" using n [THEN conjunct1] by (auto simp: v split: if_splits)
  then show ?thesis by (auto simp: v n_def)
qed

subsection \<open>Reasoning about code on an entry set\<close>

text \<open>
  \<open>succeeds r Q\<close>: the code returned, with a result that satisfies \<open>Q\<close>. \<open>state_is\<close> says what an entry
  set shows (\<open>m\<close>), the ledger and parameters below it, and which entries are marked as changed
  (\<open>D\<close>), so that a change through a pointer to one of those is kept. One rule per operation of the
  set; a proof about code on the set applies them in the order of the code.
\<close>

definition succeeds :: "exn + 'a \<Rightarrow> ('a \<Rightarrow> bool) \<Rightarrow> bool" where
  "succeeds r Q \<longleftrightarrow> (case r of Inl _ \<Rightarrow> False | Inr x \<Rightarrow> Q x)"

lemma succeeds_simps [simp]: "succeeds (Inr x) Q = Q x" "\<not> succeeds (Inl e) Q"
  "succeeds (bindE r f) Q = succeeds r (\<lambda>x. succeeds (f x) Q)"
  by (auto simp: succeeds_def split: sum.splits)

lemma succeeds_mono: "succeeds r P \<Longrightarrow> (\<And>x. P x \<Longrightarrow> Q x) \<Longrightarrow> succeeds r Q"
  by (auto simp: succeeds_def split: sum.splits)

lemma succeeds_iff: "succeeds r Q \<longleftrightarrow> (\<exists>x. r = Inr x \<and> Q x)"
  by (cases r) auto

definition dirty :: "LedgerEntrySet \<Rightarrow> uint256 \<Rightarrow> bool" where
  "dirty les i \<longleftrightarrow> hasEntry i les \<in> {taaCREATE, taaMODIFY}"

definition state_is :: "(uint256 \<rightharpoonup> SLE) \<Rightarrow> uint256 set \<Rightarrow> Ledger \<times> u32 \<Rightarrow> LedgerEntrySet \<Rightarrow> bool" where
  "state_is m D f les \<longleftrightarrow> les_ok les \<and> view les = m \<and> f = (mLedger les, mParams les) \<and> (\<forall>i \<in> D. dirty les i)"

lemma state_isI: "les_ok les \<Longrightarrow> state_is (view les) {} (mLedger les, mParams les) les"
  by (simp add: state_is_def)

lemma state_is_index: "state_is m D f les \<Longrightarrow> m i = Some sle \<Longrightarrow> mIndex sle = i"
  by (auto simp: state_is_def dest: view_index)

lemma state_is_view: "state_is m D f les \<Longrightarrow> view les = m"
  by (simp add: state_is_def)

lemma hasEntry_put_entry: "les_ok les \<Longrightarrow> hasEntry j (put_entry i sle a les) = (if j = i then a else hasEntry j les)"
  using map_of_put_entry [of les i sle a] by (auto simp: hasEntry_def les_okD(1))

lemma entryCache_hasEntry:
  assumes ok: "les_ok les" and r: "entryCache lt i les = Inr (x, les')"
  shows "hasEntry j les = taaNONE \<or> hasEntry j les' = hasEntry j les"
  using r
  by (auto simp: entryCache_def getEntry_def entryCache_sle_def Let_def exn_simps hasEntry_put_entry [OF ok]
      split: option.splits if_splits prod.splits) (auto simp: hasEntry_def)

lemma wp_entryCache:
  assumes s: "state_is m D f les" and "i \<noteq> 0" and q: "\<And>les'. state_is m D f les' \<Longrightarrow> Q (m i, les')"
  shows "succeeds (entryCache lt i les) Q"
proof -
  have ok: "les_ok les" and v: "view les = m" using s by (auto simp: state_is_def)
  obtain les' where r: "entryCache lt i les = Inr (m i, les')" "les_ok les'" "view les' = m"
    "mLedger les' = mLedger les" "mParams les' = mParams les"
    using entryCache_spec [OF ok assms(2), of lt] v by auto
  have "dirty les j \<Longrightarrow> dirty les' j" for j using entryCache_hasEntry [OF ok r(1), of j] by (auto simp: dirty_def)
  then have "state_is m D f les'" using s r by (auto simp: state_is_def)
  then show ?thesis using q r(1) by simp
qed

lemma wp_entryCreate:
  assumes s: "state_is m D f les" and n: "m i = None"
    and q: "\<And>les'. state_is (m(i \<mapsto> mkSLE lt i)) (insert i D) f les' \<Longrightarrow> Q (mkSLE lt i, les')"
  shows "succeeds (entryCreate lt i les) Q"
proof -
  have ok: "les_ok les" and v: "view les = m" using s by (auto simp: state_is_def)
  obtain les' where r: "entryCreate lt i les = Inr (mkSLE lt i, les')" "les_ok les'" "view les' = m(i \<mapsto> mkSLE lt i)"
    "mLedger les' = mLedger les" "mParams les' = mParams les"
    using entryCreate_spec [OF ok, of i lt] v n by auto
  have "\<exists>a. les' = put_entry i (mkSLE lt i) a les \<and> a \<in> {taaCREATE, taaMODIFY}"
    using r(1) by (auto simp: entryCreate_def entryCreate_sle_def Let_def exn_simps split: option.splits LedgerEntryAction.splits)
  then have "dirty les j \<or> j = i \<Longrightarrow> dirty les' j" for j by (auto simp: dirty_def hasEntry_put_entry [OF ok] split: if_splits)
  then have "state_is (m(i \<mapsto> mkSLE lt i)) (insert i D) f les'" using s r by (auto simp: state_is_def)
  then show ?thesis using q r(1) by simp
qed

lemma wp_entryModify:
  assumes s: "state_is m D f les" and i: "mIndex sle = i" and n: "m i \<noteq> None"
    and q: "\<And>les'. state_is (m(i \<mapsto> sle)) (insert i D) f les' \<Longrightarrow> Q les'"
  shows "succeeds (entryModify sle les) Q"
proof -
  have ok: "les_ok les" and v: "view les = m" using s by (auto simp: state_is_def)
  obtain les' where r: "entryModify sle les = Inr les'" "les_ok les'" "view les' = m(mIndex sle \<mapsto> sle)"
    "mLedger les' = mLedger les" "mParams les' = mParams les"
    using entryModify_spec [OF ok, of sle] v n i by auto
  have "\<exists>a. les' = put_entry (mIndex sle) sle a les \<and> a \<in> {taaCREATE, taaMODIFY}"
    using r(1) by (auto simp: entryModify_def split: option.splits LedgerEntryAction.splits)
  then have "dirty les j \<or> j = mIndex sle \<Longrightarrow> dirty les' j" for j by (auto simp: dirty_def hasEntry_put_entry [OF ok] split: if_splits)
  then have "state_is (m(mIndex sle \<mapsto> sle)) (insert (mIndex sle) D) f les'" using s r by (auto simp: state_is_def)
  then show ?thesis using q r(1) i by simp
qed

lemma wp_entryDelete:
  assumes s: "state_is m D f les" and i: "mIndex sle = i" and n: "m i \<noteq> None"
    and q: "\<And>les'. state_is (m(i := None)) (D - {i}) f les' \<Longrightarrow> Q les'"
  shows "succeeds (entryDelete sle les) Q"
proof -
  have ok: "les_ok les" and v: "view les = m" using s by (auto simp: state_is_def)
  obtain les' where r: "entryDelete sle les = Inr les'" "les_ok les'" "view les' = m(mIndex sle := None)"
    "mLedger les' = mLedger les" "mParams les' = mParams les"
    using entryDelete_spec [OF ok, of sle] v n i by auto
  have "les' = put_entry (mIndex sle) sle taaDELETE les \<or> les' = les \<or> les' = les\<lparr>mEntries := map_erase (mIndex sle) (mEntries les)\<rparr>"
    using r(1) by (auto simp: entryDelete_def split: option.splits LedgerEntryAction.splits)
  then have "dirty les j \<Longrightarrow> j \<noteq> mIndex sle \<Longrightarrow> dirty les' j" for j
    by (auto simp: dirty_def hasEntry_put_entry [OF ok] split: if_splits) (auto simp: hasEntry_def les_okD(1) [OF ok])
  then have "state_is (m(mIndex sle := None)) (D - {mIndex sle}) f les'" using s r by (auto simp: state_is_def)
  then show ?thesis using q r(1) i by simp
qed

text \<open>A change through a pointer to an entry that is already marked as changed.\<close>

lemma state_is_poke:
  assumes s: "state_is m D f les" and d: "mIndex sle \<in> D"
  shows "state_is (m(mIndex sle \<mapsto> sle)) D f (poke sle les)"
proof -
  have ok: "les_ok les" and v: "view les = m" and f: "f = (mLedger les, mParams les)" and di: "\<forall>i \<in> D. dirty les i"
    using s by (auto simp: state_is_def)
  obtain e where e: "map_of (mEntries les) (mIndex sle) = Some e" "mAction e \<in> {taaCREATE, taaMODIFY}"
    using di d by (auto simp: dirty_def hasEntry_def split: option.splits)
  define e' where "e' = e\<lparr>mEntry := sle\<rparr>"
  have p: "poke sle les = les\<lparr>mEntries := map_put (mIndex sle) e' (mEntries les)\<rparr>" using e(1) by (simp add: poke_def e'_def)
  have "entry_ok (mLedger les) (mIndex sle) e'" using les_okD(3) [OF ok e(1)] e(2) by (auto simp: entry_ok_def e'_def)
  then have "les_ok (poke sle les)" using ok by (auto simp: les_ok_def p)
  moreover have "view (poke sle les) = m(mIndex sle \<mapsto> sle)"
    using e(2) les_okD(1) [OF ok] by (auto simp: p v [symmetric] view_def fun_eq_iff e'_def split: option.split)
  moreover have "\<forall>i \<in> D. dirty (poke sle les) i"
    using di e les_okD(1) [OF ok] by (auto simp: p dirty_def hasEntry_def e'_def split: option.splits)
  ultimately show ?thesis using f by (simp add: state_is_def p)
qed

lemma state_is_weaken: "state_is m D f les \<Longrightarrow> D' \<subseteq> D \<Longrightarrow> state_is m D' f les"
  by (auto simp: state_is_def)

end
