(* ===== verification/Directory.thy ===== *)
theory Directory
  imports Entry_Set "HOL-Library.Multiset"
begin

text \<open>
  Directories of \<open>LedgerEntrySet.cpp\<close>: lists of entry indexes kept in chains of pages, with
  \<open>dirAdd\<close>, \<open>dirDelete\<close>, \<open>dirFirst\<close>, \<open>dirNext\<close>, \<open>dirCount\<close> and \<open>dirIsEmpty\<close>. The loops over pages follow links
  in the ledger and may run forever on a cyclic chain; they are partial functions, and the theorems
  say when they end. What a directory is is the predicate \<open>chain\<close> on the pages of a view; adding and
  deleting are shown to keep it and to change the contents as they should.
\<close>

definition DIR_NODE_MAX :: nat where "DIR_NODE_MAX = 32"

text \<open>
  The object a pointer to an entry points to, read again after other changes: two pointers of the
  source may be to the same entry.
\<close>

definition deref :: "SLE \<Rightarrow> LedgerEntrySet \<Rightarrow> SLE" where
  "deref sle les = (case view les (mIndex sle) of None \<Rightarrow> sle | Some s \<Rightarrow> s)"

text \<open>A pointer that the source dereferences without a test.\<close>

definition nonnull :: "'a option \<times> LedgerEntrySet \<Rightarrow> exn + 'a \<times> LedgerEntrySet" where
  "nonnull r = (case fst r of None \<Rightarrow> Inl NullPointer | Some x \<Rightarrow> Inr (x, snd r))"

partial_function (option) dirCount_loop ::
    "(Blob \<Rightarrow> uint256) \<Rightarrow> uint256 \<Rightarrow> u64 \<Rightarrow> u32 \<Rightarrow> LedgerEntrySet \<Rightarrow> (exn + (TER \<times> u32) \<times> LedgerEntrySet) option" where
  "dirCount_loop h uRootIndex uNodeDir uCount les =
     (case entryCache ltDIR_NODE (getDirNodeIndex h uRootIndex uNodeDir) les of
        Inl e \<Rightarrow> Some (Inl e)
      | Inr (Some sleNode, les) \<Rightarrow>
          if getFieldU64 sleNode sfIndexNext \<noteq> 0
          then dirCount_loop h uRootIndex (getFieldU64 sleNode sfIndexNext)
                 (uCount + of_nat (length (getFieldV256 sleNode sfIndexes))) les
          else Some (Inr ((tesSUCCESS, uCount + of_nat (length (getFieldV256 sleNode sfIndexes))), les))
      | Inr (None, les) \<Rightarrow>
          if uNodeDir \<noteq> 0 then Some (Inr ((tefBAD_LEDGER, uCount), les)) else Some (Inr ((tesSUCCESS, uCount), les)))"

definition dirCount :: "(Blob \<Rightarrow> uint256) \<Rightarrow> uint256 \<Rightarrow> LedgerEntrySet \<Rightarrow> (exn + (TER \<times> u32) \<times> LedgerEntrySet) option" where
  "dirCount h uRootIndex les = dirCount_loop h uRootIndex 0 0 les"

definition dirIsEmpty :: "(Blob \<Rightarrow> uint256) \<Rightarrow> uint256 \<Rightarrow> LedgerEntrySet \<Rightarrow> exn + bool \<times> LedgerEntrySet" where
  "dirIsEmpty h uRootIndex les =
     bindE (entryCache ltDIR_NODE (getDirNodeIndex h uRootIndex 0) les) (\<lambda>(sleNode, les).
     case sleNode of
       None \<Rightarrow> Inr (True, les)
     | Some sleNode \<Rightarrow>
         if getFieldV256 sleNode sfIndexes \<noteq> [] then Inr (False, les)
         else Inr (getFieldU64 sleNode sfIndexNext = 0, les))"

definition dirAdd :: "(Blob \<Rightarrow> uint256) \<Rightarrow> uint256 \<Rightarrow> uint256 \<Rightarrow> (SLE \<Rightarrow> bool \<Rightarrow> SLE) \<Rightarrow> LedgerEntrySet \<Rightarrow>
    exn + (TER \<times> u64) \<times> LedgerEntrySet" where
  "dirAdd h uRootIndex uLedgerIndex fDescriber les =
     bindE (entryCache ltDIR_NODE uRootIndex les) (\<lambda>(sleRoot, les).
     case sleRoot of
       None \<Rightarrow>
         bindE (entryCreate ltDIR_NODE uRootIndex les) (\<lambda>(sleRoot, les).
         let sleNode = fDescriber (setFieldH256 sfRootIndex uRootIndex sleRoot) True
         in Inr ((tesSUCCESS, 0), poke (setFieldV256 sfIndexes [uLedgerIndex] sleNode) les))
     | Some sleRoot \<Rightarrow>
         let uNodeDir = getFieldU64 sleRoot sfIndexPrevious in
         bindE (if uNodeDir \<noteq> 0
                then bindE (entryCache ltDIR_NODE (getDirNodeIndex h uRootIndex uNodeDir) les) nonnull
                else Inr (sleRoot, les)) (\<lambda>(sleNode, les).
         let svIndexes = getFieldV256 sleNode sfIndexes in
         if length svIndexes \<noteq> DIR_NODE_MAX then
           bindE (entryModify sleNode les) (\<lambda>les.
           Inr ((tesSUCCESS, uNodeDir), poke (setFieldV256 sfIndexes (svIndexes @ [uLedgerIndex]) sleNode) les))
         else if uNodeDir + 1 = 0 then Inr ((tecDIR_FULL, 0), les)
         else
           let uNodeDir = uNodeDir + 1 in
           bindE (entryModify (setFieldU64 sfIndexNext uNodeDir sleNode) les) (\<lambda>les.
           bindE (entryModify (setFieldU64 sfIndexPrevious uNodeDir (deref sleRoot les)) les) (\<lambda>les.
           bindE (entryCreate ltDIR_NODE (getDirNodeIndex h uRootIndex uNodeDir) les) (\<lambda>(sleNode, les).
           let sleNode = setFieldH256 sfRootIndex uRootIndex sleNode;
               sleNode = (if uNodeDir \<noteq> 1 then setFieldU64 sfIndexPrevious (uNodeDir - 1) sleNode else sleNode);
               sleNode = fDescriber sleNode False
           in Inr ((tesSUCCESS, uNodeDir), poke (setFieldV256 sfIndexes [uLedgerIndex] sleNode) les))))))"

text \<open>
  \<open>dirDelete\<close>: removing the entry from the list of its page (\<open>remove_index\<close>), and dropping pages that
  became empty (\<open>drop_page\<close>). The list operations are those on \<open>std::vector\<close>: \<open>erase\<close> of the first
  occurrence, or the last element put in its place.
\<close>

fun replace_first :: "'a \<Rightarrow> 'a \<Rightarrow> 'a list \<Rightarrow> 'a list" where
  "replace_first x y [] = []"
| "replace_first x y (z # zs) = (if z = x then y # zs else z # replace_first x y zs)"

definition remove_index :: "bool \<Rightarrow> uint256 \<Rightarrow> uint256 list \<Rightarrow> uint256 list" where
  "remove_index bStable x vuiIndexes =
     (if length vuiIndexes > 1 then
        if bStable then remove1 x vuiIndexes else butlast (replace_first x (last vuiIndexes) vuiIndexes)
      else [])"

definition drop_page :: "(Blob \<Rightarrow> uint256) \<Rightarrow> bool \<Rightarrow> u64 \<Rightarrow> uint256 \<Rightarrow> SLE \<Rightarrow> LedgerEntrySet \<Rightarrow> exn + TER \<times> LedgerEntrySet" where
  "drop_page h bKeepRoot uNodeCur uRootIndex sleNode les =
     (let uNodePrevious = getFieldU64 sleNode sfIndexPrevious;
          uNodeNext = getFieldU64 sleNode sfIndexNext in
      if uNodeCur = 0 then
        if uNodePrevious = 0 then bindE (entryDelete sleNode les) (\<lambda>les. Inr (tesSUCCESS, les))
        else if bKeepRoot then Inr (tesSUCCESS, les)
        else if uNodePrevious \<noteq> uNodeNext then Inr (tesSUCCESS, les)
        else
          bindE (bindE (entryCache ltDIR_NODE (getDirNodeIndex h uRootIndex uNodeNext) les) nonnull) (\<lambda>(sleLast, les).
          if getFieldV256 sleLast sfIndexes = [] then
            bindE (entryDelete sleNode les) (\<lambda>les.
            bindE (entryDelete sleLast les) (\<lambda>les. Inr (tesSUCCESS, les)))
          else Inr (tesSUCCESS, les))
      else if uNodeNext \<noteq> 0 then
        bindE (entryCache ltDIR_NODE (getDirNodeIndex h uRootIndex uNodePrevious) les) (\<lambda>(slePrevious, les).
        bindE (entryCache ltDIR_NODE (getDirNodeIndex h uRootIndex uNodeNext) les) (\<lambda>(sleNext, les).
        case slePrevious of None \<Rightarrow> Inr (tefBAD_LEDGER, les) | Some slePrevious \<Rightarrow>
        (case sleNext of None \<Rightarrow> Inr (tefBAD_LEDGER, les) | Some sleNext \<Rightarrow>
          bindE (entryModify (setFieldU64 sfIndexNext uNodeNext slePrevious) les) (\<lambda>les.
          bindE (entryModify (setFieldU64 sfIndexPrevious uNodePrevious (deref sleNext les)) les) (\<lambda>les.
          bindE (entryDelete (deref sleNode les) les) (\<lambda>les. Inr (tesSUCCESS, les)))))))
      else if bKeepRoot \<or> uNodePrevious \<noteq> 0 then Inr (tesSUCCESS, les)
      else
        bindE (bindE (entryCache ltDIR_NODE uRootIndex les) nonnull) (\<lambda>(sleRoot, les).
        if getFieldV256 sleRoot sfIndexes = [] then
          bindE (entryDelete sleRoot les) (\<lambda>les.
          bindE (entryDelete sleNode les) (\<lambda>les. Inr (tesSUCCESS, les)))
        else Inr (tesSUCCESS, les)))"

function dirDelete :: "(Blob \<Rightarrow> uint256) \<Rightarrow> bool \<Rightarrow> u64 \<Rightarrow> uint256 \<Rightarrow> uint256 \<Rightarrow> bool \<Rightarrow> bool \<Rightarrow> LedgerEntrySet \<Rightarrow>
    exn + TER \<times> LedgerEntrySet" where
  "dirDelete h bKeepRoot uNodeDir uRootIndex uLedgerIndex bStable bSoft les =
     bindE (entryCache ltDIR_NODE (getDirNodeIndex h uRootIndex uNodeDir) les) (\<lambda>(sleNode, les).
     case sleNode of
       None \<Rightarrow>
         if \<not> bSoft then Inr (tefBAD_LEDGER, les)
         else if uNodeDir < 20 then dirDelete h bKeepRoot (uNodeDir + 1) uRootIndex uLedgerIndex bStable True les
         else Inr (tefBAD_LEDGER, les)
     | Some sleNode \<Rightarrow>
         let vuiIndexes = getFieldV256 sleNode sfIndexes in
         if uLedgerIndex \<notin> set vuiIndexes then
           if \<not> bSoft then Inr (tefBAD_LEDGER, les)
           else if uNodeDir < 20 then dirDelete h bKeepRoot (uNodeDir + 1) uRootIndex uLedgerIndex bStable True les
           else Inr (tefBAD_LEDGER, les)
         else
           let vuiIndexes = remove_index bStable uLedgerIndex vuiIndexes;
               sleNode = setFieldV256 sfIndexes vuiIndexes sleNode in
           bindE (entryModify sleNode les) (\<lambda>les.
           if vuiIndexes = [] then drop_page h bKeepRoot uNodeDir uRootIndex sleNode les
           else Inr (tesSUCCESS, les)))"
  by pat_completeness auto
termination
  by (relation "measure (\<lambda>(h, k, n, r, x, st, so, les). 20 - unat n)")
    (auto simp: word_less_nat_alt unat_word_ariths)

declare dirDelete.simps [simp del]

partial_function (option) dirNext :: "(Blob \<Rightarrow> uint256) \<Rightarrow> uint256 \<Rightarrow> SLE \<Rightarrow> u32 \<Rightarrow> uint256 \<Rightarrow> LedgerEntrySet \<Rightarrow>
    (exn + (bool \<times> SLE \<times> u32 \<times> uint256) \<times> LedgerEntrySet) option" where
  "dirNext h uRootIndex sleNode uDirEntry uEntryIndex les =
     (if unat uDirEntry \<ge> length (getFieldV256 sleNode sfIndexes) then
        if getFieldU64 sleNode sfIndexNext = 0 then Some (Inr ((False, sleNode, uDirEntry, 0), les))
        else
          (case entryCache ltDIR_NODE (getDirNodeIndex h uRootIndex (getFieldU64 sleNode sfIndexNext)) les of
             Inl e \<Rightarrow> Some (Inl e)
           | Inr (None, les) \<Rightarrow> Some (Inr ((False, sleNode, 0, uEntryIndex), les))
           | Inr (Some sleNext, les) \<Rightarrow> dirNext h uRootIndex sleNext 0 uEntryIndex les)
      else Some (Inr ((True, sleNode, uDirEntry + 1, getFieldV256 sleNode sfIndexes ! unat uDirEntry), les)))"

definition dirFirst :: "(Blob \<Rightarrow> uint256) \<Rightarrow> uint256 \<Rightarrow> LedgerEntrySet \<Rightarrow>
    (exn + (bool \<times> SLE \<times> u32 \<times> uint256) \<times> LedgerEntrySet) option" where
  "dirFirst h uRootIndex les =
     (case entryCache ltDIR_NODE uRootIndex les of
        Inl e \<Rightarrow> Some (Inl e)
      | Inr (None, les) \<Rightarrow> Some (Inl NullPointer)
      | Inr (Some sleNode, les) \<Rightarrow> dirNext h uRootIndex sleNode 0 0 les)"

declare dirCount_loop.simps [code] dirNext.simps [code]

subsection \<open>Chains of pages\<close>

text \<open>
  What a directory is: \<open>seg pg pr ns nx\<close> says that the pages \<open>ns\<close> are linked both ways, with \<open>pr\<close> before
  the first and \<open>nx\<close> after the last. The first page of a directory is page zero, the root; it points
  back to the last page.
\<close>

fun seg :: "(u64 \<rightharpoonup> SLE) \<Rightarrow> u64 \<Rightarrow> u64 list \<Rightarrow> u64 \<Rightarrow> bool" where
  "seg pg pr [] nx \<longleftrightarrow> True"
| "seg pg pr (n # ns) nx \<longleftrightarrow>
     (\<exists>sle. pg n = Some sle \<and> getFieldU64 sle sfIndexPrevious = pr \<and> getFieldU64 sle sfIndexNext = hd (ns @ [nx])) \<and>
     seg pg n ns nx"

definition chain :: "(u64 \<rightharpoonup> SLE) \<Rightarrow> u64 list \<Rightarrow> bool" where
  "chain pg ps \<longleftrightarrow> ps \<noteq> [] \<and> hd ps = 0 \<and> sorted_wrt (<) ps \<and> seg pg (last ps) ps 0"

definition page_entries :: "SLE option \<Rightarrow> uint256 list" where
  "page_entries p = (case p of None \<Rightarrow> [] | Some sle \<Rightarrow> getFieldV256 sle sfIndexes)"

definition contents :: "(u64 \<rightharpoonup> SLE) \<Rightarrow> u64 list \<Rightarrow> uint256 list" where
  "contents pg ps = concat (map (\<lambda>n. page_entries (pg n)) ps)"

text \<open>The pages of a directory in a view, where no two page indexes collide and none is zero.\<close>

abbreviation pages :: "(Blob \<Rightarrow> uint256) \<Rightarrow> uint256 \<Rightarrow> (uint256 \<rightharpoonup> SLE) \<Rightarrow> u64 \<Rightarrow> SLE option" where
  "pages h rt m \<equiv> (\<lambda>n. m (getDirNodeIndex h rt n))"

definition page_indexes :: "(Blob \<Rightarrow> uint256) \<Rightarrow> uint256 \<Rightarrow> u64 list \<Rightarrow> uint256 set" where
  "page_indexes h rt ps = getDirNodeIndex h rt ` set ps"

definition separate :: "(Blob \<Rightarrow> uint256) \<Rightarrow> uint256 \<Rightarrow> u64 list \<Rightarrow> bool" where
  "separate h rt ps \<longleftrightarrow> inj_on (getDirNodeIndex h rt) (set ps) \<and> 0 \<notin> page_indexes h rt ps"

lemma seg_append: "seg pg pr (as @ bs) nx \<longleftrightarrow> seg pg pr as (hd (bs @ [nx])) \<and> seg pg (last (pr # as)) bs nx"
  by (induction as arbitrary: pr) (auto simp: neq_Nil_conv hd_append)

lemma seg_cong: "(\<And>n. n \<in> set ns \<Longrightarrow> pg n = pg' n) \<Longrightarrow> seg pg pr ns nx = seg pg' pr ns nx"
  by (induction ns arbitrary: pr) auto

lemma seg_upd [simp]: "k \<notin> set ns \<Longrightarrow> seg (pg(k := v)) pr ns nx = seg pg pr ns nx"
  by (rule seg_cong) auto

lemma seg_Some: "seg pg pr ns nx \<Longrightarrow> n \<in> set ns \<Longrightarrow> pg n \<noteq> None"
  by (induction ns arbitrary: pr) auto

lemma chain_Some: "chain pg ps \<Longrightarrow> n \<in> set ps \<Longrightarrow> pg n \<noteq> None"
  by (auto simp: chain_def dest: seg_Some)

lemma chain_cong: "(\<And>n. n \<in> set ps \<Longrightarrow> pg n = pg' n) \<Longrightarrow> chain pg ps = chain pg' ps"
  unfolding chain_def using seg_cong [of ps pg pg'] by simp

lemma contents_cong: "(\<And>n. n \<in> set ps \<Longrightarrow> page_entries (pg n) = page_entries (pg' n)) \<Longrightarrow> contents pg ps = contents pg' ps"
  by (simp add: contents_def cong: map_cong)

lemma contents_simps [simp]: "contents pg [] = []" "contents pg (n # ns) = page_entries (pg n) @ contents pg ns"
  "contents pg (as @ bs) = contents pg as @ contents pg bs"
  by (simp_all add: contents_def)

lemma chain_distinct: "chain pg ps \<Longrightarrow> distinct ps"
  by (simp add: chain_def strict_sorted_iff)

lemma getDirNodeIndex_0 [simp]: "getDirNodeIndex h rt 0 = rt"
  by (simp add: getDirNodeIndex_def)

text \<open>Changing one page of the view changes that page only.\<close>

lemma pages_upd:
  assumes "separate h rt ps" "n \<in> set ps" "k \<in> set ps"
  shows "(m(getDirNodeIndex h rt k := v)) (getDirNodeIndex h rt n) = (if n = k then v else m (getDirNodeIndex h rt n))"
  using assms by (auto simp: separate_def inj_on_def)

lemma seg_entries_upd:
  assumes "pg k = Some sle" "getFieldU64 s sfIndexPrevious = getFieldU64 sle sfIndexPrevious" "getFieldU64 s sfIndexNext = getFieldU64 sle sfIndexNext"
  shows "seg (pg(k \<mapsto> s)) pr ns nx = seg pg pr ns nx"
  using assms by (induction ns arbitrary: pr) auto

lemma chain_entries_upd:
  "pg k = Some sle \<Longrightarrow> chain (pg(k \<mapsto> setFieldV256 sfIndexes xs sle)) ps = chain pg ps"
  by (simp add: chain_def seg_entries_upd [where sle = sle])

lemma contents_upd: "distinct ps \<Longrightarrow> ps = as @ k # bs \<Longrightarrow> contents (pg(k := v)) ps = contents pg as @ page_entries v @ contents pg bs"
  by (auto intro!: arg_cong2 [where f = append] contents_cong)

subsection \<open>Removing an index from a page\<close>

lemma replace_first_last: "xs \<noteq> [] \<Longrightarrow> last (replace_first x (last xs) xs) = last xs \<and> replace_first x (last xs) xs \<noteq> []"
  by (induction xs) auto

lemma mset_replace_first: "x \<in> set xs \<Longrightarrow> mset (replace_first x y xs) = mset xs - {#x#} + {#y#}"
  by (induction xs) (auto simp: add_mset_commute)

lemma mset_butlast: "xs \<noteq> [] \<Longrightarrow> mset (butlast xs) = mset xs - {#last xs#}"
  by (induction xs) auto

lemma mset_remove_index: "x \<in> set xs \<Longrightarrow> mset (remove_index st x xs) = mset xs - {#x#}"
proof (cases "length xs > 1")
  case True
  assume x: "x \<in> set xs"
  have "xs \<noteq> []" using True by auto
  then show ?thesis using True x replace_first_last [of xs x]
    by (simp add: remove_index_def mset_butlast mset_replace_first)
next
  case False
  assume "x \<in> set xs"
  then have "xs = [x]" using False by (cases xs) auto
  then show ?thesis by (simp add: remove_index_def)
qed

lemma remove_index_stable: "x \<in> set xs \<Longrightarrow> remove_index True x xs = remove1 x xs"
  by (cases xs) (auto simp: remove_index_def)

subsection \<open>Deleting\<close>

definition dir_at :: "(Blob \<Rightarrow> uint256) \<Rightarrow> uint256 \<Rightarrow> (uint256 \<rightharpoonup> SLE) \<Rightarrow> u64 list \<Rightarrow> bool" where
  "dir_at h rt m ps \<longleftrightarrow> (if ps = [] then m rt = None else chain (pages h rt m) ps \<and> separate h rt ps)"

text \<open>Dropping pages: the contents stay, the pages that go leave nothing behind, nothing else changes.\<close>

definition shrunk :: "(Blob \<Rightarrow> uint256) \<Rightarrow> uint256 \<Rightarrow> (uint256 \<rightharpoonup> SLE) \<Rightarrow> u64 list \<Rightarrow> (uint256 \<rightharpoonup> SLE) \<Rightarrow> u64 list \<Rightarrow> bool" where
  "shrunk h rt m ps m' ps' \<longleftrightarrow> dir_at h rt m' ps' \<and> contents (pages h rt m') ps' = contents (pages h rt m) ps \<and>
     set ps' \<subseteq> set ps \<and> (\<forall>k \<in> set ps - set ps'. m' (getDirNodeIndex h rt k) = None) \<and>
     (\<forall>i. i \<notin> page_indexes h rt ps \<longrightarrow> m' i = m i)"

lemma chain_last_0: "chain pg ps \<Longrightarrow> last ps = 0 \<Longrightarrow> ps = [0]"
  by (cases ps) (auto simp: chain_def split: if_splits dest!: last_in_set)

lemma chain_root: "chain pg ps \<Longrightarrow> pg 0 = Some sle \<Longrightarrow>
   getFieldU64 sle sfIndexPrevious = last ps \<and> getFieldU64 sle sfIndexNext = hd (tl ps @ [0])"
  by (cases ps) (auto simp: chain_def)

lemma chain_mid:
  assumes "chain pg (as @ n # bs)" "as \<noteq> []" "pg n = Some sle"
  shows "n \<noteq> 0 \<and> getFieldU64 sle sfIndexPrevious = last as \<and> getFieldU64 sle sfIndexNext = hd (bs @ [0])"
  using assms by (cases as) (auto simp: chain_def seg_append sorted_wrt_append)

lemma chain_two:
  assumes "chain pg ps" "last ps = hd (tl ps @ [0])" "last ps \<noteq> 0"
  obtains q where "ps = [0, q]"
proof -
  obtain qs where ps: "ps = 0 # qs" using assms(1) by (cases ps) (auto simp: chain_def)
  then obtain q qs' where q: "qs = q # qs'" using assms(2,3) by (cases qs) auto
  have "qs' = []"
  proof (rule ccontr)
    assume "qs' \<noteq> []"
    then have "last ps \<in> set qs'" using ps q by simp
    moreover have "last ps = q" using assms(2) ps q by simp
    ultimately show False using assms(1) ps q by (auto simp: chain_def)
  qed
  then show ?thesis using that ps q by simp
qed

lemma chain_pos: "chain pg ps \<Longrightarrow> ps = as @ n # bs \<Longrightarrow> as \<noteq> [] \<longleftrightarrow> n \<noteq> 0"
  by (cases as) (auto simp: chain_def)

lemma chain_hd_pos: "chain pg (as @ n # bs) \<Longrightarrow> bs = [] \<longleftrightarrow> hd (bs @ [0]) = 0"
  by (cases bs) (auto simp: chain_def sorted_wrt_append)

lemma chain_unlink:
  assumes c: "chain pg (as @ n # bs)" and ne: "as \<noteq> []" "bs \<noteq> []"
    and p: "pg (last as) = Some sp" and q: "pg (hd bs) = Some sn"
  shows "chain (pg(last as \<mapsto> setFieldU64 sfIndexNext (hd bs) sp, hd bs \<mapsto> setFieldU64 sfIndexPrevious (last as) sn, n := None)) (as @ bs)"
proof -
  obtain as' a where as: "as = as' @ [a]" using ne(1) by (cases as rule: rev_cases) auto
  obtain b bs' where bs: "bs = b # bs'" using ne(2) by (cases bs) auto
  have srt: "sorted_wrt (<) (as' @ a # n # b # bs')" and hd0: "hd (as' @ [a]) = 0"
    using c as bs by (auto simp: chain_def hd_append)
  then have d: "a \<notin> set as'" "n \<notin> set as'" "b \<notin> set as'" "a \<noteq> n" "a \<noteq> b" "n \<noteq> b" "a \<notin> set bs'" "n \<notin> set bs'" "b \<notin> set bs'"
    by (auto simp: sorted_wrt_append)
  have srt': "sorted_wrt (<) (as' @ a # b # bs')" using srt by (auto simp: sorted_wrt_append)
  have l: "last (as @ n # bs) = last (as @ bs)" using bs by simp
  show ?thesis
    using c p q d srt' hd0 unfolding chain_def l
    by (auto simp: as bs seg_append hd_append)
qed

lemma page_in: "n \<in> set ps \<Longrightarrow> getDirNodeIndex h rt n \<in> page_indexes h rt ps"
  by (simp add: page_indexes_def)

lemma separate_ne: "separate h rt ps \<Longrightarrow> n \<in> set ps \<Longrightarrow> getDirNodeIndex h rt n \<noteq> 0"
  by (auto simp: separate_def page_indexes_def)

lemma separate_eq: "separate h rt ps \<Longrightarrow> n \<in> set ps \<Longrightarrow> k \<in> set ps \<Longrightarrow> getDirNodeIndex h rt n = getDirNodeIndex h rt k \<longleftrightarrow> n = k"
  by (auto simp: separate_def inj_on_def)

lemma separate_subset: "separate h rt ps \<Longrightarrow> set qs \<subseteq> set ps \<Longrightarrow> separate h rt qs"
  unfolding separate_def page_indexes_def by (meson image_mono inj_on_subset subset_iff)

lemma chain_root_in: "chain pg ps \<Longrightarrow> 0 \<in> set ps"
  by (cases ps) (auto simp: chain_def)

lemma shrunk_refl: "chain (pages h rt m) ps \<Longrightarrow> separate h rt ps \<Longrightarrow> shrunk h rt m ps m ps"
  by (auto simp: shrunk_def dir_at_def chain_def)

lemma wp_keep:
  "state_is m D f les \<Longrightarrow> chain (pages h rt m) ps \<Longrightarrow> separate h rt ps \<Longrightarrow>
   succeeds (Inr (tesSUCCESS, les)) (\<lambda>(ter, les'). ter = tesSUCCESS \<and> (\<exists>m' D' ps'. state_is m' D' f les' \<and> shrunk h rt m ps m' ps'))"
  using shrunk_refl by (simp, blast)

text \<open>Both pages of a directory of two, when they are empty.\<close>

lemma wp_delete_both:
  assumes s: "state_is m D f les" and sep: "separate h rt [0, q]" and q: "q \<noteq> 0"
    and p: "page_entries (m rt) = []" "page_entries (m (getDirNodeIndex h rt q)) = []"
    and a: "m (mIndex a) \<noteq> None" "m (mIndex b) \<noteq> None" "mIndex a = rt \<and> mIndex b = getDirNodeIndex h rt q \<or> mIndex a = getDirNodeIndex h rt q \<and> mIndex b = rt"
  shows "succeeds (bindE (entryDelete a les) (\<lambda>les. bindE (entryDelete b les) (\<lambda>les. Inr (tesSUCCESS, les))))
    (\<lambda>(ter, les'). ter = tesSUCCESS \<and> (\<exists>m' D' ps'. state_is m' D' f les' \<and> shrunk h rt m [0, q] m' ps'))"
proof -
  have ne: "rt \<noteq> getDirNodeIndex h rt q" using separate_eq [OF sep, of 0 q] q by simp
  then have ab: "mIndex a \<noteq> mIndex b" using a(3) by metis
  have "m(mIndex a := None, mIndex b := None) = m(rt := None, getDirNodeIndex h rt q := None)"
    using a(3) ne by (metis fun_upd_twist)
  then have sh: "shrunk h rt m [0, q] (m(mIndex a := None, mIndex b := None)) []"
    using p ne by (simp add: shrunk_def dir_at_def page_indexes_def)
  show ?thesis unfolding succeeds_simps
    by (rule wp_entryDelete [OF s refl a(1)], rule wp_entryDelete, assumption, rule refl, use a(2) ab in simp, use sh in auto)
qed

lemma deref_state: "state_is m D f les \<Longrightarrow> m (mIndex sle) = Some s \<Longrightarrow> deref sle les = s"
  by (simp add: deref_def state_is_view)

text \<open>Dropping an empty page between two others.\<close>

lemma wp_unlink:
  assumes s: "state_is m D f les" and c: "chain (pages h rt m) (as @ n # bs)" and sep: "separate h rt (as @ n # bs)"
    and ne: "as \<noteq> []" "bs \<noteq> []" and e: "page_entries (pages h rt m n) = []"
    and p: "m (getDirNodeIndex h rt (last as)) = Some sp" and q: "m (getDirNodeIndex h rt (hd bs)) = Some sn"
    and sle: "m (getDirNodeIndex h rt n) = Some sle"
  shows "succeeds (bindE (entryModify (setFieldU64 sfIndexNext (hd bs) sp) les) (\<lambda>les.
      bindE (entryModify (setFieldU64 sfIndexPrevious (last as) (deref sn les)) les) (\<lambda>les.
      bindE (entryDelete (deref sle les) les) (\<lambda>les. Inr (tesSUCCESS, les)))))
    (\<lambda>(ter, les'). ter = tesSUCCESS \<and> (\<exists>m' D' ps'. state_is m' D' f les' \<and> shrunk h rt m (as @ n # bs) m' ps'))"
proof -
  let ?i = "getDirNodeIndex h rt" and ?ps = "as @ n # bs"
  have mem: "last as \<in> set ?ps" "hd bs \<in> set ?ps" "n \<in> set ?ps" using ne by auto
  have dist: "last as \<noteq> n" "hd bs \<noteq> n" "last as \<noteq> hd bs"
    using chain_distinct [OF c] ne by (auto dest: last_in_set hd_in_set)
  have inj: "?i a = ?i b \<longleftrightarrow> a = b" if "a \<in> set ?ps" "b \<in> set ?ps" for a b using separate_eq [OF sep that] .
  have idx: "mIndex sp = ?i (last as)" "mIndex sn = ?i (hd bs)" "mIndex sle = ?i n"
    using state_is_index [OF s] p q sle by auto
  define m' where "m' = m(?i (last as) \<mapsto> setFieldU64 sfIndexNext (hd bs) sp, ?i (hd bs) \<mapsto> setFieldU64 sfIndexPrevious (last as) sn, ?i n := None)"
  define pgu where "pgu = (pages h rt m)(last as \<mapsto> setFieldU64 sfIndexNext (hd bs) sp, hd bs \<mapsto> setFieldU64 sfIndexPrevious (last as) sn, n := None)"
  have pg: "m' (?i k) = pgu k" if "k \<in> set (as @ bs)" for k using that inj mem by (auto simp: m'_def pgu_def)
  have "chain (pages h rt m') (as @ bs)"
    using chain_unlink [OF c ne p q] chain_cong [of "as @ bs" "pages h rt m'" pgu] pg by (auto simp: pgu_def)
  moreover have "contents (pages h rt m') (as @ bs) = contents (pages h rt m) ?ps"
  proof -
    have "page_entries (m' (?i k)) = page_entries (m (?i k))" if "k \<in> set (as @ bs)" for k
      using that pg [of k] p q chain_distinct [OF c] by (auto simp: page_entries_def pgu_def)
    then show ?thesis using e contents_cong [of "as @ bs" "pages h rt m'" "pages h rt m"] by simp
  qed
  ultimately have sh: "shrunk h rt m ?ps m' (as @ bs)"
    using separate_subset [OF sep, of "as @ bs"] ne chain_distinct [OF c] mem
    by (auto simp: shrunk_def dir_at_def m'_def page_indexes_def)
  let ?Q = "\<lambda>les'. \<exists>m' D' ps'. state_is m' D' f les' \<and> shrunk h rt m ?ps m' ps'"
  have r1: "succeeds (entryDelete (deref sle les') les') ?Q"
    if "state_is (m(?i (last as) \<mapsto> setFieldU64 sfIndexNext (hd bs) sp, ?i (hd bs) \<mapsto> setFieldU64 sfIndexPrevious (last as) sn)) D1 f les'" for les' D1
  proof (rule wp_entryDelete [OF that, of _ "?i n"])
    show "mIndex (deref sle les') = ?i n" using deref_state [OF that, of sle] inj mem dist sle idx by simp
  qed (use inj mem dist sle sh in \<open>auto simp: m'_def\<close>)
  have r2: "succeeds (entryModify (setFieldU64 sfIndexPrevious (last as) (deref sn les')) les')
      (\<lambda>les. succeeds (entryDelete (deref sle les) les) ?Q)"
    if st: "state_is (m(?i (last as) \<mapsto> setFieldU64 sfIndexNext (hd bs) sp)) D1 f les'" for les' D1
  proof -
    have "deref sn les' = sn" using deref_state [OF st, of sn] inj mem dist q idx by simp
    then show ?thesis
      by (simp only:, intro wp_entryModify [OF st, of _ "?i (hd bs)"]) (use idx q in simp, use q in simp, erule r1)
  qed
  have "succeeds (entryModify (setFieldU64 sfIndexNext (hd bs) sp) les) (\<lambda>les. 
      succeeds (entryModify (setFieldU64 sfIndexPrevious (last as) (deref sn les)) les) (\<lambda>les. succeeds (entryDelete (deref sle les) les) ?Q))"
    by (rule wp_entryModify [OF s, of _ "?i (last as)"]) (use idx p in simp, use p in simp, erule r2)
  then show ?thesis by simp
qed

lemma wp_nonnull: "succeeds r (\<lambda>(x, les). \<exists>y. x = Some y \<and> Q (y, les)) \<Longrightarrow> succeeds (bindE r nonnull) Q"
  by (cases r) (auto simp: nonnull_def)

lemma wp_cache_page:
  assumes "state_is m D f les" "chain (pages h rt m) ps" "separate h rt ps" "n \<in> set ps"
    and "\<And>sle les'. m (getDirNodeIndex h rt n) = Some sle \<Longrightarrow> mIndex sle = getDirNodeIndex h rt n \<Longrightarrow> state_is m D f les' \<Longrightarrow> Q (Some sle, les')"
  shows "succeeds (entryCache lt (getDirNodeIndex h rt n) les) Q"
proof -
  obtain sle where sle: "m (getDirNodeIndex h rt n) = Some sle" using chain_Some [OF assms(2,4)] by auto
  show ?thesis
    by (rule wp_entryCache [OF assms(1) separate_ne [OF assms(3,4)]])
      (simp add: sle, rule assms(5) [OF sle state_is_index [OF assms(1) sle]], assumption)
qed

lemma drop_page_spec:
  assumes s: "state_is m D f les" and c: "chain (pages h rt m) ps" and sep: "separate h rt ps" and n: "n \<in> set ps"
    and sle: "m (getDirNodeIndex h rt n) = Some sle" and e: "getFieldV256 sle sfIndexes = []"
  shows "succeeds (drop_page h keep n rt sle les)
    (\<lambda>(ter, les'). ter = tesSUCCESS \<and> (\<exists>m' D' ps'. state_is m' D' f les' \<and> shrunk h rt m ps m' ps'))" (is "succeeds _ ?Q")
proof -
  have i: "mIndex sle = getDirNodeIndex h rt n" using state_is_index [OF s sle] .
  obtain as bs where ps: "ps = as @ n # bs" using n by (auto simp: in_set_conv_decomp)
  have e': "page_entries (pages h rt m n) = []" by (simp add: page_entries_def sle e)
  note kp = wp_keep [OF _ c sep]
  consider (root) "n = 0" "as = []" | (mid) "n \<noteq> 0" "as \<noteq> []" using chain_pos [OF c ps] by blast
  then show ?thesis
  proof cases
    case root
    have r: "getFieldU64 sle sfIndexPrevious = last ps" "getFieldU64 sle sfIndexNext = hd (tl ps @ [0])"
      using chain_root [OF c] sle root by auto
    show ?thesis
    proof (cases "last ps = 0")
      case True
      then have "ps = [0]" using chain_last_0 [OF c] by simp
      then have "shrunk h rt m ps (m(rt := None)) []" using e' root by (simp add: shrunk_def dir_at_def page_indexes_def)
      then show ?thesis using root True r i sle
        by (auto simp: drop_page_def intro!: wp_entryDelete [OF s, of _ rt])
    next
      case False
      show ?thesis
      proof (cases "keep \<or> last ps \<noteq> hd (tl ps @ [0])")
        case True
        then have d: "drop_page h keep n rt sle les = Inr (tesSUCCESS, les)" using root False r by (auto simp: drop_page_def Let_def)
        show ?thesis unfolding d by (rule kp [OF s])
      next
        case two: False
        then obtain q where q: "ps = [0, q]" using chain_two [OF c _ False] by auto
        have q0: "q \<noteq> 0" using False q by simp
        have *: "succeeds (if getFieldV256 sl sfIndexes = [] then
             bindE (entryDelete sle les') (\<lambda>les. bindE (entryDelete sl les) (\<lambda>les. Inr (tesSUCCESS, les))) else Inr (tesSUCCESS, les')) ?Q"
          if "m (getDirNodeIndex h rt q) = Some sl" "mIndex sl = getDirNodeIndex h rt q" "state_is m D f les'" for sl les'
          using wp_delete_both [OF that(3) sep [unfolded q] q0, of sle sl] that kp [OF that(3)] sle i root e
          by (auto simp: page_entries_def q simp del: succeeds_simps)
        have "succeeds (bindE (entryCache ltDIR_NODE (getDirNodeIndex h rt q) les) nonnull) (\<lambda>(sl, les'). succeeds (if getFieldV256 sl sfIndexes = [] then
             bindE (entryDelete sle les') (\<lambda>les. bindE (entryDelete sl les) (\<lambda>les. Inr (tesSUCCESS, les))) else Inr (tesSUCCESS, les')) ?Q)"
          by (rule wp_nonnull, rule wp_cache_page [OF s c sep]) (use q * in auto)
        moreover have "drop_page h keep n rt sle les = bindE (bindE (entryCache ltDIR_NODE (getDirNodeIndex h rt q) les) nonnull) (\<lambda>(sl, les'). if getFieldV256 sl sfIndexes = [] then
             bindE (entryDelete sle les') (\<lambda>les. bindE (entryDelete sl les) (\<lambda>les. Inr (tesSUCCESS, les))) else Inr (tesSUCCESS, les'))"
          using root False two r q by (simp add: drop_page_def Let_def)
        ultimately show ?thesis by (simp only: succeeds_simps(3) case_prod_unfold)
      qed
    qed
  next
    case mid
    have r: "getFieldU64 sle sfIndexPrevious = last as" "getFieldU64 sle sfIndexNext = hd (bs @ [0])"
      using chain_mid [OF c [unfolded ps] mid(2) sle] by auto
    have nx: "bs = [] \<longleftrightarrow> hd (bs @ [0]) = 0" using chain_hd_pos [OF c [unfolded ps]] .
    show ?thesis
    proof (cases "bs = []")
      case False
      have mem: "last as \<in> set ps" "hd bs \<in> set ps" using mid(2) False ps by auto
      obtain sp sn where sp: "m (getDirNodeIndex h rt (last as)) = Some sp" "m (getDirNodeIndex h rt (hd bs)) = Some sn"
        using chain_Some [OF c mem(1)] chain_Some [OF c mem(2)] by auto
      note u = wp_unlink [OF _ c [unfolded ps] sep [unfolded ps] mid(2) False e' sp sle, folded ps]
      have d: "drop_page h keep n rt sle les =
        bindE (entryCache ltDIR_NODE (getDirNodeIndex h rt (last as)) les) (\<lambda>(slePrevious, les).
        bindE (entryCache ltDIR_NODE (getDirNodeIndex h rt (hd bs)) les) (\<lambda>(sleNext, les).
        case slePrevious of None \<Rightarrow> Inr (tefBAD_LEDGER, les) | Some slePrevious \<Rightarrow>
        (case sleNext of None \<Rightarrow> Inr (tefBAD_LEDGER, les) | Some sleNext \<Rightarrow>
          bindE (entryModify (setFieldU64 sfIndexNext (hd bs) slePrevious) les) (\<lambda>les.
          bindE (entryModify (setFieldU64 sfIndexPrevious (last as) (deref sleNext les)) les) (\<lambda>les.
          bindE (entryDelete (deref sle les) les) (\<lambda>les. Inr (tesSUCCESS, les)))))))"
        using mid False nx r by (simp add: drop_page_def Let_def)
      show ?thesis unfolding d succeeds_simps(3) case_prod_unfold
      proof (rule wp_entryCache [OF s separate_ne [OF sep mem(1)]], unfold succeeds_simps(3) case_prod_unfold fst_conv snd_conv sp option.case)
        fix les' assume st: "state_is m D f les'"
        show "succeeds (entryCache ltDIR_NODE (getDirNodeIndex h rt (hd bs)) les') (\<lambda>x. succeeds (case fst x of None \<Rightarrow> Inr (tefBAD_LEDGER, snd x) | Some sleNext \<Rightarrow>
          bindE (entryModify (setFieldU64 sfIndexNext (hd bs) sp) (snd x)) (\<lambda>les.
          bindE (entryModify (setFieldU64 sfIndexPrevious (last as) (deref sleNext les)) les) (\<lambda>les.
          bindE (entryDelete (deref sle les) les) (\<lambda>les. Inr (tesSUCCESS, les)))))
          (\<lambda>x. fst x = tesSUCCESS \<and> (\<exists>m' D' ps'. state_is m' D' f (snd x) \<and> shrunk h rt m ps m' ps')))"
          by (rule wp_entryCache [OF st separate_ne [OF sep mem(2)]]) (use u in \<open>simp only: fst_conv snd_conv sp option.case case_prod_unfold\<close>)
      qed
    next
      case True
      show ?thesis
      proof (cases "keep \<or> last as \<noteq> 0")
        case True
        then have d: "drop_page h keep n rt sle les = Inr (tesSUCCESS, les)" using mid \<open>bs = []\<close> r by (auto simp: drop_page_def Let_def)
        show ?thesis unfolding d by (rule kp [OF s])
      next
        case False
        have "as = [0]" using c mid(2) False ps \<open>bs = []\<close> by (cases as) (auto simp: chain_def split: if_splits dest!: last_in_set)
        then have q: "ps = [0, n]" using ps \<open>bs = []\<close> by simp
        have *: "succeeds (if getFieldV256 sl sfIndexes = [] then
             bindE (entryDelete sl les') (\<lambda>les. bindE (entryDelete sle les) (\<lambda>les. Inr (tesSUCCESS, les))) else Inr (tesSUCCESS, les')) ?Q"
          if "m rt = Some sl" "mIndex sl = rt" "state_is m D f les'" for sl les'
          using wp_delete_both [OF that(3) sep [unfolded q] mid(1), of sl sle] that kp [OF that(3)] sle i e
          by (auto simp: page_entries_def q simp del: succeeds_simps)
        have "succeeds (bindE (entryCache ltDIR_NODE rt les) nonnull) (\<lambda>(sl, les'). succeeds (if getFieldV256 sl sfIndexes = [] then
             bindE (entryDelete sl les') (\<lambda>les. bindE (entryDelete sle les) (\<lambda>les. Inr (tesSUCCESS, les))) else Inr (tesSUCCESS, les')) ?Q)"
          by (rule wp_nonnull, rule wp_cache_page [OF s c sep, of 0, simplified]) (use q * in auto)
        moreover have "drop_page h keep n rt sle les = bindE (bindE (entryCache ltDIR_NODE rt les) nonnull) (\<lambda>(sl, les'). if getFieldV256 sl sfIndexes = [] then
             bindE (entryDelete sl les') (\<lambda>les. bindE (entryDelete sle les) (\<lambda>les. Inr (tesSUCCESS, les))) else Inr (tesSUCCESS, les'))"
          using mid \<open>bs = []\<close> False r by (simp add: drop_page_def Let_def)
        ultimately show ?thesis by (simp only: succeeds_simps(3) case_prod_unfold)
      qed
    qed
  qed
qed

lemma dirDelete_spec:
  assumes s: "state_is m D f les" and c: "chain (pages h rt m) ps" and sep: "separate h rt ps" and ps: "ps = as @ n # bs"
    and x: "x \<in> set (page_entries (pages h rt m n))"
  shows "succeeds (dirDelete h keep n rt x st soft les) (\<lambda>(ter, les'). ter = tesSUCCESS \<and>
    (\<exists>m' D' ps'. state_is m' D' f les' \<and> dir_at h rt m' ps' \<and> set ps' \<subseteq> set ps \<and>
      contents (pages h rt m') ps' = contents (pages h rt m) as @ remove_index st x (page_entries (pages h rt m n)) @ contents (pages h rt m) bs \<and>
      (\<forall>k \<in> set ps - set ps'. m' (getDirNodeIndex h rt k) = None) \<and> (\<forall>i. i \<notin> page_indexes h rt ps \<longrightarrow> m' i = m i)))" (is "succeeds _ ?Q")
proof -
  let ?i = "getDirNodeIndex h rt"
  define Q where "Q = ?Q"
  have n: "n \<in> set ps" using ps by simp
  obtain sle where sle: "m (?i n) = Some sle" using chain_Some [OF c n] by auto
  have i: "mIndex sle = ?i n" using state_is_index [OF s sle] .
  define xs where "xs = remove_index st x (getFieldV256 sle sfIndexes)"
  define m1 where "m1 = m(?i n \<mapsto> setFieldV256 sfIndexes xs sle)"
  have x': "x \<in> set (getFieldV256 sle sfIndexes)" using x sle by (simp add: page_entries_def)
  have pg: "m1 (?i k) = ((pages h rt m)(n \<mapsto> setFieldV256 sfIndexes xs sle)) k" if "k \<in> set ps" for k
    using separate_eq [OF sep that n] by (simp add: m1_def)
  have c1: "chain (pages h rt m1) ps"
    using c chain_entries_upd [of "pages h rt m" n sle xs ps] sle
      chain_cong [of ps "pages h rt m1" "(pages h rt m)(n \<mapsto> setFieldV256 sfIndexes xs sle)", OF pg] by blast
  have "contents (pages h rt m1) ps = contents ((pages h rt m)(n \<mapsto> setFieldV256 sfIndexes xs sle)) ps"
    by (rule contents_cong) (use pg in simp)
  then have con: "contents (pages h rt m1) ps = contents (pages h rt m) as @ xs @ contents (pages h rt m) bs"
    using contents_upd [OF chain_distinct [OF c] ps] by (simp add: page_entries_def)
  have fr: "m1 j = m j" if "j \<notin> page_indexes h rt ps" for j using that page_in [OF n, of h rt] by (auto simp: m1_def)
  have post: "Q (ter, les')" if "ter = tesSUCCESS" "state_is m' D' f les'" "shrunk h rt m1 ps m' ps'" for ter les' m' D' ps'
  proof -
    have "dir_at h rt m' ps' \<and> set ps' \<subseteq> set ps \<and>
      contents (pages h rt m') ps' = contents (pages h rt m) as @ remove_index st x (page_entries (pages h rt m n)) @ contents (pages h rt m) bs \<and>
      (\<forall>k \<in> set ps - set ps'. m' (?i k) = None) \<and> (\<forall>i. i \<notin> page_indexes h rt ps \<longrightarrow> m' i = m i)"
      using that(3) con fr sle by (simp add: shrunk_def xs_def page_entries_def)
    then show ?thesis using that(1,2) unfolding Q_def by blast
  qed
  have drop: "succeeds (if xs = [] then drop_page h keep n rt (setFieldV256 sfIndexes xs sle) les' else Inr (tesSUCCESS, les')) Q"
    if st: "state_is m1 D' f les'" for les' D'
  proof (cases "xs = []")
    case True
    have "succeeds (drop_page h keep n rt (setFieldV256 sfIndexes xs sle) les')
      (\<lambda>(ter, les'). ter = tesSUCCESS \<and> (\<exists>m' D' ps'. state_is m' D' f les' \<and> shrunk h rt m1 ps m' ps'))"
      by (rule drop_page_spec [OF st c1 sep n]) (simp_all add: m1_def True)
    then show ?thesis using True post by (auto elim!: succeeds_mono)
  next
    case False
    then show ?thesis using post [OF refl st shrunk_refl [OF c1 sep]] by simp
  qed
  have "succeeds (entryModify (setFieldV256 sfIndexes xs sle) les')
      (\<lambda>les. succeeds (if xs = [] then drop_page h keep n rt (setFieldV256 sfIndexes xs sle) les else Inr (tesSUCCESS, les)) Q)"
    if "state_is m D f les'" for les'
    by (rule wp_entryModify [OF that, of _ "?i n"], simp add: i, simp add: sle, erule drop [unfolded m1_def])
  then have "succeeds (dirDelete h keep n rt x st soft les) Q" unfolding dirDelete.simps [of h keep n] succeeds_simps(3)
    by (intro wp_entryCache [OF s separate_ne [OF sep n]]) (simp add: sle x' Let_def flip: xs_def)
  then show ?thesis unfolding Q_def .
qed


subsection \<open>Adding\<close>

text \<open>What \<open>dirAdd\<close> expects of a describer: it leaves the links and the index of the page alone.\<close>

definition describes :: "(SLE \<Rightarrow> bool \<Rightarrow> SLE) \<Rightarrow> bool" where
  "describes fd \<longleftrightarrow> (\<forall>sle b. mIndex (fd sle b) = mIndex sle \<and>
     getFieldU64 (fd sle b) sfIndexNext = getFieldU64 sle sfIndexNext \<and>
     getFieldU64 (fd sle b) sfIndexPrevious = getFieldU64 sle sfIndexPrevious)"

lemma ownerDirDescriber_describes: "describes (ownerDirDescriber a)"
  by (simp add: describes_def ownerDirDescriber_def)

lemma qualityDirDescriber_describes: "describes (qualityDirDescriber a b c d r)"
  by (simp add: describes_def qualityDirDescriber_def)

lemma new_page_links [simp]: "getFieldU64 (mkSLE ltDIR_NODE i) sfIndexNext = 0" "getFieldU64 (mkSLE ltDIR_NODE i) sfIndexPrevious = 0"
  by (simp_all add: getFieldU64_def mkSLE_def elements_def)

lemma word_succ_gt: "l + 1 \<noteq> 0 \<Longrightarrow> x \<le> l \<Longrightarrow> x < l + 1" for l :: u64
  using unatSuc [of l] by (simp add: word_less_nat_alt word_le_nat_alt add.commute)

lemma sorted_last: "sorted_wrt (<) xs \<Longrightarrow> x \<in> set xs \<Longrightarrow> x \<le> last xs" for x :: u64
  by (induction xs) (auto dest: less_imp_le)

lemma chain_next:
  assumes c: "chain pg ps" and k: "k = last ps + 1" "k \<noteq> 0"
    and l: "pg (last ps) = Some sl" and r: "(pg(last ps \<mapsto> setFieldU64 sfIndexNext k sl)) 0 = Some sr"
    and s: "getFieldU64 s sfIndexPrevious = last ps" "getFieldU64 s sfIndexNext = 0"
  shows "chain (pg(last ps \<mapsto> setFieldU64 sfIndexNext k sl, 0 \<mapsto> setFieldU64 sfIndexPrevious k sr, k \<mapsto> s)) (ps @ [k])"
proof -
  have lt: "n < k" if "n \<in> set ps" for n
    using that c k word_succ_gt sorted_last by (auto simp: chain_def)
  obtain qs where ps: "ps = 0 # qs" using c by (cases ps) (auto simp: chain_def)
  show ?thesis
  proof (cases qs rule: rev_cases)
    case Nil
    then show ?thesis using c ps k l r s by (auto simp: chain_def)
  next
    case (snoc ys y)
    have "0 \<noteq> y" "y \<notin> set ys" "0 \<notin> set ys" "y \<noteq> k" "k \<notin> set ys" using c lt ps snoc by (auto simp: chain_def sorted_wrt_append)
    then show ?thesis using c ps snoc k l r s lt
      by (auto simp: chain_def seg_append sorted_wrt_append hd_append split: if_splits)
  qed
qed

text \<open>The page a full directory goes on with: its number does not wrap and its index is free.\<close>

definition room :: "(Blob \<Rightarrow> uint256) \<Rightarrow> uint256 \<Rightarrow> (uint256 \<rightharpoonup> SLE) \<Rightarrow> u64 list \<Rightarrow> bool" where
  "room h rt m ps \<longleftrightarrow> ps = [] \<or> length (page_entries (pages h rt m (last ps))) \<noteq> DIR_NODE_MAX \<or>
     (last ps + 1 \<noteq> 0 \<and> pages h rt m (last ps + 1) = None \<and> getDirNodeIndex h rt (last ps + 1) \<noteq> 0)"

definition appended :: "(Blob \<Rightarrow> uint256) \<Rightarrow> uint256 \<Rightarrow> (uint256 \<rightharpoonup> SLE) \<Rightarrow> u64 list \<Rightarrow> uint256 \<Rightarrow> (uint256 \<rightharpoonup> SLE) \<Rightarrow> u64 list \<Rightarrow> bool" where
  "appended h rt m ps x m' ps' \<longleftrightarrow> ps' \<noteq> [] \<and> dir_at h rt m' ps' \<and> set ps \<subseteq> set ps' \<and>
     contents (pages h rt m') ps' = contents (pages h rt m) ps @ [x] \<and>
     x \<in> set (page_entries (pages h rt m' (last ps'))) \<and>
     (\<forall>i. i \<notin> page_indexes h rt ps' \<longrightarrow> m' i = m i)"

lemma appended_new:
  assumes "m rt = None" "rt \<noteq> 0" "describes fd"
  shows "appended h rt m [] x (m(rt \<mapsto> setFieldV256 sfIndexes [x] (fd (setFieldH256 sfRootIndex rt (mkSLE ltDIR_NODE rt)) b))) [0]"
  using assms by (simp add: appended_def dir_at_def chain_def separate_def page_indexes_def page_entries_def describes_def)

lemma appended_last:
  assumes c: "chain (pages h rt m) ps" and sep: "separate h rt ps" and sle: "m (getDirNodeIndex h rt (last ps)) = Some sle"
  shows "appended h rt m ps x (m(getDirNodeIndex h rt (last ps) \<mapsto> setFieldV256 sfIndexes (getFieldV256 sle sfIndexes @ [x]) sle)) ps"
proof -
  let ?s = "setFieldV256 sfIndexes (getFieldV256 sle sfIndexes @ [x]) sle" and ?i = "getDirNodeIndex h rt"
  have ne: "ps \<noteq> []" using c by (simp add: chain_def)
  then have l: "last ps \<in> set ps" by simp
  have pg: "(m(?i (last ps) \<mapsto> ?s)) (?i k) = ((pages h rt m)(last ps \<mapsto> ?s)) k" if "k \<in> set ps" for k
    using separate_eq [OF sep that l] by simp
  have "chain (pages h rt (m(?i (last ps) \<mapsto> ?s))) ps"
    using c chain_entries_upd [of "pages h rt m" "last ps" sle] sle
      chain_cong [of ps "pages h rt (m(?i (last ps) \<mapsto> ?s))" "(pages h rt m)(last ps \<mapsto> ?s)", OF pg] by blast
  moreover have "contents (pages h rt (m(?i (last ps) \<mapsto> ?s))) ps = contents ((pages h rt m)(last ps \<mapsto> ?s)) ps"
    by (rule contents_cong) (use pg in simp)
  moreover have "contents ((pages h rt m)(last ps \<mapsto> ?s)) ps = contents (pages h rt m) ps @ [x]"
  proof -
    obtain as where as: "ps = as @ [last ps]" using append_butlast_last_id [OF ne] by metis
    have "contents (pages h rt m) ps = contents (pages h rt m) as @ getFieldV256 sle sfIndexes"
      by (subst as) (simp add: page_entries_def sle)
    then show ?thesis using contents_upd [OF chain_distinct [OF c], of as "last ps" "[]" "pages h rt m"] as
      by (simp add: page_entries_def)
  qed
  ultimately show ?thesis using ne sep l by (simp add: appended_def dir_at_def page_entries_def page_indexes_def)
qed

lemma appended_next:
  fixes m :: "uint256 \<rightharpoonup> SLE"
  assumes c: "chain (pages h rt m) ps" and sep: "separate h rt ps" and k: "k = last ps + 1" "k \<noteq> 0"
    and fresh: "m (getDirNodeIndex h rt k) = None" "getDirNodeIndex h rt k \<noteq> 0"
    and l: "m (getDirNodeIndex h rt (last ps)) = Some sl"
    and r: "(m(getDirNodeIndex h rt (last ps) \<mapsto> setFieldU64 sfIndexNext k sl)) rt = Some sr"
    and s: "getFieldU64 s sfIndexPrevious = last ps" "getFieldU64 s sfIndexNext = 0" "getFieldV256 s sfIndexes = [x]"
  shows "appended h rt m ps x (m(getDirNodeIndex h rt (last ps) \<mapsto> setFieldU64 sfIndexNext k sl,
    rt \<mapsto> setFieldU64 sfIndexPrevious k sr, getDirNodeIndex h rt k \<mapsto> s)) (ps @ [k])" (is "appended h rt m ps x ?m _")
proof -
  let ?i = "getDirNodeIndex h rt"
  have ne: "ps \<noteq> []" using c by (simp add: chain_def)
  then have lp: "last ps \<in> set ps" "0 \<in> set ps" using chain_root_in [OF c] by auto
  have kn: "?i k \<noteq> ?i n" if "n \<in> set ps" for n using chain_Some [OF c that] fresh(1) by auto
  have knp: "k \<notin> set ps" using kn by blast
  have inj: "?i a = ?i b \<longleftrightarrow> a = b" if "a \<in> set (ps @ [k])" "b \<in> set (ps @ [k])" for a b
    using that separate_eq [OF sep] kn by (auto simp: eq_commute)
  have sep': "separate h rt (ps @ [k])"
    using sep inj fresh(2) by (auto simp: separate_def page_indexes_def inj_on_def)
  define pgu where "pgu = (pages h rt m)(last ps \<mapsto> setFieldU64 sfIndexNext k sl, 0 \<mapsto> setFieldU64 sfIndexPrevious k sr, k \<mapsto> s)"
  have rt: "?i a = rt \<longleftrightarrow> a = 0" if "a \<in> set (ps @ [k])" for a using inj [OF that, of 0] lp(2) by simp
  have pg: "?m (?i n) = pgu n" if "n \<in> set (ps @ [k])" for n
    using that inj [OF that] rt [OF that] lp by (auto simp: pgu_def)
  have rl: "rt = ?i (last ps) \<longleftrightarrow> last ps = 0" using rt [of "last ps"] lp by auto
  have "chain pgu (ps @ [k])" unfolding pgu_def
    by (rule chain_next [OF c k _ _ s(1,2)]) (use l r rl lp in \<open>auto split: if_splits\<close>)
  then have c': "chain (pages h rt ?m) (ps @ [k])" using chain_cong [of "ps @ [k]" "pages h rt ?m" pgu, OF pg] by blast
  have "contents (pages h rt ?m) (ps @ [k]) = contents pgu (ps @ [k])" by (rule contents_cong) (use pg in simp)
  moreover have "contents pgu ps = contents (pages h rt m) ps"
    by (rule contents_cong) (use l r rl lp knp in \<open>auto simp: pgu_def page_entries_def split: if_splits\<close>)
  ultimately have con: "contents (pages h rt ?m) (ps @ [k]) = contents (pages h rt m) ps @ [x]"
    by (simp add: pgu_def page_entries_def s(3))
  have "?m i = m i" if "i \<notin> page_indexes h rt (ps @ [k])" for i
    using that lp by (auto simp: page_indexes_def) (metis getDirNodeIndex_0 image_eqI)
  then show ?thesis using c' sep' con s(3) by (auto simp: appended_def dir_at_def page_entries_def)
qed

definition dir_added :: "(Blob \<Rightarrow> uint256) \<Rightarrow> uint256 \<Rightarrow> (uint256 \<rightharpoonup> SLE) \<Rightarrow> u64 list \<Rightarrow> uint256 \<Rightarrow> Ledger \<times> u32 \<Rightarrow>
    (TER \<times> u64) \<times> LedgerEntrySet \<Rightarrow> bool" where
  "dir_added h rt m ps x f r \<longleftrightarrow> fst (fst r) = tesSUCCESS \<and>
     (\<exists>m' D' ps'. state_is m' D' f (snd r) \<and> appended h rt m ps x m' ps' \<and> snd (fst r) = last ps')"

lemma dir_addedI: "state_is m' D' f les' \<Longrightarrow> appended h rt m ps x m' ps' \<Longrightarrow> n = last ps' \<Longrightarrow> dir_added h rt m ps x f ((tesSUCCESS, n), les')"
  by (auto simp: dir_added_def)

lemma dirAdd_fresh:
  assumes s: "state_is m D f les" and n: "m rt = None" and rt: "rt \<noteq> 0" and fd: "describes fd"
  shows "succeeds (dirAdd h rt x fd les) (dir_added h rt m [] x f)"
proof -
  define s1 where "s1 = setFieldV256 sfIndexes [x] (fd (setFieldH256 sfRootIndex rt (mkSLE ltDIR_NODE rt)) True)"
  have i: "mIndex s1 = rt" using fd by (simp add: s1_def describes_def)
  have a: "appended h rt m [] x (m(rt \<mapsto> s1)) [0]" unfolding s1_def by (rule appended_new [OF _ rt fd]) (rule n)
  have fin: "dir_added h rt m [] x f ((tesSUCCESS, 0), poke s1 les')" if "state_is (m(rt \<mapsto> mkSLE ltDIR_NODE rt)) (insert rt D) f les'" for les'
    using state_is_poke [OF that, of s1] i by (intro dir_addedI [OF _ a, of "insert rt D"]) simp_all
  have "succeeds (entryCreate ltDIR_NODE rt les') (\<lambda>(sle, les'). dir_added h rt m [] x f ((tesSUCCESS, 0), poke (setFieldV256 sfIndexes [x] (fd (setFieldH256 sfRootIndex rt sle) True)) les'))"
    if "state_is m D f les'" for les'
    by (rule wp_entryCreate [OF that n]) (simp add: fin [unfolded s1_def])
  then show ?thesis unfolding dirAdd_def succeeds_simps(3)
    by (intro wp_entryCache [OF s rt]) (simp add: n case_prod_unfold Let_def)
qed

text \<open>The two ways to add to a directory that exists: on its last page, or on a new one.\<close>

lemma add_on_last:
  assumes st: "state_is m D f les" and c: "chain (pages h rt m) ps" and sep: "separate h rt ps" and sl: "m (getDirNodeIndex h rt (last ps)) = Some sl"
  shows "succeeds (entryModify sl les) (\<lambda>les. dir_added h rt m ps x f ((tesSUCCESS, last ps), poke (setFieldV256 sfIndexes (getFieldV256 sl sfIndexes @ [x]) sl) les))"
proof -
  have i: "mIndex sl = getDirNodeIndex h rt (last ps)" using state_is_index [OF st sl] .
  let ?s = "setFieldV256 sfIndexes (getFieldV256 sl sfIndexes @ [x]) sl"
  show ?thesis
  proof (rule wp_entryModify [OF st i], simp add: sl)
    fix les2 assume "state_is (m(getDirNodeIndex h rt (last ps) \<mapsto> sl)) (insert (getDirNodeIndex h rt (last ps)) D) f les2"
    from state_is_poke [OF this, of ?s] i
    have "state_is (m(getDirNodeIndex h rt (last ps) \<mapsto> ?s)) (insert (getDirNodeIndex h rt (last ps)) D) f (poke ?s les2)" by simp
    then show "dir_added h rt m ps x f ((tesSUCCESS, last ps), poke ?s les2)"
      by (rule dir_addedI) (use appended_last [OF c sep sl] in simp_all)
  qed
qed

definition new_page :: "(Blob \<Rightarrow> uint256) \<Rightarrow> uint256 \<Rightarrow> u64 \<Rightarrow> uint256 \<Rightarrow> (SLE \<Rightarrow> bool \<Rightarrow> SLE) \<Rightarrow> SLE \<Rightarrow> SLE" where
  "new_page h rt k x fd sle = setFieldV256 sfIndexes [x] (fd (if k \<noteq> 1 then setFieldU64 sfIndexPrevious (k - 1) (setFieldH256 sfRootIndex rt sle)
     else setFieldH256 sfRootIndex rt sle) False)"

lemma add_on_next:
  assumes st: "state_is m D f les" and c: "chain (pages h rt m) ps" and sep: "separate h rt ps" and fd: "describes fd"
    and sl: "m (getDirNodeIndex h rt (last ps)) = Some sl" and sr: "m rt = Some sr" and kd: "k = last ps + 1"
    and k: "k \<noteq> 0" "m (getDirNodeIndex h rt k) = None" "getDirNodeIndex h rt k \<noteq> 0"
  shows "succeeds (entryModify (setFieldU64 sfIndexNext k sl) les) (\<lambda>les.
    succeeds (entryModify (setFieldU64 sfIndexPrevious k (deref sr les)) les) (\<lambda>les.
    succeeds (entryCreate ltDIR_NODE (getDirNodeIndex h rt k) les) (\<lambda>(sleNode, les).
      dir_added h rt m ps x f ((tesSUCCESS, k), poke (new_page h rt k x fd sleNode) les))))"
proof -
  let ?i = "getDirNodeIndex h rt"
  have i: "mIndex sr = rt" "mIndex sl = ?i (last ps)" using state_is_index [OF st] sr sl by auto
  define m1 where "m1 = m(?i (last ps) \<mapsto> setFieldU64 sfIndexNext k sl)"
  obtain sr1 where sr1: "m1 rt = Some sr1" using sr by (cases "m1 rt") (auto simp: m1_def split: if_splits)
  define m2 where "m2 = m1(rt \<mapsto> setFieldU64 sfIndexPrevious k sr1)"
  let ?new = "new_page h rt k x fd (mkSLE ltDIR_NODE (?i k))"
  have kn: "?i k \<noteq> ?i (last ps)" "?i k \<noteq> rt" using k(2) sl sr by auto
  have new: "mIndex ?new = ?i k" "getFieldU64 ?new sfIndexPrevious = last ps" "getFieldU64 ?new sfIndexNext = 0" "getFieldV256 ?new sfIndexes = [x]"
    using fd by (auto simp: new_page_def describes_def kd)
  have app: "appended h rt m ps x (m2(?i k \<mapsto> ?new)) (ps @ [k])" unfolding m2_def m1_def
    by (rule appended_next [OF c sep kd k sl sr1 [unfolded m1_def] new(2-4)])
  have s3: "succeeds (entryCreate ltDIR_NODE (?i k) les') (\<lambda>(sleNode, les). dir_added h rt m ps x f ((tesSUCCESS, k), poke (new_page h rt k x fd sleNode) les))"
    if st: "state_is m2 D' f les'" for les' D'
  proof (rule wp_entryCreate [OF st])
    show "m2 (?i k) = None" using k kn by (simp add: m2_def m1_def)
    fix les2 assume st2: "state_is (m2(?i k \<mapsto> mkSLE ltDIR_NODE (?i k))) (insert (?i k) D') f les2"
    have "state_is (m2(?i k \<mapsto> ?new)) (insert (?i k) D') f (poke ?new les2)" using state_is_poke [OF st2, of ?new] new(1) by simp
    then show "case (mkSLE ltDIR_NODE (?i k), les2) of (sleNode, les) \<Rightarrow> dir_added h rt m ps x f ((tesSUCCESS, k), poke (new_page h rt k x fd sleNode) les)"
      by (simp add: dir_addedI [OF _ app])
  qed
  have s2: "succeeds (entryModify (setFieldU64 sfIndexPrevious k (deref sr les')) les') (\<lambda>les'. succeeds (entryCreate ltDIR_NODE (?i k) les')
      (\<lambda>(sleNode, les). dir_added h rt m ps x f ((tesSUCCESS, k), poke (new_page h rt k x fd sleNode) les)))"
    if st: "state_is m1 D' f les'" for les' D'
  proof -
    have dr: "deref sr les' = sr1" using deref_state [OF st, of sr sr1] i sr1 by simp
    show ?thesis unfolding dr
      by (rule wp_entryModify [OF st, of _ rt], use state_is_index [OF st sr1] in simp, simp add: sr1, rule s3, simp add: m2_def)
  qed
  show ?thesis
    by (rule wp_entryModify [OF st, of _ "?i (last ps)"], simp add: i, simp add: sl, rule s2, simp add: m1_def)
qed

lemma dirAdd_spec:
  assumes s: "state_is m D f les" and d: "dir_at h rt m ps" and rt: "rt \<noteq> 0" and fd: "describes fd" and room: "room h rt m ps"
  shows "succeeds (dirAdd h rt x fd les) (dir_added h rt m ps x f)"
proof (cases "ps = []")
  case True
  then show ?thesis using dirAdd_fresh [OF s _ rt fd] d by (simp add: dir_at_def)
next
  case ne: False
  let ?i = "getDirNodeIndex h rt"
  have c: "chain (pages h rt m) ps" and sep: "separate h rt ps" using d ne by (auto simp: dir_at_def)
  have mem: "last ps \<in> set ps" "0 \<in> set ps" using ne chain_root_in [OF c] by auto
  obtain sr sl where sr: "m rt = Some sr" and sl: "m (?i (last ps)) = Some sl"
    using chain_Some [OF c mem(1)] chain_Some [OF c mem(2)] by auto
  have prev: "getFieldU64 sr sfIndexPrevious = last ps" using chain_root [OF c] sr by simp
  have page: "succeeds (if last ps \<noteq> 0 then bindE (entryCache ltDIR_NODE (?i (last ps)) les') nonnull else Inr (sr, les')) R"
    if st: "state_is m D f les'" and R: "\<And>les'. state_is m D f les' \<Longrightarrow> R (sl, les')" for les' R
  proof (cases "last ps = 0")
    case True
    then show ?thesis using R [OF st] sr sl by simp
  next
    case False
    have "succeeds (bindE (entryCache ltDIR_NODE (?i (last ps)) les') nonnull) R"
      by (rule wp_nonnull, rule wp_cache_page [OF st c sep mem(1)]) (use sl R in auto)
    then show ?thesis using False by simp
  qed
  have k: "last ps + 1 \<noteq> 0" "m (?i (last ps + 1)) = None" "?i (last ps + 1) \<noteq> 0" if "length (getFieldV256 sl sfIndexes) = DIR_NODE_MAX"
    using room that sl ne by (auto simp: room_def page_entries_def)
  note old = add_on_last [OF _ c sep sl, of D f _ x]
  note new = add_on_next [OF _ c sep fd sl sr refl k, of D f _ x, unfolded case_prod_unfold new_page_def]
  show ?thesis unfolding dirAdd_def succeeds_simps(3)
    by (rule wp_entryCache [OF s rt], simp only: case_prod_conv sr option.case prev Let_def succeeds_simps(3), rule page, assumption)
      (use old new k in \<open>auto simp: case_prod_unfold Let_def\<close>)
qed

text \<open>
  C14. Adding to a directory: for a directory that is properly linked or does not exist yet, \<open>dirAdd\<close>
  succeeds and appends the entry to its contents, on its last page or on a new one when that page
  holds 32 entries. The page number it returns is that of the page with the entry, the pages are
  properly linked again, and nothing outside the directory changes.
\<close>

theorem dirAdd_appends:
  assumes "les_ok les" "dir_at h rt (view les) ps" "rt \<noteq> 0" "describes fd" "room h rt (view les) ps"
  shows "\<exists>les' ps'. dirAdd h rt x fd les = Inr ((tesSUCCESS, last ps'), les') \<and> les_ok les' \<and> mLedger les' = mLedger les \<and>
     ps' \<noteq> [] \<and> chain (pages h rt (view les')) ps' \<and> separate h rt ps' \<and> set ps \<subseteq> set ps' \<and>
     contents (pages h rt (view les')) ps' = contents (pages h rt (view les)) ps @ [x] \<and>
     x \<in> set (page_entries (pages h rt (view les') (last ps'))) \<and>
     (\<forall>i. i \<notin> page_indexes h rt ps' \<longrightarrow> view les' i = view les i)"
proof -
  obtain ter n les' m' D' ps' where r: "dirAdd h rt x fd les = Inr ((ter, n), les')" "ter = tesSUCCESS" "n = last ps'"
    and p: "state_is m' D' (mLedger les, mParams les) les'" "appended h rt (view les) ps x m' ps'"
    using dirAdd_spec [OF state_isI [OF assms(1)] assms(2-5), of x] by (auto simp: succeeds_iff dir_added_def)
  have "view les' = m'" "les_ok les'" "mLedger les' = mLedger les" using p(1) by (auto simp: state_is_def)
  then show ?thesis using r p(2) by (intro exI [of _ les'] exI [of _ ps']) (simp add: appended_def dir_at_def)
qed

subsection \<open>Iterating\<close>

text \<open>A position in a directory and the entries that follow it.\<close>

definition cursor :: "(Blob \<Rightarrow> uint256) \<Rightarrow> uint256 \<Rightarrow> (uint256 \<rightharpoonup> SLE) \<Rightarrow> u64 list \<Rightarrow> SLE \<Rightarrow> u32 \<Rightarrow> uint256 list \<Rightarrow> bool" where
  "cursor h rt m ps sle j rest \<longleftrightarrow> (\<exists>as n bs. ps = as @ n # bs \<and> pages h rt m n = Some sle \<and>
     unat j \<le> length (getFieldV256 sle sfIndexes) \<and> rest = drop (unat j) (getFieldV256 sle sfIndexes) @ contents (pages h rt m) bs)"

definition small_pages :: "(Blob \<Rightarrow> uint256) \<Rightarrow> uint256 \<Rightarrow> (uint256 \<rightharpoonup> SLE) \<Rightarrow> u64 list \<Rightarrow> bool" where
  "small_pages h rt m ps \<longleftrightarrow> (\<forall>n \<in> set ps. length (page_entries (pages h rt m n)) < 2 ^ 32)"

lemma cache_page:
  assumes "state_is m D f les" "separate h rt ps" "n \<in> set ps" "m (getDirNodeIndex h rt n) = Some sle"
  shows "\<exists>les'. entryCache ltDIR_NODE (getDirNodeIndex h rt n) les = Inr (Some sle, les') \<and> state_is m D f les'"
  using wp_entryCache [OF assms(1) separate_ne [OF assms(2,3)], of "\<lambda>(x, l). x = Some sle \<and> state_is m D f l" ltDIR_NODE] assms(4)
  by (auto simp: succeeds_iff)

lemma seg_link:
  assumes "chain pg (as @ n # bs)" "pg n = Some sle"
  shows "getFieldU64 sle sfIndexNext = hd (bs @ [0])"
  using assms by (auto simp: chain_def seg_append)

lemma dirNext_here:
  assumes "ps = as @ n # bs" "pages h rt m n = Some sle" "unat j < length (getFieldV256 sle sfIndexes)" "small_pages h rt m ps"
  shows "dirNext h rt sle j e les = Some (Inr ((True, sle, j + 1, getFieldV256 sle sfIndexes ! unat j), les)) \<and>
    cursor h rt m ps sle (j + 1) (drop (Suc (unat j)) (getFieldV256 sle sfIndexes) @ contents (pages h rt m) bs)"
proof -
  have "length (getFieldV256 sle sfIndexes) < 2 ^ 32" using assms(1,2,4) by (auto simp: small_pages_def page_entries_def)
  then have "unat (j + 1) = Suc (unat j)" using assms(3) by (simp add: unat_word_ariths)
  then show ?thesis using assms(1-3) unfolding cursor_def
    by (simp add: dirNext.simps [of h rt sle j]) (intro exI [of _ as] exI [of _ n] exI [of _ bs], simp)
qed

lemma dirNext_correct:
  assumes "state_is m D f les" "chain (pages h rt m) ps" "separate h rt ps" "small_pages h rt m ps" "cursor h rt m ps sle j rest"
  shows "\<exists>r les'. dirNext h rt sle j e les = Some (Inr (r, les')) \<and> state_is m D f les' \<and>
    (case rest of [] \<Rightarrow> \<not> fst r | x # xs \<Rightarrow> (\<exists>sle' j'. r = (True, sle', j', x) \<and> cursor h rt m ps sle' j' xs))"
proof -
  obtain as n bs where "ps = as @ n # bs" "pages h rt m n = Some sle"
    "unat j \<le> length (getFieldV256 sle sfIndexes)" "rest = drop (unat j) (getFieldV256 sle sfIndexes) @ contents (pages h rt m) bs"
    using assms(5) by (auto simp: cursor_def)
  then show ?thesis using assms(1)
  proof (induction bs arbitrary: as n sle j les)
    case (Nil as n sle j les)
    show ?case
    proof (cases "unat j < length (getFieldV256 sle sfIndexes)")
      case True
      then show ?thesis using Nil.prems dirNext_here [OF Nil.prems(1,2) True assms(4)] by (simp add: Cons_nth_drop_Suc [symmetric])
    next
      case False
      then show ?thesis using Nil.prems seg_link [OF assms(2) [unfolded Nil.prems(1)] Nil.prems(2)] by (simp add: dirNext.simps [of h rt sle j])
    qed
  next
    case (Cons k bs as n sle j les)
    note c = assms(2) [unfolded Cons.prems(1)]
    show ?case
    proof (cases "unat j < length (getFieldV256 sle sfIndexes)")
      case True
      then show ?thesis using Cons.prems dirNext_here [OF Cons.prems(1,2) True assms(4)] by (simp add: Cons_nth_drop_Suc [symmetric])
    next
      case False
      have kin: "k \<in> set ps" using Cons.prems(1) by simp
      have nx: "getFieldU64 sle sfIndexNext = k" "k \<noteq> 0" using seg_link [OF c Cons.prems(2)] chain_hd_pos [OF c] by auto
      obtain s2 where s2: "m (getDirNodeIndex h rt k) = Some s2" using chain_Some [OF assms(2) kin] by auto
      obtain les2 where l2: "entryCache ltDIR_NODE (getDirNodeIndex h rt k) les = Inr (Some s2, les2)" "state_is m D f les2"
        using cache_page [OF Cons.prems(5) assms(3) kin s2] by blast
      have "rest = drop (unat 0) (getFieldV256 s2 sfIndexes) @ contents (pages h rt m) bs"
        using Cons.prems(3,4) False s2 by (simp add: page_entries_def)
      with Cons.IH [of "as @ [n]" k s2 0 les2] Cons.prems(1) s2 l2(2)
      have "\<exists>r les'. dirNext h rt s2 0 e les2 = Some (Inr (r, les')) \<and> state_is m D f les' \<and>
        (case rest of [] \<Rightarrow> \<not> fst r | x # xs \<Rightarrow> (\<exists>sle' j'. r = (True, sle', j', x) \<and> cursor h rt m ps sle' j' xs))" by simp
      then show ?thesis using False nx l2(1) by (simp add: dirNext.simps [of h rt sle j])
    qed
  qed
qed

text \<open>The loop over a directory: \<open>dirFirst\<close>, and \<open>dirNext\<close> as long as there was an entry; the entries it sees.\<close>

inductive dir_visits :: "(Blob \<Rightarrow> uint256) \<Rightarrow> uint256 \<Rightarrow> bool \<times> SLE \<times> u32 \<times> uint256 \<Rightarrow> LedgerEntrySet \<Rightarrow> uint256 list \<Rightarrow> bool"
  for h rt where
  stop: "dir_visits h rt (False, sle, j, x) les []"
| step: "dirNext h rt sle j x les = Some (Inr (r, les')) \<Longrightarrow> dir_visits h rt r les' xs \<Longrightarrow> dir_visits h rt (True, sle, j, x) les (x # xs)"

lemma dirNext_visits:
  assumes c: "chain (pages h rt m) ps" "separate h rt ps" "small_pages h rt m ps"
  shows "state_is m D f les \<Longrightarrow> cursor h rt m ps sle j rest \<Longrightarrow>
    \<exists>r les'. dirNext h rt sle j e les = Some (Inr (r, les')) \<and> state_is m D f les' \<and> dir_visits h rt r les' rest"
proof (induction rest arbitrary: sle j e les)
  case Nil
  then obtain r les' where "dirNext h rt sle j e les = Some (Inr (r, les'))" "state_is m D f les'" "\<not> fst r"
    using dirNext_correct [OF Nil.prems(1) c Nil.prems(2), of e] by auto
  then show ?case using dir_visits.stop by (cases r) auto
next
  case (Cons x xs)
  then obtain les' sle' j' where *: "dirNext h rt sle j e les = Some (Inr ((True, sle', j', x), les'))" "state_is m D f les'"
    "cursor h rt m ps sle' j' xs"
    using dirNext_correct [OF Cons.prems(1) c Cons.prems(2), of e] by auto
  then show ?case using Cons.IH [OF *(2,3), of x] dir_visits.step [of h rt sle' j' x les'] by blast
qed

text \<open>
  C15. Walking a directory ends and sees it all: for a properly linked directory the loop of \<open>dirFirst\<close>
  and \<open>dirNext\<close> runs to its end, and the entries it sees are exactly the contents, in order.
\<close>

theorem dir_walk:
  assumes "les_ok les" "chain (pages h rt (view les)) ps" "separate h rt ps" "small_pages h rt (view les) ps"
  shows "\<exists>r les'. dirFirst h rt les = Some (Inr (r, les')) \<and> dir_visits h rt r les' (contents (pages h rt (view les)) ps)"
proof -
  let ?m = "view les" and ?f = "(mLedger les, mParams les)"
  obtain qs where ps: "ps = 0 # qs" using assms(2) by (cases ps) (auto simp: chain_def)
  obtain sle where sle: "?m rt = Some sle" using chain_Some [OF assms(2), of 0] ps by auto
  obtain les2 where l2: "entryCache ltDIR_NODE rt les = Inr (Some sle, les2)" "state_is ?m {} ?f les2"
    using cache_page [OF state_isI [OF assms(1)] assms(3), of 0] ps sle by auto
  have "cursor h rt ?m ps sle 0 (contents (pages h rt ?m) ps)"
    unfolding cursor_def using ps sle by (intro exI [of _ "[]"] exI [of _ 0] exI [of _ qs]) (simp add: page_entries_def)
  from dirNext_visits [OF assms(2-4) l2(2) this, of 0] show ?thesis using l2(1) by (auto simp: dirFirst_def)
qed

text \<open>
  Counting a directory ends with the number of its entries, modulo two to the 32.
\<close>

theorem dirCount_counts:
  assumes "les_ok les" "chain (pages h rt (view les)) ps" "separate h rt ps"
  shows "\<exists>les'. dirCount h rt les = Some (Inr ((tesSUCCESS, of_nat (length (contents (pages h rt (view les)) ps))), les'))"
proof -
  let ?m = "view les" and ?f = "(mLedger les, mParams les)"
  have loop: "\<exists>les'. dirCount_loop h rt n c l = Some (Inr ((tesSUCCESS, c + of_nat (length (contents (pages h rt ?m) (n # bs)))), les'))"
    if "ps = as @ n # bs" "state_is ?m {} ?f l" for as n bs c l
    using that
  proof (induction bs arbitrary: as n c l)
    case (Nil as n c l)
    have nin: "n \<in> set ps" using Nil.prems by simp
    obtain sle where sle: "?m (getDirNodeIndex h rt n) = Some sle" using chain_Some [OF assms(2) nin] by auto
    obtain l2 where l2: "entryCache ltDIR_NODE (getDirNodeIndex h rt n) l = Inr (Some sle, l2)" "state_is ?m {} ?f l2"
      using cache_page [OF Nil.prems(2) assms(3) nin sle] by blast
    show ?case using l2 sle seg_link [OF assms(2) [unfolded Nil.prems(1)] sle]
      by (simp add: dirCount_loop.simps [of h rt n] page_entries_def)
  next
    case (Cons k bs as n c l)
    have nin: "n \<in> set ps" using Cons.prems by simp
    obtain sle where sle: "?m (getDirNodeIndex h rt n) = Some sle" using chain_Some [OF assms(2) nin] by auto
    obtain l2 where l2: "entryCache ltDIR_NODE (getDirNodeIndex h rt n) l = Inr (Some sle, l2)" "state_is ?m {} ?f l2"
      using cache_page [OF Cons.prems(2) assms(3) nin sle] by blast
    have "getFieldU64 sle sfIndexNext = k" "k \<noteq> 0"
      using seg_link [OF assms(2) [unfolded Cons.prems(1)] sle] chain_hd_pos [OF assms(2) [unfolded Cons.prems(1)]] by auto
    then show ?case using l2 sle Cons.IH [of "as @ [n]" k l2 "c + of_nat (length (getFieldV256 sle sfIndexes))"] Cons.prems(1)
      by (simp add: dirCount_loop.simps [of h rt n] page_entries_def add.assoc)
  qed
  obtain qs where ps: "ps = 0 # qs" using assms(2) by (cases ps) (auto simp: chain_def)
  show ?thesis using loop [of "[]" 0 qs les 0] ps state_isI [OF assms(1)] by (simp add: dirCount_def)
qed

subsection \<open>An example directory\<close>

definition sample_page :: "uint256 \<Rightarrow> u64 \<Rightarrow> u64 \<Rightarrow> uint256 list \<Rightarrow> SLE" where
  "sample_page i prev nxt xs =
     setFieldV256 sfIndexes xs (setFieldU64 sfIndexPrevious prev (setFieldU64 sfIndexNext nxt (mkSLE ltDIR_NODE i)))"

definition last_byte :: "Blob \<Rightarrow> uint256" where
  "last_byte b = 100 + ucast (last b)"

definition dir_les :: LedgerEntrySet where
  "dir_les = init (sample_ledger\<lparr>mAccountStateMap :=
     [(9, sample_page 9 2 1 [5]), (101, sample_page 101 0 2 [6]), (102, sample_page 102 1 0 [7])]\<rparr>) 0 0 0 sample_les"

lemma dir_les_index [simp]: "getDirNodeIndex last_byte 9 1 = 101" "getDirNodeIndex last_byte 9 2 = 102"
  by code_simp+

lemma dir_les_view: "view dir_les = [9 \<mapsto> sample_page 9 2 1 [5], 101 \<mapsto> sample_page 101 0 2 [6], 102 \<mapsto> sample_page 102 1 0 [7]]"
  by (simp add: dir_les_def init_ok) (auto simp: getSLE_def fun_eq_iff)

lemma sample_page_sel [simp]: "mIndex (sample_page i p n xs) = i" "getFieldU64 (sample_page i p n xs) sfIndexPrevious = p"
  "getFieldU64 (sample_page i p n xs) sfIndexNext = n" "getFieldV256 (sample_page i p n xs) sfIndexes = xs"
  by (simp_all add: sample_page_def)

lemma dir_les_ok: "les_ok dir_les"
proof -
  let ?l = "sample_ledger\<lparr>mAccountStateMap :=
     [(9, sample_page 9 2 1 [5]), (101, sample_page 101 0 2 [6]), (102, sample_page 102 1 0 [7])]\<rparr>"
  have "getSLE ?l = view dir_les" by (simp add: dir_les_def init_ok)
  then have "ledger_ok ?l" unfolding ledger_ok_def dir_les_view by (auto split: if_splits)
  then show ?thesis by (simp add: dir_les_def init_ok)
qed

lemma dir_les_chain: "chain (pages last_byte 9 (view dir_les)) [0, 1, 2]"
  by (simp add: chain_def dir_les_view)

lemma dir_les_separate: "separate last_byte 9 [0, 1, 2]"
  by (simp add: separate_def page_indexes_def)

lemma dir_les_contents: "contents (pages last_byte 9 (view dir_les)) [0, 1, 2] = [5, 6, 7]"
  by (simp add: dir_les_view page_entries_def)


theorem dirAdd_appends_witness:
  "\<exists>les' ps'. dirAdd last_byte 9 8 (ownerDirDescriber 1) dir_les = Inr ((tesSUCCESS, last ps'), les') \<and>
     contents (pages last_byte 9 (view les')) ps' = [5, 6, 7, 8]"
proof -
  have "dir_at last_byte 9 (view dir_les) [0, 1, 2]" using dir_les_chain dir_les_separate by (simp add: dir_at_def)
  moreover have "room last_byte 9 (view dir_les) [0, 1, 2]" by (simp add: room_def dir_les_view page_entries_def DIR_NODE_MAX_def)
  ultimately show ?thesis
    using dirAdd_appends [OF dir_les_ok _ _ ownerDirDescriber_describes, of last_byte 9 "[0, 1, 2]" 8 1] dir_les_contents by fastforce
qed

theorem dir_walk_witness: "\<exists>r les'. dirFirst last_byte 9 dir_les = Some (Inr (r, les')) \<and> dir_visits last_byte 9 r les' [5, 6, 7]"
  using dir_walk [OF dir_les_ok dir_les_chain dir_les_separate]
  by (simp add: dir_les_contents) (simp add: small_pages_def dir_les_view page_entries_def)

theorem dirCount_counts_witness: "\<exists>les'. dirCount last_byte 9 dir_les = Some (Inr ((tesSUCCESS, 3), les'))"
  using dirCount_counts [OF dir_les_ok dir_les_chain dir_les_separate] by (simp add: dir_les_view page_entries_def)


end
