(* ===== verification/Credit.thy ===== *)
theory Credit
  imports Directory
begin

text \<open>
  Balances, trust lines and sending: the second half of ripple_app/ledger/LedgerEntrySet.cpp, from
  \<open>ownerCountAdjust\<close> to \<open>accountSend\<close>. Operations that throw return \<open>Inl\<close>; the C++ asserts, which
  a release build leaves out, are not part of the model. Shown here: a native send between two accounts
  conserves the sum of their balances or changes nothing, a credit on an existing line moves its balance
  and nothing else, and a direct \<open>rippleSend\<close> hides the failure of its credit.
\<close>

unbundle bit_operations_syntax

subsection \<open>Small operations of amounts\<close>

text \<open>A default amount after \<open>clear (currency, issuer)\<close>, and the native comparisons with 64-bit integers.\<close>

definition clear_amount :: "uint160 \<Rightarrow> uint160 \<Rightarrow> STAmount" where
  "clear_amount uCurrencyID uIssuerID = \<lparr>mCurrency = uCurrencyID, mIssuer = uIssuerID, mValue = 0,
     mOffset = (if uCurrencyID = 0 then 0 else -100), mIsNative = (uCurrencyID = 0), mIsNegative = False\<rparr>"

definition amount_less_u64 :: "STAmount \<Rightarrow> u64 \<Rightarrow> exn + bool" where
  "amount_less_u64 a v = bindE (getSNValue a) (\<lambda>n. Inr (n < sint v))"

definition amount_minus_u64 :: "STAmount \<Rightarrow> u64 \<Rightarrow> exn + STAmount" where
  "amount_minus_u64 a v = bindE (getSNValue a) (\<lambda>n. Inr (mkNativeS (s64 (n - sint v))))"

subsection \<open>Owner counts and offers\<close>

text \<open>
  \<open>iAmount + int (uOwnerCount)\<close> is taken without overflow. The clamped count \<open>uNew\<close> only decides
  whether to write; what is written is the unclamped sum.
\<close>

definition ownerCountAdjust :: "(Blob \<Rightarrow> uint256) \<Rightarrow> uint160 \<Rightarrow> int \<Rightarrow> SLE option \<Rightarrow> LedgerEntrySet \<Rightarrow> exn + LedgerEntrySet" where
  "ownerCountAdjust h uOwnerID iAmount sleAccountRoot les =
     bindE (case sleAccountRoot of
              None \<Rightarrow> bindE (entryCache ltACCOUNT_ROOT (getAccountRootIndex h uOwnerID) les) nonnull
            | Some sle \<Rightarrow> Inr (sle, les)) (\<lambda>(sleRoot, les).
     let uOwnerCount = getFieldU32 sleRoot sfOwnerCount;
         uNew = (if iAmount + sint uOwnerCount > 0 then uOwnerCount + word_of_int iAmount else 0)
     in if uOwnerCount \<noteq> uNew
        then entryModify (setFieldU32 sfOwnerCount (uOwnerCount + word_of_int iAmount) sleRoot) les
        else Inr les)"

definition offerDelete_sle :: "(Blob \<Rightarrow> uint256) \<Rightarrow> SLE \<Rightarrow> LedgerEntrySet \<Rightarrow> exn + TER \<times> LedgerEntrySet" where
  "offerDelete_sle h sleOffer les =
     (let offerIndex = mIndex sleOffer;
          uOwnerID = getFieldAccount160 sleOffer sfAccount;
          bOwnerNode = isFieldPresent sleOffer sfOwnerNode;
          uOwnerNode = getFieldU64 sleOffer sfOwnerNode;
          uDirectory = getFieldH256 sleOffer sfBookDirectory;
          uBookNode = getFieldU64 sleOffer sfBookNode
      in bindE (dirDelete h False uOwnerNode (getOwnerDirIndex h uOwnerID) offerIndex False (\<not> bOwnerNode) les) (\<lambda>(terResult, les).
         bindE (dirDelete h False uBookNode uDirectory offerIndex True False les) (\<lambda>(terResult2, les).
         bindE (if tesSUCCESS = terResult then ownerCountAdjust h uOwnerID (-1) None les else Inr les) (\<lambda>les.
         bindE (entryDelete sleOffer les) (\<lambda>les.
         Inr (if terResult = tesSUCCESS then terResult2 else terResult, les))))))"

definition offerDelete :: "(Blob \<Rightarrow> uint256) \<Rightarrow> uint256 \<Rightarrow> LedgerEntrySet \<Rightarrow> exn + TER \<times> LedgerEntrySet" where
  "offerDelete h uOfferIndex les =
     bindE (entryCache ltOFFER uOfferIndex les) (\<lambda>(sleOffer, les).
     case sleOffer of None \<Rightarrow> Inr (tesSUCCESS, les) | Some sleOffer \<Rightarrow> offerDelete_sle h sleOffer les)"

subsection \<open>Balances and limits\<close>

definition frozen :: "uint160 \<Rightarrow> uint160 \<Rightarrow> SLE \<Rightarrow> SLE \<Rightarrow> bool" where
  "frozen account issuer sleIssuer sleRippleState \<longleftrightarrow> isFlag sleIssuer lsfRequireAuth \<and>
     isFlag sleRippleState (if account > issuer then lsfHighAuth else lsfLowAuth)"

definition rippleOwed :: "(Blob \<Rightarrow> uint256) \<Rightarrow> uint160 \<Rightarrow> uint160 \<Rightarrow> uint160 \<Rightarrow> LedgerEntrySet \<Rightarrow> exn + STAmount \<times> LedgerEntrySet" where
  "rippleOwed h uToAccountID uFromAccountID uCurrencyID les =
     bindE (entryCache ltRIPPLE_STATE (getRippleStateIndex h uToAccountID uFromAccountID uCurrencyID) les) (\<lambda>(sleRippleState, les).
     case sleRippleState of
       None \<Rightarrow> Inr (clear_amount uCurrencyID uToAccountID, les)
     | Some sleRippleState \<Rightarrow>
         bindE (entryCache ltACCOUNT_ROOT (getAccountRootIndex h uToAccountID) les) (\<lambda>(sleIssuer, les).
         if (case sleIssuer of None \<Rightarrow> False | Some sleIssuer \<Rightarrow> frozen uFromAccountID uToAccountID sleIssuer sleRippleState)
         then Inr (mkNative 0 False, les)
         else
           let saBalance = getFieldAmount sleRippleState sfBalance;
               saBalance = (if uToAccountID < uFromAccountID then negate saBalance else saBalance)
           in Inr (saBalance\<lparr>mIssuer := uToAccountID\<rparr>, les)))"

definition rippleLimit :: "(Blob \<Rightarrow> uint256) \<Rightarrow> uint160 \<Rightarrow> uint160 \<Rightarrow> uint160 \<Rightarrow> LedgerEntrySet \<Rightarrow> exn + STAmount \<times> LedgerEntrySet" where
  "rippleLimit h uToAccountID uFromAccountID uCurrencyID les =
     bindE (entryCache ltRIPPLE_STATE (getRippleStateIndex h uToAccountID uFromAccountID uCurrencyID) les) (\<lambda>(sleRippleState, les).
     case sleRippleState of
       None \<Rightarrow> Inr (clear_amount uCurrencyID uToAccountID, les)
     | Some sleRippleState \<Rightarrow>
         Inr ((getFieldAmount sleRippleState (if uToAccountID < uFromAccountID then sfLowLimit else sfHighLimit))
                \<lparr>mIssuer := uToAccountID\<rparr>, les))"

definition rippleTransferRateOf :: "(Blob \<Rightarrow> uint256) \<Rightarrow> uint160 \<Rightarrow> LedgerEntrySet \<Rightarrow> exn + u32 \<times> LedgerEntrySet" where
  "rippleTransferRateOf h uIssuerID les =
     bindE (entryCache ltACCOUNT_ROOT (getAccountRootIndex h uIssuerID) les) (\<lambda>(sleAccount, les).
     Inr (case sleAccount of
            None \<Rightarrow> QUALITY_ONE
          | Some sle \<Rightarrow> if isFieldPresent sle sfTransferRate then getFieldU32 sle sfTransferRate else QUALITY_ONE, les))"

definition rippleTransferRate :: "(Blob \<Rightarrow> uint256) \<Rightarrow> uint160 \<Rightarrow> uint160 \<Rightarrow> uint160 \<Rightarrow> LedgerEntrySet \<Rightarrow> exn + u32 \<times> LedgerEntrySet" where
  "rippleTransferRate h uSenderID uReceiverID uIssuerID les =
     (if uSenderID = uIssuerID \<or> uReceiverID = uIssuerID then Inr (QUALITY_ONE, les)
      else rippleTransferRateOf h uIssuerID les)"

definition rippleQualityIn :: "(Blob \<Rightarrow> uint256) \<Rightarrow> uint160 \<Rightarrow> uint160 \<Rightarrow> uint160 \<Rightarrow> sfield \<Rightarrow> sfield \<Rightarrow> LedgerEntrySet \<Rightarrow> exn + u32 \<times> LedgerEntrySet" where
  "rippleQualityIn h uToAccountID uFromAccountID uCurrencyID sfLow sfHigh les =
     (if uToAccountID = uFromAccountID then Inr (QUALITY_ONE, les)
      else
        bindE (entryCache ltRIPPLE_STATE (getRippleStateIndex h uToAccountID uFromAccountID uCurrencyID) les) (\<lambda>(sleRippleState, les).
        Inr (case sleRippleState of
               None \<Rightarrow> QUALITY_ONE
             | Some sle \<Rightarrow>
                 let sfField = (if uToAccountID < uFromAccountID then sfLow else sfHigh);
                     uQuality = (if isFieldPresent sle sfField then getFieldU32 sle sfField else QUALITY_ONE)
                 in if uQuality = 0 then 1 else uQuality, les)))"

definition rippleQualityOut :: "(Blob \<Rightarrow> uint256) \<Rightarrow> uint160 \<Rightarrow> uint160 \<Rightarrow> uint160 \<Rightarrow> LedgerEntrySet \<Rightarrow> exn + u32 \<times> LedgerEntrySet" where
  "rippleQualityOut h uToAccountID uFromAccountID uCurrencyID les =
     rippleQualityIn h uToAccountID uFromAccountID uCurrencyID sfLowQualityOut sfHighQualityOut les"

definition rippleHolds :: "(Blob \<Rightarrow> uint256) \<Rightarrow> uint160 \<Rightarrow> uint160 \<Rightarrow> uint160 \<Rightarrow> LedgerEntrySet \<Rightarrow> exn + STAmount \<times> LedgerEntrySet" where
  "rippleHolds h uAccountID uCurrencyID uIssuerID les =
     bindE (entryCache ltRIPPLE_STATE (getRippleStateIndex h uAccountID uIssuerID uCurrencyID) les) (\<lambda>(sleRippleState, les).
     case sleRippleState of
       None \<Rightarrow> Inr (clear_amount uCurrencyID uIssuerID, les)
     | Some sleRippleState \<Rightarrow>
         bindE (entryCache ltACCOUNT_ROOT (getAccountRootIndex h uIssuerID) les) (\<lambda>(sleIssuer, les).
         case sleIssuer of
           None \<Rightarrow> Inr (mkNative 0 False, les)
         | Some sleIssuer \<Rightarrow>
             if frozen uAccountID uIssuerID sleIssuer sleRippleState then Inr (mkNative 0 False, les)
             else
               let saBalance = getFieldAmount sleRippleState sfBalance;
                   saBalance = (if uAccountID > uIssuerID then negate saBalance else saBalance)
               in Inr (saBalance\<lparr>mIssuer := uIssuerID\<rparr>, les)))"

definition accountHolds :: "(Blob \<Rightarrow> uint256) \<Rightarrow> Config \<Rightarrow> uint160 \<Rightarrow> uint160 \<Rightarrow> uint160 \<Rightarrow> LedgerEntrySet \<Rightarrow> exn + STAmount \<times> LedgerEntrySet" where
  "accountHolds h cfg uAccountID uCurrencyID uIssuerID les =
     (if uCurrencyID = 0 then
        bindE (bindE (entryCache ltACCOUNT_ROOT (getAccountRootIndex h uAccountID) les) nonnull) (\<lambda>(sleAccount, les).
        let uReserve = getReserve h cfg (mLedger les) (getFieldU32 sleAccount sfOwnerCount);
            saBalance = getFieldAmount sleAccount sfBalance
        in bindE (amount_less_u64 saBalance uReserve) (\<lambda>below.
           if below then Inr (mkNative 0 False, les)
           else bindE (amount_minus_u64 saBalance uReserve) (\<lambda>saAmount. Inr (saAmount, les))))
      else rippleHolds h uAccountID uCurrencyID uIssuerID les)"

definition accountFunds :: "(Blob \<Rightarrow> uint256) \<Rightarrow> Config \<Rightarrow> uint160 \<Rightarrow> STAmount \<Rightarrow> LedgerEntrySet \<Rightarrow> exn + STAmount \<times> LedgerEntrySet" where
  "accountFunds h cfg uAccountID saDefault les =
     (if \<not> mIsNative saDefault \<and> mIssuer saDefault = uAccountID then Inr (saDefault, les)
      else accountHolds h cfg uAccountID (mCurrency saDefault) (mIssuer saDefault) les)"

definition rippleTransferFee :: "'bn bignum_ops \<Rightarrow> (Blob \<Rightarrow> uint256) \<Rightarrow> uint160 \<Rightarrow> uint160 \<Rightarrow> uint160 \<Rightarrow> STAmount \<Rightarrow> LedgerEntrySet \<Rightarrow>
    exn + STAmount \<times> LedgerEntrySet" where
  "rippleTransferFee ops h uSenderID uReceiverID uIssuerID saAmount les =
     (let none = (\<lambda>les. bindE (mkAmount (mCurrency saAmount) (mIssuer saAmount) 0 0 False) (\<lambda>z. Inr (z, les))) in
      if uSenderID \<noteq> uIssuerID \<and> uReceiverID \<noteq> uIssuerID then
        bindE (rippleTransferRateOf h uIssuerID les) (\<lambda>(uTransitRate, les).
        if QUALITY_ONE \<noteq> uTransitRate then
          bindE (mkAmount CURRENCY_ONE ACCOUNT_ONE (ucast uTransitRate) (-9) False) (\<lambda>saTransitRate.
          bindE (multiply ops saAmount saTransitRate (mCurrency saAmount) (mIssuer saAmount)) (\<lambda>saTransferTotal.
          bindE (amount_sub saTransferTotal saAmount) (\<lambda>saTransferFee. Inr (saTransferFee, les))))
        else none les)
      else none les)"

subsection \<open>Trust lines\<close>

definition trustCreate :: "(Blob \<Rightarrow> uint256) \<Rightarrow> bool \<Rightarrow> uint160 \<Rightarrow> uint160 \<Rightarrow> uint256 \<Rightarrow> SLE option \<Rightarrow> bool \<Rightarrow> bool \<Rightarrow>
    STAmount \<Rightarrow> STAmount \<Rightarrow> u32 \<Rightarrow> u32 \<Rightarrow> LedgerEntrySet \<Rightarrow> exn + TER \<times> LedgerEntrySet" where
  "trustCreate h bSrcHigh uSrcAccountID uDstAccountID uIndex sleAccount bAuth bNoRipple saBalance saLimit uQualityIn uQualityOut les =
     (let uLowAccountID = (if \<not> bSrcHigh then uSrcAccountID else uDstAccountID);
          uHighAccountID = (if bSrcHigh then uSrcAccountID else uDstAccountID)
      in bindE (entryCreate ltRIPPLE_STATE uIndex les) (\<lambda>(sleRippleState, les).
         bindE (dirAdd h (getOwnerDirIndex h uLowAccountID) (mIndex sleRippleState) (ownerDirDescriber uLowAccountID) les) (\<lambda>((terResult, uLowNode), les).
         if tesSUCCESS \<noteq> terResult then Inr (terResult, les) else
         bindE (dirAdd h (getOwnerDirIndex h uHighAccountID) (mIndex sleRippleState) (ownerDirDescriber uHighAccountID) les) (\<lambda>((terResult, uHighNode), les).
         if tesSUCCESS \<noteq> terResult then Inr (terResult, les) else
         let bSetDst = (mIssuer saLimit = uDstAccountID);
             bSetHigh = (bSrcHigh \<noteq> bSetDst);
             sle = setFieldU64 sfLowNode uLowNode sleRippleState;
             sle = setFieldU64 sfHighNode uHighNode sle;
             sle = setFieldAmount (if \<not> bSetHigh then sfLowLimit else sfHighLimit) saLimit sle
         in bindE (mkAmount (mCurrency saBalance) (if bSetDst then uSrcAccountID else uDstAccountID) 0 0 False) (\<lambda>saZero.
         let sle = setFieldAmount (if bSetHigh then sfLowLimit else sfHighLimit) saZero sle;
             sle = (if uQualityIn \<noteq> 0 then setFieldU32 (if \<not> bSetHigh then sfLowQualityIn else sfHighQualityIn) uQualityIn sle else sle);
             sle = (if uQualityOut \<noteq> 0 then setFieldU32 (if \<not> bSetHigh then sfLowQualityOut else sfHighQualityOut) uQualityOut sle else sle);
             uFlags = (if \<not> bSetHigh then lsfLowReserve else lsfHighReserve);
             uFlags = (if bAuth then uFlags OR (if \<not> bSetHigh then lsfLowAuth else lsfHighAuth) else uFlags);
             uFlags = (if bNoRipple then uFlags OR (if \<not> bSetHigh then lsfLowNoRipple else lsfHighNoRipple) else uFlags);
             sle = setFieldU32 sfFlags uFlags sle
         in bindE (ownerCountAdjust h (if \<not> bSetDst then uSrcAccountID else uDstAccountID) 1
                     (map_option (\<lambda>s. deref s les) sleAccount) (poke sle les)) (\<lambda>les.
         Inr (tesSUCCESS, poke (setFieldAmount sfBalance (if bSetHigh then uminus_amount saBalance else saBalance) sle) les)))))))"

definition trustDelete :: "(Blob \<Rightarrow> uint256) \<Rightarrow> SLE \<Rightarrow> uint160 \<Rightarrow> uint160 \<Rightarrow> LedgerEntrySet \<Rightarrow> exn + TER \<times> LedgerEntrySet" where
  "trustDelete h sleRippleState uLowAccountID uHighAccountID les =
     (let bLowNode = isFieldPresent sleRippleState sfLowNode;
          bHighNode = isFieldPresent sleRippleState sfHighNode;
          uLowNode = getFieldU64 sleRippleState sfLowNode;
          uHighNode = getFieldU64 sleRippleState sfHighNode
      in bindE (dirDelete h False uLowNode (getOwnerDirIndex h uLowAccountID) (mIndex sleRippleState) False (\<not> bLowNode) les) (\<lambda>(terResult, les).
         bindE (if tesSUCCESS = terResult
                then dirDelete h False uHighNode (getOwnerDirIndex h uHighAccountID) (mIndex sleRippleState) False (\<not> bHighNode) les
                else Inr (terResult, les)) (\<lambda>(terResult, les).
         bindE (entryDelete sleRippleState les) (\<lambda>les. Inr (terResult, les)))))"

text \<open>
  \<open>rippleCredit\<close>. The test for a line that no longer needs the reserve of the sender reads the line
  only; it is \<open>reserve_done\<close>, with the field names of the sender's side.
\<close>

definition reserve_done :: "bool \<Rightarrow> SLE \<Rightarrow> STAmount \<Rightarrow> STAmount \<Rightarrow> bool" where
  "reserve_done bSenderHigh sleRippleState saBefore saBalance \<longleftrightarrow>
     (let uFlags = getFieldU32 sleRippleState sfFlags in
      signum saBefore > 0 \<and> signum saBalance \<le> 0 \<and>
      is_bit_set uFlags (if \<not> bSenderHigh then lsfLowReserve else lsfHighReserve) \<and>
      \<not> is_bit_set uFlags (if \<not> bSenderHigh then lsfLowNoRipple else lsfHighNoRipple) \<and>
      isZero (getFieldAmount sleRippleState (if \<not> bSenderHigh then sfLowLimit else sfHighLimit)) \<and>
      getFieldU32 sleRippleState (if \<not> bSenderHigh then sfLowQualityIn else sfHighQualityIn) = 0 \<and>
      getFieldU32 sleRippleState (if \<not> bSenderHigh then sfLowQualityOut else sfHighQualityOut) = 0)"

definition rippleCredit :: "(Blob \<Rightarrow> uint256) \<Rightarrow> uint160 \<Rightarrow> uint160 \<Rightarrow> STAmount \<Rightarrow> LedgerEntrySet \<Rightarrow> exn + TER \<times> LedgerEntrySet" where
  "rippleCredit h uSenderID uReceiverID saAmount les =
     (let bSenderHigh = (uSenderID > uReceiverID);
          uCurrencyID = mCurrency saAmount;
          uIndex = getRippleStateIndex h uSenderID uReceiverID uCurrencyID
      in bindE (entryCache ltRIPPLE_STATE uIndex les) (\<lambda>(sleRippleState, les).
         case sleRippleState of
           None \<Rightarrow>
             bindE (mkAmount uCurrencyID uReceiverID 0 0 False) (\<lambda>saReceiverLimit.
             bindE (entryCache ltACCOUNT_ROOT (getAccountRootIndex h uReceiverID) les) (\<lambda>(sleReceiver, les).
             trustCreate h bSenderHigh uSenderID uReceiverID uIndex sleReceiver False False
               (saAmount\<lparr>mIssuer := ACCOUNT_ONE\<rparr>) saReceiverLimit 0 0 les))
         | Some sleRippleState \<Rightarrow>
             let saBefore = (if bSenderHigh then negate (getFieldAmount sleRippleState sfBalance) else getFieldAmount sleRippleState sfBalance)
             in bindE (amount_sub saBefore saAmount) (\<lambda>saBalance.
             let uFlags = getFieldU32 sleRippleState sfFlags;
                 clear = reserve_done bSenderHigh sleRippleState saBefore saBalance
             in bindE (if clear then
                         bindE (entryCache ltACCOUNT_ROOT (getAccountRootIndex h uSenderID) les) (\<lambda>(sleSender, les).
                         ownerCountAdjust h uSenderID (-1) sleSender les)
                       else Inr les) (\<lambda>les.
             let sle = (if clear
                        then setFieldU32 sfFlags (uFlags AND (if \<not> bSenderHigh then NOT lsfLowReserve else NOT lsfHighReserve)) sleRippleState
                        else sleRippleState);
                 bDelete = (clear \<and> isZero saBalance \<and> \<not> is_bit_set uFlags (if bSenderHigh then lsfLowReserve else lsfHighReserve));
                 sle = setFieldAmount sfBalance (if bSenderHigh then negate saBalance else saBalance) sle
             in if bDelete
                then trustDelete h sle (if bSenderHigh then uReceiverID else uSenderID) (if \<not> bSenderHigh then uReceiverID else uSenderID)
                       les
                else bindE (entryModify sle les) (\<lambda>les. Inr (tesSUCCESS, les))))))"

subsection \<open>Sending\<close>

definition rippleSend :: "'bn bignum_ops \<Rightarrow> (Blob \<Rightarrow> uint256) \<Rightarrow> uint160 \<Rightarrow> uint160 \<Rightarrow> STAmount \<Rightarrow> LedgerEntrySet \<Rightarrow>
    exn + (TER \<times> STAmount) \<times> LedgerEntrySet" where
  "rippleSend ops h uSenderID uReceiverID saAmount les =
     (let uIssuerID = mIssuer saAmount in
      if uSenderID = uIssuerID \<or> uReceiverID = uIssuerID \<or> uIssuerID = ACCOUNT_ONE then
        bindE (rippleCredit h uSenderID uReceiverID saAmount les) (\<lambda>(terResult, les).
        Inr ((tesSUCCESS, saAmount), les))
      else
        bindE (rippleTransferFee ops h uSenderID uReceiverID uIssuerID saAmount les) (\<lambda>(saTransitFee, les).
        bindE (if isZero saTransitFee then Inr saAmount else amount_add saAmount saTransitFee) (\<lambda>saActual.
        let saActual = saActual\<lparr>mIssuer := uIssuerID\<rparr> in
        bindE (rippleCredit h uIssuerID uReceiverID saAmount les) (\<lambda>(terResult, les).
        if tesSUCCESS = terResult then
          bindE (rippleCredit h uSenderID uIssuerID saActual les) (\<lambda>(terResult, les). Inr ((terResult, saActual), les))
        else Inr ((terResult, saActual), les)))))"

definition cache_account :: "(Blob \<Rightarrow> uint256) \<Rightarrow> uint160 \<Rightarrow> LedgerEntrySet \<Rightarrow> exn + SLE option \<times> LedgerEntrySet" where
  "cache_account h a les =
     (if a \<noteq> 0 then entryCache ltACCOUNT_ROOT (getAccountRootIndex h a) les else Inr (None, les))"

text \<open>The two halves of a native send: taking from the sender, then giving to the receiver.\<close>

definition debit_native :: "SLE option \<Rightarrow> STAmount \<Rightarrow> LedgerEntrySet \<Rightarrow> exn + TER \<times> LedgerEntrySet" where
  "debit_native sleSender saAmount les = (case sleSender of
     None \<Rightarrow> Inr (tesSUCCESS, les)
   | Some sleSender \<Rightarrow>
       bindE (amount_less (getFieldAmount sleSender sfBalance) saAmount) (\<lambda>below.
       if below then Inr (if is_bit_set (mParams les) tapOPEN_LEDGER then telFAILED_PROCESSING else tecFAILED_PROCESSING, les)
       else
         bindE (amount_sub (getFieldAmount sleSender sfBalance) saAmount) (\<lambda>saNew.
         bindE (entryModify (setFieldAmount sfBalance saNew sleSender) les) (\<lambda>les. Inr (tesSUCCESS, les)))))"

definition credit_native :: "SLE option \<Rightarrow> STAmount \<Rightarrow> TER \<Rightarrow> LedgerEntrySet \<Rightarrow> exn + TER \<times> LedgerEntrySet" where
  "credit_native sleReceiver saAmount terResult les = (case sleReceiver of
     None \<Rightarrow> Inr (terResult, les)
   | Some sleReceiver \<Rightarrow>
       if tesSUCCESS = terResult then
         bindE (amount_add (getFieldAmount (deref sleReceiver les) sfBalance) saAmount) (\<lambda>saNew.
         bindE (entryModify (setFieldAmount sfBalance saNew (deref sleReceiver les)) les) (\<lambda>les. Inr (terResult, les)))
       else Inr (terResult, les))"

definition accountSend :: "'bn bignum_ops \<Rightarrow> (Blob \<Rightarrow> uint256) \<Rightarrow> uint160 \<Rightarrow> uint160 \<Rightarrow> STAmount \<Rightarrow> LedgerEntrySet \<Rightarrow> exn + TER \<times> LedgerEntrySet" where
  "accountSend ops h uSenderID uReceiverID saAmount les =
     (if isZero saAmount \<or> uSenderID = uReceiverID then Inr (tesSUCCESS, les)
      else if mIsNative saAmount then
        bindE (cache_account h uSenderID les) (\<lambda>(sleSender, les).
        bindE (cache_account h uReceiverID les) (\<lambda>(sleReceiver, les).
        bindE (debit_native sleSender saAmount les) (\<lambda>(terResult, les).
        credit_native sleReceiver saAmount terResult les)))
      else
        bindE (rippleSend ops h uSenderID uReceiverID saAmount les) (\<lambda>((terResult, saActual), les). Inr (terResult, les)))"

subsection \<open>Native payments\<close>

lemma word_of_nat_unat: "word_of_nat (unat x) = x" for x :: u64
  by (simp add: of_nat_unat)

lemma sint_unat: "unat v < 2 ^ 63 \<Longrightarrow> sint v = int (unat v)" for v :: u64
  by (simp add: sint_small)

lemma mkNative_sel [simp]: "mValue (mkNative v n) = v" "mIsNative (mkNative v n)" "mCurrency (mkNative v n) = 0" "mIssuer (mkNative v n) = 0"
  "mOffset (mkNative v n) = 0" "mIsNegative (mkNative v False) = False"
  by (simp_all add: mkNative_def)

lemma mkNativeN_False: "mkNativeN v False = mkNative v False"
  by (simp add: mkNativeN_def mkNative_def)

lemma native_cmp [simp]: "isComparable (mkNative x a) (mkNative y b)"
  by (simp add: isComparable_def)

lemma native_less: "amount_less (mkNative x False) (mkNative v False) = Inr (x < v)"
  by (auto simp: amount_less_def throwComparable_def compare_def word_neq_0_conv)

lemma native_sub:
  assumes "v \<le> x" "unat x < 2 ^ 63"
  shows "amount_sub (mkNative x False) (mkNative v False) = Inr (mkNative (x - v) False)"
proof -
  have u: "unat v \<le> unat x" using assms(1) by (simp add: word_le_nat_alt)
  have "s64 (int (unat x) - int (unat v)) = int (unat x - unat v)"
    using u assms(2) s64_id [of "int (unat x) - int (unat v)"] by (simp add: of_nat_diff)
  moreover have "word_of_int (int (unat x - unat v)) = x - v"
    using u by (simp add: of_nat_diff word_of_nat_unat)
  ultimately show ?thesis using u assms(2)
    by (auto simp: amount_sub_def throwComparable_def getSNValue_def sint_unat createFromInt64_def mkNativeN_False)
qed

lemma canonicalize_native_id:
  "v \<le> cMaxNative \<Longrightarrow> mkAmount 0 0 v 0 False = Inr (mkNative v False)"
  by (auto simp: mkAmount_def canonicalize_def Let_def mkNative_def)

lemma native_add_small:
  assumes "unat x + unat v < 2 ^ 63" "v \<le> cMaxNative"
  shows "amount_add (mkNative x False) (mkNative v False) = Inr (mkNative (x + v) False)"
proof -
  have "s64 (int (unat x) + int (unat v)) = int (unat x + unat v)"
    using assms(1) s64_id [of "int (unat x) + int (unat v)"] by simp
  moreover have "word_of_int (int (unat x + unat v)) = x + v" by (simp add: word_of_nat_unat)
  ultimately show ?thesis using assms
    by (auto simp: amount_add_def throwComparable_def getSNValue_def sint_unat mkNativeS_def mkNativeN_False canonicalize_native_id)
qed

text \<open>An account root with a native balance, at the index of its account.\<close>

definition has_native :: "(Blob \<Rightarrow> uint256) \<Rightarrow> (uint256 \<rightharpoonup> SLE) \<Rightarrow> uint160 \<Rightarrow> SLE \<Rightarrow> u64 \<Rightarrow> bool" where
  "has_native h m a sle x \<longleftrightarrow> a \<noteq> 0 \<and> getAccountRootIndex h a \<noteq> 0 \<and> m (getAccountRootIndex h a) = Some sle \<and>
     getFieldAmount sle sfBalance = mkNative x False \<and> x \<le> cMaxNativeN"

lemma wp_cache_account:
  assumes "state_is m D f les" "has_native h m a sle x" "\<And>les'. state_is m D f les' \<Longrightarrow> Q (Some sle, les')"
  shows "succeeds (cache_account h a les) Q"
  using assms wp_entryCache [OF assms(1), of "getAccountRootIndex h a" Q ltACCOUNT_ROOT] by (simp add: has_native_def cache_account_def)

lemma legal_small: "x \<le> cMaxNativeN \<Longrightarrow> unat x \<le> 10 ^ 17" "x \<le> cMaxNativeN \<Longrightarrow> x \<le> cMaxNative"
  by (auto simp: amount_consts word_le_nat_alt)

lemma wp_debit:
  assumes s: "state_is m D f les" and a: "has_native h m a sa x" and v: "v \<le> cMaxNativeN"
    and below: "\<And>ter. x < v \<Longrightarrow> ter = telFAILED_PROCESSING \<or> ter = tecFAILED_PROCESSING \<Longrightarrow> Q (ter, les)"
    and paid: "\<And>les' D'. v \<le> x \<Longrightarrow> state_is (m(getAccountRootIndex h a \<mapsto> setFieldAmount sfBalance (mkNative (x - v) False) sa)) D' f les' \<Longrightarrow> Q (tesSUCCESS, les')"
  shows "succeeds (debit_native (Some sa) (mkNative v False) les) Q"
proof (cases "x < v")
  case True
  then show ?thesis using a below by (simp add: debit_native_def has_native_def native_less)
next
  case False
  have "unat x < 2 ^ 63" using a legal_small(1) [of x] by (simp add: has_native_def)
  then have "amount_sub (mkNative x False) (mkNative v False) = Inr (mkNative (x - v) False)" using False by (intro native_sub) auto
  moreover have "succeeds (entryModify (setFieldAmount sfBalance (mkNative (x - v) False) sa) les) (\<lambda>les. Q (tesSUCCESS, les))"
    by (rule wp_entryModify [OF s, of _ "getAccountRootIndex h a"]) (use a state_is_index [OF s] paid False in \<open>auto simp: has_native_def\<close>)
  ultimately show ?thesis using a False by (simp add: debit_native_def has_native_def native_less)
qed

lemma wp_credit:
  assumes s: "state_is m D f les" and b: "has_native h m b sb y" and v: "v \<le> cMaxNativeN"
    and paid: "\<And>les' D'. state_is (m(getAccountRootIndex h b \<mapsto> setFieldAmount sfBalance (mkNative (y + v) False) sb)) D' f les' \<Longrightarrow> Q (tesSUCCESS, les')"
  shows "succeeds (credit_native (Some sb) (mkNative v False) tesSUCCESS les) Q"
proof -
  have i: "m (getAccountRootIndex h b) = Some sb" "mIndex sb = getAccountRootIndex h b"
    using b state_is_index [OF s] by (auto simp: has_native_def)
  have "unat y + unat v < 2 ^ 63" "v \<le> cMaxNative" using b legal_small(1) [of y] legal_small [OF v] by (auto simp: has_native_def)
  then have "amount_add (mkNative y False) (mkNative v False) = Inr (mkNative (y + v) False)" by (rule native_add_small)
  moreover have "succeeds (entryModify (setFieldAmount sfBalance (mkNative (y + v) False) sb) les) (\<lambda>les. Q (tesSUCCESS, les))"
    by (rule wp_entryModify [OF s, of _ "getAccountRootIndex h b"]) (use i paid in auto)
  moreover have "deref sb les = sb" using deref_state [OF s, of sb sb] i by simp
  ultimately show ?thesis using b by (simp add: credit_native_def has_native_def)
qed

definition paid_native :: "(Blob \<Rightarrow> uint256) \<Rightarrow> (uint256 \<rightharpoonup> SLE) \<Rightarrow> uint160 \<Rightarrow> SLE \<Rightarrow> u64 \<Rightarrow> uint160 \<Rightarrow> SLE \<Rightarrow> u64 \<Rightarrow> u64 \<Rightarrow> uint256 \<rightharpoonup> SLE" where
  "paid_native h m a sa x b sb y v = m(getAccountRootIndex h a \<mapsto> setFieldAmount sfBalance (mkNative (x - v) False) sa,
     getAccountRootIndex h b \<mapsto> setFieldAmount sfBalance (mkNative (y + v) False) sb)"

lemma accountSend_native:
  assumes s: "state_is m D f les" and a: "has_native h m a sa x" and b: "has_native h m b sb y"
    and ne: "getAccountRootIndex h a \<noteq> getAccountRootIndex h b" and v: "v \<noteq> 0" "v \<le> cMaxNativeN"
  shows "succeeds (accountSend ops h a b (mkNative v False) les) (\<lambda>(ter, les').
    if x < v then (ter = telFAILED_PROCESSING \<or> ter = tecFAILED_PROCESSING) \<and> (\<exists>D'. state_is m D' f les')
    else ter = tesSUCCESS \<and> (\<exists>D'. state_is (paid_native h m a sa x b sb y v) D' f les'))" (is "succeeds _ ?Q")
proof -
  define Q where "Q = ?Q"
  have "succeeds (debit_native (Some sa) (mkNative v False) les') (\<lambda>(ter, les). succeeds (credit_native (Some sb) (mkNative v False) ter les) Q)"
    if st: "state_is m D f les'" for les'
  proof (rule wp_debit [OF st a v(2)])
    fix ter assume "x < v" "ter = telFAILED_PROCESSING \<or> ter = tecFAILED_PROCESSING"
    then show "case (ter, les') of (ter, les) \<Rightarrow> succeeds (credit_native (Some sb) (mkNative v False) ter les) Q"
      using st by (auto simp: credit_native_def ter_codes Q_def)
  next
    fix les2 D' assume "v \<le> x" and st2: "state_is (m(getAccountRootIndex h a \<mapsto> setFieldAmount sfBalance (mkNative (x - v) False) sa)) D' f les2"
    have "has_native h (m(getAccountRootIndex h a \<mapsto> setFieldAmount sfBalance (mkNative (x - v) False) sa)) b sb y"
      using b ne by (simp add: has_native_def)
    moreover have "Q (tesSUCCESS, les3)" if "state_is (paid_native h m a sa x b sb y v) D3 f les3" for les3 D3
      using that \<open>v \<le> x\<close> by (auto simp: Q_def)
    ultimately show "case (tesSUCCESS, les2) of (ter, les) \<Rightarrow> succeeds (credit_native (Some sb) (mkNative v False) ter les) Q"
      using wp_credit [OF st2 _ v(2), of h b sb y Q] by (simp add: paid_native_def)
  qed
  then have "succeeds (accountSend ops h a b (mkNative v False) les) Q" using v ne
    by (auto simp: accountSend_def case_prod_unfold intro!: wp_cache_account [OF s a] wp_cache_account [OF _ b])
  then show ?thesis unfolding Q_def .
qed

text \<open>
  C8. Native payments conserve money. When \<open>accountSend\<close> sends a native amount between two accounts with
  legal balances, it either refuses because the sender holds less than the amount, and then no entry
  changes, or the sender's balance falls by the amount, the receiver's rises by it, the sum of the two
  is the same as before and every other entry of the view is untouched.
\<close>

theorem native_send_conserves:
  assumes "les_ok les" "has_native h (view les) a sa x" "has_native h (view les) b sb y"
    and "getAccountRootIndex h a \<noteq> getAccountRootIndex h b" "v \<noteq> 0" "v \<le> cMaxNativeN"
  shows "\<exists>ter les'. accountSend ops h a b (mkNative v False) les = Inr (ter, les') \<and> les_ok les' \<and>
    (if x < v then ter \<noteq> tesSUCCESS \<and> view les' = view les
     else ter = tesSUCCESS \<and> view les' = paid_native h (view les) a sa x b sb y v \<and>
       unat (x - v) = unat x - unat v \<and> unat (y + v) = unat y + unat v \<and> unat (x - v) + unat (y + v) = unat x + unat y)"
proof -
  have "unat x \<le> 10 ^ 17" "unat y \<le> 10 ^ 17" "unat v \<le> 10 ^ 17" using assms legal_small(1) by (auto simp: has_native_def)
  then have u: "unat (y + v) = unat y + unat v" by (simp add: unat_word_ariths)
  have w: "unat (x - v) = unat x - unat v" "unat v \<le> unat x" if "\<not> x < v" using that by (auto simp: unat_sub word_le_nat_alt word_less_nat_alt)
  from accountSend_native [OF state_isI [OF assms(1)] assms(2-6), of ops]
  show ?thesis using u w by (auto simp: succeeds_iff state_is_def ter_codes split: if_splits)
qed

subsection \<open>Credit on a trust line\<close>

text \<open>The balance of a line as one of its two accounts sees it.\<close>

definition balance_for :: "uint160 \<Rightarrow> uint160 \<Rightarrow> SLE \<Rightarrow> STAmount" where
  "balance_for account peer sle =
     (if account > peer then negate (getFieldAmount sle sfBalance) else getFieldAmount sle sfBalance)"

lemma negate_negate [simp]: "negate (negate a) = a"
  by (cases a) (simp add: negate_def)

lemma balance_for_swap: "a \<noteq> b \<Longrightarrow> balance_for b a sle = negate (balance_for a b sle)"
  by (auto simp: balance_for_def)

text \<open>
  C9. Credit moves a balance along a trust line. On an existing line, unless the sender's reserve is to
  be cleared, \<open>rippleCredit\<close> succeeds whenever the subtraction does, and then the balance the sender sees
  is the old one minus the amount, the receiver sees the opposite, no other field of the line and no
  other entry of the view changes.
\<close>

theorem rippleCredit_moves:
  assumes ok: "les_ok les" and i: "i = getRippleStateIndex h a b (mCurrency amt)" "i \<noteq> 0" and l: "view les i = Some sle"
    and z: "amount_sub (balance_for a b sle) amt = Inr z" and nc: "\<not> reserve_done (a > b) sle (balance_for a b sle) z" and ab: "a \<noteq> b"
  shows "\<exists>les' sle'. rippleCredit h a b amt les = Inr (tesSUCCESS, les') \<and> les_ok les' \<and> mLedger les' = mLedger les \<and>
    view les' = (view les)(i \<mapsto> sle') \<and> balance_for a b sle' = z \<and> balance_for b a sle' = negate z \<and>
    mType sle' = mType sle \<and> (\<forall>fld. fld \<noteq> sfBalance \<longrightarrow> mFields sle' fld = mFields sle fld)"
proof -
  define sle' where "sle' = setFieldAmount sfBalance (if a > b then negate z else z) sle"
  have bal: "balance_for a b sle' = z" by (simp add: balance_for_def sle'_def)
  have "succeeds (rippleCredit h a b amt les) (\<lambda>(ter, les'). ter = tesSUCCESS \<and> (\<exists>D. state_is ((view les)(i \<mapsto> sle')) D (mLedger les, mParams les) les'))"
    (is "succeeds _ ?Q")
  proof -
    have "succeeds (entryModify sle' les') (\<lambda>les. ?Q (tesSUCCESS, les))" if st: "state_is (view les) {} (mLedger les, mParams les) les'" for les'
      by (rule wp_entryModify [OF st, of _ i]) (use l state_is_index [OF st l] in \<open>auto simp: sle'_def\<close>)
    then show ?thesis using z nc unfolding rippleCredit_def Let_def succeeds_simps(3) i(1) [symmetric]
      by (intro wp_entryCache [OF state_isI [OF ok] i(2)]) (simp add: l balance_for_def sle'_def)
  qed
  then obtain les' D where "rippleCredit h a b amt les = Inr (tesSUCCESS, les')" "state_is ((view les)(i \<mapsto> sle')) D (mLedger les, mParams les) les'"
    by (auto simp: succeeds_iff)
  then show ?thesis using bal balance_for_swap [OF ab, of sle']
    by (intro exI [of _ les'] exI [of _ sle']) (auto simp: state_is_def sle'_def setFieldAmount_def)
qed

subsection \<open>A credit that fails\<close>

definition two_bytes :: "Blob \<Rightarrow> uint256" where
  "two_bytes b = ucast (hd (tl b)) * 256 + ucast (last b)"

definition ten_iou :: "uint160 \<Rightarrow> STAmount" where
  "ten_iou issuer = \<lparr>mCurrency = 5, mIssuer = issuer, mValue = 1000000000000000, mOffset = -14, mIsNative = False, mIsNegative = False\<rparr>"

definition line_les :: LedgerEntrySet where
  "line_les = (let i = getRippleStateIndex two_bytes 2 3 5; j = getAccountRootIndex two_bytes 2 in
     sample_les\<lparr>mEntries := [(j, \<lparr>mEntry = setFieldU32 sfOwnerCount 1 (mkSLE ltACCOUNT_ROOT j), mAction = taaCREATE, mEntrySeq = 0\<rparr>), (i, \<lparr>mEntry = setFieldAmount sfBalance (ten_iou 1) (setFieldU64 sfLowNode 0 (setFieldU32 sfFlags lsfLowReserve (mkSLE ltRIPPLE_STATE i))),
       mAction = taaCREATE, mEntrySeq = 0\<rparr>)]\<rparr>)"

lemma rippleCredit_fails: "succeeds (rippleCredit two_bytes 2 3 (ten_iou 3) line_les) (\<lambda>(ter, _). ter = tefBAD_LEDGER)"
  by code_simp


text \<open>A ledger with two accounts and a line between them, for the witnesses.\<close>

definition credit_ledger :: Ledger where
  "credit_ledger = sample_ledger\<lparr>mAccountStateMap :=
     [(24834, setFieldAmount sfBalance (mkNative 1000 False) (mkSLE ltACCOUNT_ROOT 24834)),
      (24835, setFieldAmount sfBalance (mkNative 5 False) (mkSLE ltACCOUNT_ROOT 24835)),
      (29189, setFieldAmount sfBalance (negate (ten_iou 1)) (mkSLE ltRIPPLE_STATE 29189))]\<rparr>"

definition credit_les :: LedgerEntrySet where
  "credit_les = init credit_ledger 0 0 0 sample_les"

lemma credit_getSLE: "getSLE credit_ledger =
  [24834 \<mapsto> setFieldAmount sfBalance (mkNative 1000 False) (mkSLE ltACCOUNT_ROOT 24834),
   24835 \<mapsto> setFieldAmount sfBalance (mkNative 5 False) (mkSLE ltACCOUNT_ROOT 24835),
   29189 \<mapsto> setFieldAmount sfBalance (negate (ten_iou 1)) (mkSLE ltRIPPLE_STATE 29189)]"
  by (auto simp: getSLE_def credit_ledger_def fun_eq_iff)

lemma credit_ledger_ok: "ledger_ok credit_ledger"
  by (auto simp: ledger_ok_def credit_getSLE split: if_splits) (simp_all add: credit_ledger_def)

lemma credit_les_ok: "les_ok credit_les" "view credit_les = getSLE credit_ledger"
  using init_ok(1) [OF credit_ledger_ok] by (simp_all add: credit_les_def init_ok(2))

lemma two_bytes_indexes:
  "getAccountRootIndex two_bytes 2 = 24834" "getAccountRootIndex two_bytes 3 = 24835" "getRippleStateIndex two_bytes 2 3 5 = 29189"
  by code_simp+

theorem native_send_conserves_witness:
  "\<exists>ter les'. accountSend bn_nat two_bytes 2 3 (mkNative 400 False) credit_les = Inr (ter, les') \<and> ter = tesSUCCESS \<and>
     has_native two_bytes (view credit_les) 2 (setFieldAmount sfBalance (mkNative 1000 False) (mkSLE ltACCOUNT_ROOT 24834)) 1000"
proof -
  let ?a = "setFieldAmount sfBalance (mkNative 1000 False) (mkSLE ltACCOUNT_ROOT 24834)"
  let ?b = "setFieldAmount sfBalance (mkNative 5 False) (mkSLE ltACCOUNT_ROOT 24835)"
  have a: "has_native two_bytes (view credit_les) 2 ?a 1000" "has_native two_bytes (view credit_les) 3 ?b 5"
    by (simp_all add: has_native_def two_bytes_indexes credit_les_ok credit_getSLE amount_consts)
  show ?thesis
    using a(1) native_send_conserves [OF credit_les_ok(1) a, of 400 bn_nat] by (auto simp: two_bytes_indexes amount_consts)
qed

theorem rippleCredit_moves_witness:
  "\<exists>les' sle'. rippleCredit two_bytes 2 3 (ten_iou 3) credit_les = Inr (tesSUCCESS, les') \<and>
     view les' = (view credit_les)(29189 \<mapsto> sle') \<and> mValue (balance_for 3 2 sle') = 2000000000000000 \<and> mIsNegative (balance_for 2 3 sle')"
proof -
  let ?l = "setFieldAmount sfBalance (negate (ten_iou 1)) (mkSLE ltRIPPLE_STATE 29189)"
  let ?z = "\<lparr>mCurrency = 5, mIssuer = 1, mValue = 2000000000000000, mOffset = -14, mIsNative = False, mIsNegative = True\<rparr>"
  have z: "amount_sub (balance_for 2 3 ?l) (ten_iou 3) = Inr ?z" by code_simp
  have nc: "\<not> reserve_done (2 > (3::uint160)) ?l (balance_for 2 3 ?l) ?z" by code_simp
  have i: "29189 = getRippleStateIndex two_bytes 2 3 (mCurrency (ten_iou 3))" by (simp add: ten_iou_def two_bytes_indexes)
  have l: "view credit_les 29189 = Some ?l" by (simp add: credit_les_ok credit_getSLE)
  obtain les' sle' where "rippleCredit two_bytes 2 3 (ten_iou 3) credit_les = Inr (tesSUCCESS, les')" "view les' = (view credit_les)(29189 \<mapsto> sle')"
    "balance_for 2 3 sle' = ?z" "balance_for 3 2 sle' = negate ?z"
    using rippleCredit_moves [OF credit_les_ok(1) i _ l z nc] by auto
  then show ?thesis by (intro exI [of _ les'] exI [of _ sle']) (simp add: negate_def)
qed

end
