(* ===== verification/Serialized_Object.thy ===== *)
theory Serialized_Object
  imports Ledger_Entry
begin

text \<open>
  Serialization of objects: \<open>SField\<close> (FieldNames.cpp), \<open>STObject::add\<close>, \<open>set\<close> and \<open>setType\<close>
  (SerializedObject.cpp), \<open>STArray\<close>, and \<open>add\<close> and \<open>construct\<close> of the value types
  (SerializedTypes.cpp), on the serializer of \<open>Serializer_Model\<close>. An object is the list of its present
  fields. Shown here: what \<open>add\<close> writes \<open>set\<close> reads back, inner objects and arrays included, and \<open>set\<close>
  ends on every input.
\<close>

unbundle bit_operations_syntax

subsection \<open>Field codes\<close>

fun type_code :: "SerializedTypeID \<Rightarrow> nat" where
  "type_code STI_UINT16 = 1"
| "type_code STI_UINT32 = 2"
| "type_code STI_UINT64 = 3"
| "type_code STI_HASH128 = 4"
| "type_code STI_HASH256 = 5"
| "type_code STI_AMOUNT = 6"
| "type_code STI_VL = 7"
| "type_code STI_ACCOUNT = 8"
| "type_code STI_OBJECT = 14"
| "type_code STI_ARRAY = 15"
| "type_code STI_UINT8 = 16"
| "type_code STI_HASH160 = 17"
| "type_code STI_PATHSET = 18"
| "type_code STI_VECTOR256 = 19"

definition all_types :: "SerializedTypeID list" where
  "all_types = [STI_UINT16, STI_UINT32, STI_UINT64, STI_HASH128, STI_HASH256, STI_AMOUNT, STI_VL, STI_ACCOUNT,
     STI_OBJECT, STI_ARRAY, STI_UINT8, STI_HASH160, STI_PATHSET, STI_VECTOR256]"

fun fieldType :: "sfield \<Rightarrow> SerializedTypeID" where
  "fieldType (SField t v) = t"

fun fieldValue :: "sfield \<Rightarrow> int" where
  "fieldValue (SField t v) = v"

definition FIELD_CODE :: "nat \<Rightarrow> int \<Rightarrow> int" where
  "FIELD_CODE type index = int type * 2 ^ 16 + index"

definition fieldCode :: "sfield \<Rightarrow> int" where
  "fieldCode f = FIELD_CODE (type_code (fieldType f)) (fieldValue f)"

text \<open>The numbers of the declared fields, by type.\<close>

fun declared :: "SerializedTypeID \<Rightarrow> int list" where
  "declared STI_UINT8 = [1, 2, 3]"
| "declared STI_UINT16 = [1, 2]"
| "declared STI_UINT32 = [2..14] @ [16..34]"
| "declared STI_UINT64 = [1..8]"
| "declared STI_HASH128 = [1]"
| "declared STI_HASH256 = [1..9] @ [16..19] @ [257, 258]"
| "declared STI_HASH160 = [1..4]"
| "declared STI_AMOUNT = [1..9] @ [16..18]"
| "declared STI_VL = [1..13]"
| "declared STI_ACCOUNT = [1, 2, 3, 4, 7, 8, 9, 10]"
| "declared STI_PATHSET = [1]"
| "declared STI_VECTOR256 = [1, 2, 3]"
| "declared STI_OBJECT = [2..10]"
| "declared STI_ARRAY = [2..9]"

text \<open>
  \<open>SField::getField\<close> on a type and a number. A number that is not declared makes a new field when its
  type may be extended. The code takes the number of the field as \<open>code % 0xffff\<close>.
\<close>

definition getField :: "nat \<Rightarrow> nat \<Rightarrow> sfield option" where
  "getField type index =
     (let code = FIELD_CODE type (int index);
          field = code mod 0xffff
      in if type = 0 \<or> field \<le> 0 then None
         else case filter (\<lambda>t. type_code t = type) all_types of
           [] \<Rightarrow> None
         | t # _ \<Rightarrow> if int index \<in> set (declared t) then Some (SField t (int index))
                    else if field > 255 then None
                    else Some (SField t (int index)))"

definition signingField :: "sfield \<Rightarrow> bool" where
  "signingField f \<longleftrightarrow> f \<notin> {sfTxnSignature, sfTxnSignatures, sfSignature}"

definition shouldInclude :: "bool \<Rightarrow> sfield \<Rightarrow> bool" where
  "shouldInclude withSigningField f \<longleftrightarrow> fieldValue f < 256 \<and> (withSigningField \<or> signingField f)"

definition isDiscardable :: "sfield \<Rightarrow> bool" where
  "isDiscardable f \<longleftrightarrow> fieldValue f > 256"

subsection \<open>Path sets\<close>

definition typeAccount :: u32 where "typeAccount = 0x01"
definition typeCurrency :: u32 where "typeCurrency = 0x10"
definition typeIssuer :: u32 where "typeIssuer = 0x20"
definition typeBoundary :: u8 where "typeBoundary = 0xFF"

definition mkPathElement :: "uint160 \<Rightarrow> uint160 \<Rightarrow> uint160 \<Rightarrow> bool \<Rightarrow> STPathElement" where
  "mkPathElement uAccountID uCurrencyID uIssuerID forceCurrency =
     \<lparr>peType = (if uAccountID = 0 then 0 else typeAccount)
        OR (if uCurrencyID = 0 \<and> \<not> forceCurrency then 0 else typeCurrency)
        OR (if uIssuerID = 0 then 0 else typeIssuer),
      peAccountID = uAccountID, peCurrencyID = uCurrencyID, peIssuerID = uIssuerID\<rparr>"

definition element_put :: "STPathElement \<Rightarrow> Serializer \<Rightarrow> Serializer" where
  "element_put e s =
     (let iType = peType e;
          s = snd (add8 (ucast iType) s);
          s = (if iType AND typeAccount \<noteq> 0 then snd (add160 (peAccountID e) s) else s);
          s = (if iType AND typeCurrency \<noteq> 0 then snd (add160 (peCurrencyID e) s) else s)
      in if iType AND typeIssuer \<noteq> 0 then snd (add160 (peIssuerID e) s) else s)"

fun paths_put :: "bool \<Rightarrow> STPathElement list list \<Rightarrow> Serializer \<Rightarrow> Serializer" where
  "paths_put bFirst [] s = s"
| "paths_put bFirst (p # ps) s =
     paths_put False ps (fold element_put p (if \<not> bFirst then snd (add8 typeBoundary s) else s))"

definition pathset_put :: "STPathElement list list \<Rightarrow> Serializer \<Rightarrow> Serializer" where
  "pathset_put v s = snd (add8 0 (paths_put True v s))"

text \<open>One step of the reader: an element, after its type byte.\<close>

definition element_get :: "u32 \<Rightarrow> SerializerIterator \<Rightarrow> exn + STPathElement \<times> SerializerIterator" where
  "element_get iType s =
     bindE (if iType AND typeAccount \<noteq> 0 then it_get160 s else Inr (0, s)) (\<lambda>(uAccountID, s).
     bindE (if iType AND typeCurrency \<noteq> 0 then it_get160 s else Inr (0, s)) (\<lambda>(uCurrency, s).
     bindE (if iType AND typeIssuer \<noteq> 0 then it_get160 s else Inr (0, s)) (\<lambda>(uIssuerID, s).
     Inr (mkPathElement uAccountID uCurrency uIssuerID (iType AND typeCurrency \<noteq> 0), s))))"

text \<open>
  The reader, with fuel. Every round reads a byte, so more fuel than bytes left never changes the result.
\<close>

fun paths_get :: "nat \<Rightarrow> STPathElement list list \<Rightarrow> STPathElement list \<Rightarrow> SerializerIterator \<Rightarrow>
    exn + STPathElement list list \<times> SerializerIterator" where
  "paths_get 0 paths path s = Inl (RuntimeError ''out of fuel'')"
| "paths_get (Suc n) paths path s =
     bindE (it_get8 s) (\<lambda>(b, s).
     if b = 0 \<or> b = typeBoundary then
       if path = [] then Inl (RuntimeError ''empty path'')
       else if b = 0 then Inr (paths @ [path], s)
       else paths_get n (paths @ [path]) [] s
     else if b AND NOT (ucast (typeAccount OR typeCurrency OR typeIssuer)) \<noteq> 0
       then Inl (RuntimeError ''bad path element'')
     else bindE (element_get (ucast b) s) (\<lambda>(e, s). paths_get n paths (path @ [e]) s))"

definition bytes_left :: "SerializerIterator \<Rightarrow> nat" where
  "bytes_left sit = length (mData (mSerializer sit)) - mPos sit"

definition pathset_construct :: "SerializerIterator \<Rightarrow> exn + STPathElement list list \<times> SerializerIterator" where
  "pathset_construct s = paths_get (Suc (bytes_left s)) [] [] s"

subsection \<open>Values\<close>

text \<open>A vector of hashes is one variable-length blob; bytes after the last whole hash are dropped.\<close>

fun v256_of :: "nat \<Rightarrow> Blob \<Rightarrow> uint256 list" where
  "v256_of 0 data = []"
| "v256_of (Suc count) data = be_word (take 32 data) # v256_of count (drop 32 data)"

definition v256_construct :: "SerializerIterator \<Rightarrow> exn + uint256 list \<times> SerializerIterator" where
  "v256_construct sit = bindE (it_getVL sit) (\<lambda>(data, sit). Inr (v256_of (length data div 32) data, sit))"

definition add_vl :: "Blob \<Rightarrow> Serializer \<Rightarrow> exn + Serializer" where
  "add_vl v s = bindE (addVL v s) (\<lambda>(_, s). Inr s)"

definition get_as :: "('a \<Rightarrow> st_value) \<Rightarrow> (SerializerIterator \<Rightarrow> exn + 'a \<times> SerializerIterator) \<Rightarrow>
    SerializerIterator \<Rightarrow> exn + st_value \<times> SerializerIterator" where
  "get_as c get sit = bindE (get sit) (\<lambda>(v, sit). Inr (c v, sit))"

text \<open>\<open>makeDeserializedObject\<close> for the types other than objects and arrays.\<close>

fun get_simple :: "SerializedTypeID \<Rightarrow> SerializerIterator \<Rightarrow> exn + st_value \<times> SerializerIterator" where
  "get_simple STI_UINT8 = get_as VU8 it_get8"
| "get_simple STI_UINT16 = get_as VU16 it_get16"
| "get_simple STI_UINT32 = get_as VU32 it_get32"
| "get_simple STI_UINT64 = get_as VU64 it_get64"
| "get_simple STI_HASH128 = get_as VH128 it_get128"
| "get_simple STI_HASH160 = get_as VH160 it_get160"
| "get_simple STI_HASH256 = get_as VH256 it_get256"
| "get_simple STI_AMOUNT = get_as VAmount amount_construct"
| "get_simple STI_VL = get_as VBlob it_getVL"
| "get_simple STI_ACCOUNT = get_as VAccount it_getVL"
| "get_simple STI_PATHSET = get_as VPathSet pathset_construct"
| "get_simple STI_VECTOR256 = get_as VV256 v256_construct"

subsection \<open>Objects\<close>

type_synonym fields = "(sfield \<times> st_value) list"

text \<open>
  The fields an object writes, in the order of their codes; the \<open>std::map\<close> that sorts them keeps the
  first of several with the same code.
\<close>

definition map_insert :: "'k :: linorder \<Rightarrow> 'v \<Rightarrow> ('k \<times> 'v) list \<Rightarrow> ('k \<times> 'v) list" where
  "map_insert k x m = (case map_of m k of None \<Rightarrow> map_put k x m | Some _ \<Rightarrow> m)"

definition sort_fields :: "bool \<Rightarrow> fields \<Rightarrow> fields" where
  "sort_fields withSigningFields data =
     map snd (fold (\<lambda>p. map_insert (fieldCode (fst p)) p) (filter (\<lambda>p. shouldInclude withSigningFields (fst p)) data) [])"

lemma size_map_put: "size_list f (map_put k x m) \<le> Suc (f (k, x) + size_list f m)"
  by (induction k x m rule: map_put.induct) auto

lemma size_map_insert: "size_list f (map_insert k x m) \<le> Suc (f (k, x) + size_list f m)"
  using size_map_put [of f k x m] by (auto simp: map_insert_def split: option.splits)

lemma size_fold_insert:
  "size_list (\<lambda>e. f (snd e)) (fold (\<lambda>p. map_insert (fieldCode (fst p)) p) ps m) \<le> size_list f ps + size_list (\<lambda>e. f (snd e)) m"
proof (induction ps arbitrary: m)
  case (Cons p ps)
  show ?case using Cons.IH [of "map_insert (fieldCode (fst p)) p m"] size_map_insert [of "\<lambda>e. f (snd e)" "fieldCode (fst p)" p m] by simp
qed simp

lemma size_filter: "size_list f (filter P ps) \<le> size_list f ps"
  by (induction ps) auto

lemma size_sort_fields : "size_list f (sort_fields b fs) \<le> size_list f fs"
  using size_fold_insert [of f "filter (\<lambda>p. shouldInclude b (fst p)) fs" "[]"] size_filter [of f "\<lambda>p. shouldInclude b (fst p)" fs]
  by (simp add: sort_fields_def size_list_map o_def)

definition addFieldID_of :: "sfield \<Rightarrow> Serializer \<Rightarrow> Serializer" where
  "addFieldID_of f s = snd (addFieldID (type_code (fieldType f)) (nat (fieldValue f)) s)"

text \<open>The mark after an array or an inner object.\<close>

fun end_mark :: "st_value \<Rightarrow> Serializer \<Rightarrow> Serializer" where
  "end_mark (VArray _) s = snd (addFieldID (type_code STI_ARRAY) 1 s)"
| "end_mark (VObject _) s = snd (addFieldID (type_code STI_OBJECT) 1 s)"
| "end_mark _ s = s"

text \<open>\<open>add\<close> of every value type, of the sorted fields of an object, and of the objects of an array.\<close>

function add_value :: "st_value \<Rightarrow> Serializer \<Rightarrow> exn + Serializer"
  and add_sorted :: "fields \<Rightarrow> Serializer \<Rightarrow> exn + Serializer"
  and add_objects :: "(sfield \<times> fields) list \<Rightarrow> Serializer \<Rightarrow> exn + Serializer" where
  "add_value (VU8 v) s = Inr (snd (add8 v s))"
| "add_value (VU16 v) s = Inr (snd (add16 v s))"
| "add_value (VU32 v) s = Inr (snd (add32 v s))"
| "add_value (VU64 v) s = Inr (snd (add64 v s))"
| "add_value (VH128 v) s = Inr (snd (add128 v s))"
| "add_value (VH160 v) s = Inr (snd (add160 v s))"
| "add_value (VH256 v) s = Inr (snd (add256 v s))"
| "add_value (VAmount v) s = Inr (amount_put v s)"
| "add_value (VBlob v) s = add_vl v s"
| "add_value (VAccount v) s = add_vl v s"
| "add_value (VPathSet v) s = Inr (pathset_put v s)"
| "add_value (VV256 v) s = add_vl (concat (map (be_bytes 32) v)) s"
| "add_value (VObject fs) s = add_sorted (sort_fields True fs) s"
| "add_value (VArray os) s = add_objects os s"
| "add_sorted [] s = Inr s"
| "add_sorted ((f, v) # fs) s =
     bindE (add_value v (addFieldID_of f s)) (\<lambda>s. add_sorted fs (end_mark v s))"
| "add_objects [] s = Inr s"
| "add_objects ((f, fs) # os) s =
     bindE (add_sorted (sort_fields True fs) (addFieldID_of f s)) (\<lambda>s.
     add_objects os (snd (addFieldID (type_code STI_OBJECT) 1 s)))"
  by pat_completeness auto

termination
proof (relation "measure (case_sum (\<lambda>(v, _). size v) (case_sum (\<lambda>(fs, _). size_list (size_prod (\<lambda>_. 0) size) fs)
    (\<lambda>(os, _). size_list (size_prod (\<lambda>_. 0) (size_list (size_prod (\<lambda>_. 0) size))) os)))", goal_cases)
  case (2 fs s)
  then show ?case using size_sort_fields [of "size_prod (\<lambda>_. 0) size" True fs] by (simp add: less_Suc_eq_le)
next
  case (6 f fs os s)
  then show ?case using size_sort_fields [of "size_prod (\<lambda>_. 0) size" True fs] by simp
qed auto

definition object_add :: "bool \<Rightarrow> fields \<Rightarrow> Serializer \<Rightarrow> exn + Serializer" where
  "object_add withSigningFields data s = add_sorted (sort_fields withSigningFields data) s"

definition it_empty :: "SerializerIterator \<Rightarrow> bool" where
  "it_empty sit \<longleftrightarrow> mPos sit = length (mData (mSerializer sit))"

text \<open>
  \<open>STObject::set\<close>, \<open>makeDeserializedObject\<close> and \<open>STArray::construct\<close>. The flag says that the object
  ended with its mark. As above the fuel bounds the fields and objects read, each of which takes a byte
  at least.
\<close>

fun set_fields :: "nat \<Rightarrow> SerializerIterator \<Rightarrow> exn + (fields \<times> bool) \<times> SerializerIterator"
  and makeDeserializedObject :: "nat \<Rightarrow> SerializedTypeID \<Rightarrow> SerializerIterator \<Rightarrow> exn + st_value \<times> SerializerIterator"
  and get_objects :: "nat \<Rightarrow> SerializerIterator \<Rightarrow> exn + (sfield \<times> fields) list \<times> SerializerIterator" where
  "set_fields 0 sit = Inl (RuntimeError ''out of fuel'')"
| "set_fields (Suc n) sit =
     (if it_empty sit then Inr (([], False), sit)
      else bindE (it_getFieldID sit) (\<lambda>((type, field), sit).
        if type = type_code STI_OBJECT \<and> field = 1 then Inr (([], True), sit)
        else case getField type field of
          None \<Rightarrow> Inl (RuntimeError ''Unknown field'')
        | Some fn \<Rightarrow>
            bindE (makeDeserializedObject n (fieldType fn) sit) (\<lambda>(v, sit).
            bindE (set_fields n sit) (\<lambda>((fs, ended), sit). Inr (((fn, v) # fs, ended), sit)))))"
| "makeDeserializedObject n t sit =
     (if t = STI_OBJECT then bindE (set_fields n sit) (\<lambda>((fs, _), sit). Inr (VObject fs, sit))
      else if t = STI_ARRAY then bindE (get_objects n sit) (\<lambda>(os, sit). Inr (VArray os, sit))
      else get_simple t sit)"
| "get_objects 0 sit = Inl (RuntimeError ''out of fuel'')"
| "get_objects (Suc n) sit =
     (if it_empty sit then Inr ([], sit)
      else bindE (it_getFieldID sit) (\<lambda>((type, field), sit).
        if type = type_code STI_ARRAY \<and> field = 1 then Inr ([], sit)
        else case getField type field of
          None \<Rightarrow> Inl (RuntimeError ''Unknown field'')
        | Some fn \<Rightarrow>
            bindE (set_fields n sit) (\<lambda>((fs, _), sit).
            bindE (get_objects n sit) (\<lambda>(os, sit). Inr ((fn, fs) # os, sit)))))"

definition object_set :: "SerializerIterator \<Rightarrow> exn + (fields \<times> bool) \<times> SerializerIterator" where
  "object_set sit = set_fields (Suc (bytes_left sit)) sit"

text \<open>\<open>isDefault\<close> of the values, and \<open>setType\<close>: what an object holds is sorted into a template.\<close>

fun isDefault :: "st_value \<Rightarrow> bool" where
  "isDefault (VU8 v) \<longleftrightarrow> v = 0"
| "isDefault (VU16 v) \<longleftrightarrow> v = 0"
| "isDefault (VU32 v) \<longleftrightarrow> v = 0"
| "isDefault (VU64 v) \<longleftrightarrow> v = 0"
| "isDefault (VH128 v) \<longleftrightarrow> v = 0"
| "isDefault (VH160 v) \<longleftrightarrow> v = 0"
| "isDefault (VH256 v) \<longleftrightarrow> v = 0"
| "isDefault (VAmount v) \<longleftrightarrow> mValue v = 0 \<and> mIssuer v = 0 \<and> mCurrency v = 0"
| "isDefault (VBlob v) \<longleftrightarrow> v = []"
| "isDefault (VAccount v) \<longleftrightarrow> v = []"
| "isDefault (VPathSet v) \<longleftrightarrow> v = []"
| "isDefault (VV256 v) \<longleftrightarrow> v = []"
| "isDefault (VObject v) \<longleftrightarrow> v = []"
| "isDefault (VArray v) \<longleftrightarrow> v = []"

fun remove_field :: "sfield \<Rightarrow> fields \<Rightarrow> fields" where
  "remove_field f [] = []"
| "remove_field f ((g, v) # fs) = (if g = f then fs else (g, v) # remove_field f fs)"

text \<open>The new data, the data left over, and whether the object is valid for the template.\<close>

fun setType_loop :: "(sfield \<times> SOE_Flags) list \<Rightarrow> fields \<Rightarrow> fields \<times> fields \<times> bool" where
  "setType_loop [] data = ([], data, True)"
| "setType_loop ((f, flags) # type) data =
     (case map_of data f of
        Some v \<Rightarrow>
          let (new, left, valid) = setType_loop type (remove_field f data)
          in ((f, v) # new, left, valid \<and> \<not> (flags = SOE_DEFAULT \<and> isDefault v))
      | None \<Rightarrow>
          let (new, left, valid) = setType_loop type data in (new, left, valid \<and> flags \<noteq> SOE_REQUIRED))"

definition setType :: "(sfield \<times> SOE_Flags) list \<Rightarrow> fields \<Rightarrow> bool \<times> fields" where
  "setType type data =
     (let (new, left, valid) = setType_loop type data in (valid \<and> (\<forall>p\<in>set left. isDiscardable (fst p)), new))"

subsection \<open>Images of values on the wire\<close>

text \<open>
  A reader accepts a prefix: positioned before the image of a value it returns the value and stops
  behind the image, whatever follows. This is the law of the locale \<open>codec\<close>.
\<close>

definition reads :: "(SerializerIterator \<Rightarrow> exn + 'a \<times> SerializerIterator) \<Rightarrow> Blob \<Rightarrow> 'a \<Rightarrow> bool" where
  "reads get img x \<longleftrightarrow> (\<forall>pre post. get \<lparr>mSerializer = \<lparr>mData = pre @ img @ post\<rparr>, mPos = length pre\<rparr> =
     Inr (x, \<lparr>mSerializer = \<lparr>mData = pre @ img @ post\<rparr>, mPos = length pre + length img\<rparr>))"

lemma readsD: "reads get img x \<Longrightarrow> get \<lparr>mSerializer = \<lparr>mData = pre @ img @ post\<rparr>, mPos = length pre\<rparr> =
     Inr (x, \<lparr>mSerializer = \<lparr>mData = pre @ img @ post\<rparr>, mPos = length pre + length img\<rparr>)"
  by (simp add: reads_def)

lemma reads_bind:
  assumes "reads g i x" "reads (f x) j y"
  shows "reads (\<lambda>s. bindE (g s) (\<lambda>(v, s). f v s)) (i @ j) y"
  unfolding reads_def
proof (intro allI)
  fix pre post
  show "bindE (g \<lparr>mSerializer = \<lparr>mData = pre @ (i @ j) @ post\<rparr>, mPos = length pre\<rparr>) (\<lambda>(v, s). f v s) =
    Inr (y, \<lparr>mSerializer = \<lparr>mData = pre @ (i @ j) @ post\<rparr>, mPos = length pre + length (i @ j)\<rparr>)"
    using readsD [OF assms(1), of pre "j @ post"] readsD [OF assms(2), of "pre @ i" post] by (simp add: add.assoc)
qed

lemma reads_return: "reads (\<lambda>s. Inr (x, s)) [] x"
  by (simp add: reads_def)

lemma reads_as: "reads g i x \<Longrightarrow> reads (get_as c g) i (c x)"
  using reads_bind [OF _ reads_return, of g i x c] by (simp add: get_as_def reads_def)

lemma reads_int:
  "reads it_get8 [b] b" "reads it_get16 (be_bytes 2 h) h" "reads it_get32 (be_bytes 4 i) i" "reads it_get64 (be_bytes 8 l) l"
  "reads it_get128 (be_bytes 16 a) a" "reads it_get160 (be_bytes 20 c) c" "reads it_get256 (be_bytes 32 d) d"
  using c16.get_img c32.get_img c64.get_img c160.get_img c256.get_img
  by (auto simp: reads_def it_get8_def it_get_def get8_def it_get128_def get128_def be_word_be_bytes)

lemma reads_vl: "length v \<le> 918744 \<Longrightarrow> reads it_getVL (vl_image v) v"
  using vl.get_img by (simp add: reads_def)

lemma reads_amount: "wire_ok a \<Longrightarrow> reads amount_construct (amount_image a) a"
  using am.get_img by (simp add: reads_def)

lemma reads_field: "0 < type \<Longrightarrow> type < 256 \<Longrightarrow> 0 < name \<Longrightarrow> name < 256 \<Longrightarrow> reads it_getFieldID (field_image (type, name)) (type, name)"
  using fid.get_img by (simp add: reads_def)

subsection \<open>Path sets and vectors\<close>

definition wire_element :: "STPathElement \<Rightarrow> bool" where
  "wire_element e \<longleftrightarrow> peType e \<noteq> 0 \<and>
     e = mkPathElement (peAccountID e) (peCurrencyID e) (peIssuerID e) (peType e AND typeCurrency \<noteq> 0)"

definition wire_paths :: "STPathElement list list \<Rightarrow> bool" where
  "wire_paths ps \<longleftrightarrow> ps \<noteq> [] \<and> (\<forall>p\<in>set ps. p \<noteq> [] \<and> (\<forall>e\<in>set p. wire_element e))"

definition element_body :: "STPathElement \<Rightarrow> Blob" where
  "element_body e = (if peType e AND typeAccount \<noteq> 0 then be_bytes 20 (peAccountID e) else []) @
     (if peType e AND typeCurrency \<noteq> 0 then be_bytes 20 (peCurrencyID e) else []) @
     (if peType e AND typeIssuer \<noteq> 0 then be_bytes 20 (peIssuerID e) else [])"

definition element_image :: "STPathElement \<Rightarrow> Blob" where
  "element_image e = ucast (peType e) # element_body e"

fun paths_image :: "STPathElement list list \<Rightarrow> Blob" where
  "paths_image [] = []"
| "paths_image [p] = concat (map element_image p) @ [0]"
| "paths_image (p # ps) = concat (map element_image p) @ [typeBoundary] @ paths_image ps"

lemma element_put_data: "mData (element_put e s) = mData s @ element_image e"
  by (simp add: element_put_def element_image_def element_body_def add_data Let_def)

lemma elements_put_data: "mData (fold element_put p s) = mData s @ concat (map element_image p)"
  by (induction p arbitrary: s) (simp_all add: element_put_data)

lemma paths_put_data: "ps \<noteq> [] \<Longrightarrow>
  mData (paths_put b ps s) @ [0] = mData s @ (if b then [] else [typeBoundary]) @ paths_image ps"
proof (induction ps arbitrary: b s rule: paths_image.induct)
  case (3 p q qs)
  show ?case using "3.IH" [of False] by (simp add: elements_put_data add_data)
qed (auto simp: elements_put_data add_data)

lemma pathset_put_data: "ps \<noteq> [] \<Longrightarrow> mData (pathset_put ps s) = mData s @ paths_image ps"
  using paths_put_data [of ps True s] by (simp add: pathset_put_def add_data)

lemma element_types:
  assumes "wire_element e"
  shows "ucast (peType e) \<noteq> (0::u8)" "ucast (peType e) \<noteq> typeBoundary"
    "ucast (peType e) AND NOT (ucast (typeAccount OR typeCurrency OR typeIssuer)) = (0::u8)"
    "ucast (ucast (peType e) :: u8) = peType e"
proof -
  obtain a c i f where e: "e = mkPathElement a c i f" and nz: "peType e \<noteq> 0" using assms unfolding wire_element_def by metis
  then have t: "peType e \<in> {1, 16, 17, 32, 33, 48, 49}"
    by (auto simp: mkPathElement_def typeAccount_def typeCurrency_def typeIssuer_def)
  then show "ucast (peType e) \<noteq> (0::u8)" "ucast (peType e) \<noteq> typeBoundary"
    "ucast (peType e) AND NOT (ucast (typeAccount OR typeCurrency OR typeIssuer)) = (0::u8)"
    "ucast (ucast (peType e) :: u8) = peType e"
    by (auto simp: typeBoundary_def typeAccount_def typeCurrency_def typeIssuer_def)
qed

lemma reads_element:
  assumes "wire_element e"
  shows "reads (element_get (peType e)) (element_body e) e"
proof -
  have e: "e = mkPathElement (peAccountID e) (peCurrencyID e) (peIssuerID e) (peType e AND typeCurrency \<noteq> 0)"
    using assms by (simp add: wire_element_def)
  have bit: "peType e AND typeAccount \<noteq> 0 \<or> peAccountID e = 0" "peType e AND typeCurrency \<noteq> 0 \<or> peCurrencyID e = 0"
      "peType e AND typeIssuer \<noteq> 0 \<or> peIssuerID e = 0"
    by (subst e; simp add: mkPathElement_def typeAccount_def typeCurrency_def typeIssuer_def)+
  have opt: "b \<or> w = 0 \<Longrightarrow> reads (\<lambda>s. if b then it_get160 s else Inr (0, s)) (if b then be_bytes 20 w else []) w" for b w
    by (cases b) (simp_all add: reads_int reads_return)
  show ?thesis unfolding element_get_def element_body_def
    by (rule reads_bind [OF opt [OF bit(1)]], rule reads_bind [OF opt [OF bit(2)]], rule reads_bind [OF opt [OF bit(3)], of _ "[]", simplified])
      (use e reads_return [of e] in simp)
qed

lemma paths_image_Cons: "paths_image ((e # es) # ps) = element_image e @ paths_image (es # ps)"
  by (cases ps) simp_all

lemma paths_get_image:
  assumes "\<forall>q\<in>set (p # ps). \<forall>e\<in>set q. wire_element e" "path @ p \<noteq> []" "[] \<notin> set ps"
    "length (paths_image (p # ps)) \<le> n"
  shows "paths_get n paths path \<lparr>mSerializer = \<lparr>mData = pre @ paths_image (p # ps) @ post\<rparr>, mPos = length pre\<rparr> =
    Inr (paths @ (path @ p) # ps, \<lparr>mSerializer = \<lparr>mData = pre @ paths_image (p # ps) @ post\<rparr>, mPos = length pre + length (paths_image (p # ps))\<rparr>)"
  using assms
proof (induction n arbitrary: p ps paths path pre)
  case 0
  then show ?case by (cases p; cases ps) (auto simp: element_image_def)
next
  case (Suc n)
  show ?case
  proof (cases p)
    case (Cons e es)
    have e: "wire_element e" using Suc.prems Cons by simp
    have g: "it_get8 \<lparr>mSerializer = \<lparr>mData = pre @ ucast (peType e) # element_body e @ rest\<rparr>, mPos = length pre\<rparr> =
        Inr (ucast (peType e), \<lparr>mSerializer = \<lparr>mData = pre @ ucast (peType e) # element_body e @ rest\<rparr>, mPos = Suc (length pre)\<rparr>)" for rest
      using readsD [OF reads_int(1), of pre "ucast (peType e)" "element_body e @ rest"] by simp
    have r: "element_get (peType e) \<lparr>mSerializer = \<lparr>mData = pre @ ucast (peType e) # element_body e @ rest\<rparr>, mPos = Suc (length pre)\<rparr> =
        Inr (e, \<lparr>mSerializer = \<lparr>mData = pre @ ucast (peType e) # element_body e @ rest\<rparr>, mPos = Suc (length pre + length (element_body e))\<rparr>)" for rest
      using readsD [OF reads_element [OF e], of "pre @ [ucast (peType e)]" rest] by simp
    show ?thesis
      using Suc.prems Cons element_types [OF e] Suc.IH [of es ps "path @ [e]" paths "pre @ element_image e"]
      by (simp add: paths_image_Cons) (simp add: element_image_def g r)
  next
    case Nil
    show ?thesis
    proof (cases ps)
      case (Cons q qs)
      have g: "it_get8 \<lparr>mSerializer = \<lparr>mData = pre @ typeBoundary # rest\<rparr>, mPos = length pre\<rparr> =
          Inr (typeBoundary, \<lparr>mSerializer = \<lparr>mData = pre @ typeBoundary # rest\<rparr>, mPos = Suc (length pre)\<rparr>)" for rest
        using readsD [OF reads_int(1), of pre typeBoundary rest] by simp
      show ?thesis using Suc.prems Nil Cons Suc.IH [of q qs "[]" "paths @ [path]" "pre @ [typeBoundary]"]
        by (simp add: g) (auto simp: typeBoundary_def)
    next
      case Nil': Nil
      have g: "it_get8 \<lparr>mSerializer = \<lparr>mData = pre @ 0 # post\<rparr>, mPos = length pre\<rparr> =
          Inr (0, \<lparr>mSerializer = \<lparr>mData = pre @ 0 # post\<rparr>, mPos = Suc (length pre)\<rparr>)"
        using readsD [OF reads_int(1), of pre 0 post] by simp
      show ?thesis using Suc.prems Nil Nil' by (simp add: g)
    qed
  qed
qed

lemma reads_paths: "wire_paths ps \<Longrightarrow> reads pathset_construct (paths_image ps) ps"
proof (cases ps)
  case (Cons p qs)
  assume "wire_paths ps"
  then show ?thesis unfolding reads_def pathset_construct_def bytes_left_def Cons
    by (intro allI) (subst paths_get_image; auto simp: wire_paths_def Cons)
qed (simp add: wire_paths_def)

lemma v256_of_image: "v256_of (length v) (concat (map (be_bytes 32) v)) = v"
  by (induction v) (simp_all add: be_word_be_bytes)

lemma length_v256 [simp]: "length (concat (map (be_bytes 32) v)) = 32 * length v"
  by (induction v) auto

lemma reads_v256: "32 * length v \<le> 918744 \<Longrightarrow> reads v256_construct (vl_image (concat (map (be_bytes 32) v))) v"
  using reads_bind [OF reads_vl reads_return, of "concat (map (be_bytes 32) v)" "\<lambda>d. v256_of (length d div 32) d"]
  by (simp add: v256_construct_def [abs_def] v256_of_image)

lemma add_vl_image: "length v \<le> 918744 \<Longrightarrow> add_vl v s = Inr \<lparr>mData = mData s @ vl_image v\<rparr>"
  using encodeVL_short [of "int (length v)"] by (auto simp: add_vl_def addVL_encoded vl_image_def)

subsection \<open>Objects on the wire\<close>

fun value_type :: "st_value \<Rightarrow> SerializedTypeID" where
  "value_type (VU8 _) = STI_UINT8"
| "value_type (VU16 _) = STI_UINT16"
| "value_type (VU32 _) = STI_UINT32"
| "value_type (VU64 _) = STI_UINT64"
| "value_type (VH128 _) = STI_HASH128"
| "value_type (VH160 _) = STI_HASH160"
| "value_type (VH256 _) = STI_HASH256"
| "value_type (VAmount _) = STI_AMOUNT"
| "value_type (VBlob _) = STI_VL"
| "value_type (VAccount _) = STI_ACCOUNT"
| "value_type (VPathSet _) = STI_PATHSET"
| "value_type (VV256 _) = STI_VECTOR256"
| "value_type (VObject _) = STI_OBJECT"
| "value_type (VArray _) = STI_ARRAY"

text \<open>The fields the reader knows: a number of one byte that is declared or may be added to its type.\<close>

definition wire_field :: "sfield \<Rightarrow> bool" where
  "wire_field f \<longleftrightarrow> 0 < fieldValue f \<and> fieldValue f < 256 \<and> f \<noteq> SField STI_OBJECT 1 \<and> f \<noteq> SField STI_ARRAY 1 \<and>
     (int (type_code (fieldType f)) + fieldValue f \<le> 255 \<or> fieldValue f \<in> set (declared (fieldType f)))"

definition sorted_codes :: "fields \<Rightarrow> bool" where
  "sorted_codes fs \<longleftrightarrow> sorted_wrt (<) (map (fieldCode \<circ> fst) fs)"

text \<open>Values that can be written and read back; inner objects hold their fields in the order of the codes.\<close>

fun wire_value :: "st_value \<Rightarrow> bool" where
  "wire_value (VAmount a) \<longleftrightarrow> wire_ok a"
| "wire_value (VBlob v) \<longleftrightarrow> length v \<le> 918744"
| "wire_value (VAccount v) \<longleftrightarrow> length v \<le> 918744"
| "wire_value (VPathSet ps) \<longleftrightarrow> wire_paths ps"
| "wire_value (VV256 v) \<longleftrightarrow> 32 * length v \<le> 918744"
| "wire_value (VObject fs) \<longleftrightarrow> sorted_codes fs \<and>
     (\<forall>p\<in>set fs. wire_field (fst p) \<and> fieldType (fst p) = value_type (snd p) \<and> wire_value (snd p))"
| "wire_value (VArray os) \<longleftrightarrow> (\<forall>p\<in>set os. wire_field (fst p) \<and> sorted_codes (snd p) \<and>
     (\<forall>q\<in>set (snd p). wire_field (fst q) \<and> fieldType (fst q) = value_type (snd q) \<and> wire_value (snd q)))"
| "wire_value _ \<longleftrightarrow> True"

abbreviation wire_fields :: "fields \<Rightarrow> bool" where
  "wire_fields fs \<equiv> wire_value (VObject fs)"

definition id_image :: "sfield \<Rightarrow> Blob" where
  "id_image f = field_image (type_code (fieldType f), nat (fieldValue f))"

definition object_end :: Blob where "object_end = field_image (14, 1)"
definition array_end :: Blob where "array_end = field_image (15, 1)"

fun end_image :: "st_value \<Rightarrow> Blob" where
  "end_image (VArray _) = array_end"
| "end_image (VObject _) = object_end"
| "end_image _ = []"

fun value_image :: "st_value \<Rightarrow> Blob" where
  "value_image (VU8 v) = [v]"
| "value_image (VU16 v) = be_bytes 2 v"
| "value_image (VU32 v) = be_bytes 4 v"
| "value_image (VU64 v) = be_bytes 8 v"
| "value_image (VH128 v) = be_bytes 16 v"
| "value_image (VH160 v) = be_bytes 20 v"
| "value_image (VH256 v) = be_bytes 32 v"
| "value_image (VAmount v) = amount_image v"
| "value_image (VBlob v) = vl_image v"
| "value_image (VAccount v) = vl_image v"
| "value_image (VPathSet v) = paths_image v"
| "value_image (VV256 v) = vl_image (concat (map (be_bytes 32) v))"
| "value_image (VObject fs) = concat (map (\<lambda>p. id_image (fst p) @ value_image (snd p) @ end_image (snd p)) fs)"
| "value_image (VArray os) = concat (map (\<lambda>p. id_image (fst p) @
     concat (map (\<lambda>q. id_image (fst q) @ value_image (snd q) @ end_image (snd q)) (snd p)) @ object_end) os)"

abbreviation fields_image :: "fields \<Rightarrow> Blob" where
  "fields_image fs \<equiv> value_image (VObject fs)"

lemma array_image: "value_image (VArray os) = concat (map (\<lambda>p. id_image (fst p) @ fields_image (snd p) @ object_end) os)"
  by simp

lemma map_insert_last: "\<forall>p\<in>set m. fst p < k \<Longrightarrow> map_insert k x m = m @ [(k, x)]"
proof -
  assume a: "\<forall>p\<in>set m. fst p < k"
  then have "map_of m k = None" by (auto simp: map_of_eq_None_iff)
  moreover have "map_put k x m = m @ [(k, x)]" using a by (induction k x m rule: map_put.induct) auto
  ultimately show ?thesis by (simp add: map_insert_def)
qed

lemma fold_insert_sorted:
  "sorted_codes (map snd m @ fs) \<Longrightarrow> \<forall>p\<in>set m. fst p = fieldCode (fst (snd p)) \<Longrightarrow>
   fold (\<lambda>p. map_insert (fieldCode (fst p)) p) fs m = m @ map (\<lambda>p. (fieldCode (fst p), p)) fs"
proof (induction fs arbitrary: m)
  case (Cons p fs)
  have "map_insert (fieldCode (fst p)) p m = m @ [(fieldCode (fst p), p)]"
    using Cons.prems by (intro map_insert_last) (auto simp: sorted_codes_def sorted_wrt_append)
  then show ?case using Cons.IH [of "m @ [(fieldCode (fst p), p)]"] Cons.prems by simp
qed simp

lemma sort_fields_id: "sorted_codes fs \<Longrightarrow> \<forall>p\<in>set fs. wire_field (fst p) \<Longrightarrow> sort_fields True fs = fs"
proof -
  assume s: "sorted_codes fs" and w: "\<forall>p\<in>set fs. wire_field (fst p)"
  have "filter (\<lambda>p. shouldInclude True (fst p)) fs = fs" using w by (auto simp: shouldInclude_def wire_field_def)
  then show ?thesis using fold_insert_sorted [of "[]" fs] s by (simp add: sort_fields_def o_def)
qed

lemma Serializer_eqI: "mData s = d \<Longrightarrow> s = \<lparr>mData = d\<rparr>" by simp

lemma id_put: "addFieldID_of f s = \<lparr>mData = mData s @ id_image f\<rparr>"
  by (rule Serializer_eqI) (simp add: addFieldID_of_def id_image_def field_image_def addFieldID_data)

lemma end_put: "end_mark v s = \<lparr>mData = mData s @ end_image v\<rparr>" "snd (addFieldID 14 (Suc 0) s) = \<lparr>mData = mData s @ object_end\<rparr>"
  by (cases v; rule Serializer_eqI; simp add: object_end_def array_end_def field_image_def addFieldID_data)
    (rule Serializer_eqI, simp add: object_end_def field_image_def addFieldID_data)

lemma add_value_image:
  "wire_value v \<Longrightarrow> add_value v s = Inr \<lparr>mData = mData s @ value_image v\<rparr>"
  "(\<forall>p\<in>set fs. wire_value (snd p)) \<Longrightarrow> add_sorted fs s = Inr \<lparr>mData = mData s @ fields_image fs\<rparr>"
  "wire_value (VArray os) \<Longrightarrow> add_objects os s = Inr \<lparr>mData = mData s @ value_image (VArray os)\<rparr>"
proof (induction v s and fs s and os s rule: add_value_add_sorted_add_objects.induct)
  case (16 f v fs s)
  then show ?case by (simp add: id_put end_put)
next
  case (18 f fs os s)
  then show ?case by (simp add: id_put end_put sort_fields_id)
next
  case (8 v s)
  then show ?case by (auto intro: Serializer_eqI simp: am.put_img)
next
  case (11 v s)
  then show ?case by (auto intro: Serializer_eqI simp: pathset_put_data wire_paths_def)
next
  case (12 v s)
  then show ?case by (simp add: add_vl_image)
qed (auto intro: Serializer_eqI simp: add_data add_vl_image sort_fields_id)

lemma get_simple_reads:
  "wire_value v \<Longrightarrow> value_type v \<noteq> STI_OBJECT \<Longrightarrow> value_type v \<noteq> STI_ARRAY \<Longrightarrow>
   reads (get_simple (value_type v)) (value_image v) v"
  by (cases v) (auto intro!: reads_as reads_int reads_vl reads_amount reads_paths reads_v256)

lemma type_code_bounds: "0 < type_code t" "type_code t < 256"
  by (cases t; simp)+

lemma types_by_code: "filter (\<lambda>u. type_code u = type_code t) all_types = [t]"
  by (cases t) (simp_all add: all_types_def)

lemma code_mod: "0 < v \<Longrightarrow> v < 256 \<Longrightarrow> FIELD_CODE (type_code t) v mod 0xffff = int (type_code t) + v"
proof -
  assume "0 < v" "v < 256"
  moreover have "FIELD_CODE (type_code t) v = int (type_code t) + v + int (type_code t) * 0xffff" by (simp add: FIELD_CODE_def)
  ultimately show ?thesis using type_code_bounds [of t] by (simp only: mod_mult_self1) simp
qed

lemma getField_wire: "wire_field f \<Longrightarrow> getField (type_code (fieldType f)) (nat (fieldValue f)) = Some f"
  using type_code_bounds [of "fieldType f"]
  by (cases f) (simp add: wire_field_def getField_def Let_def types_by_code code_mod, auto)

lemma reads_id: "wire_field f \<Longrightarrow> reads it_getFieldID (id_image f) (type_code (fieldType f), nat (fieldValue f))"
  unfolding id_image_def by (intro reads_field) (use type_code_bounds in \<open>auto simp: wire_field_def\<close>)

lemma wire_field_not_end: "wire_field f \<Longrightarrow> \<not> (type_code (fieldType f) = 14 \<and> nat (fieldValue f) = 1)"
  "wire_field f \<Longrightarrow> \<not> (type_code (fieldType f) = 15 \<and> nat (fieldValue f) = 1)"
  by (cases f; cases "fieldType f"; auto simp: wire_field_def nat_eq_iff)+

lemma id_image_length: "0 < length (id_image f)" "length object_end = 1" "length array_end = 1"
  by (simp_all add: id_image_def field_image_def addFieldID_data object_end_def array_end_def)

lemma id_image_Cons: "\<exists>b bs. id_image f = b # bs"
  using id_image_length(1) [of f] by (cases "id_image f") auto

text \<open>What may follow the fields of an object: its mark, or nothing at the end of the data.\<close>

definition ends :: "Blob \<Rightarrow> bool \<Rightarrow> nat \<Rightarrow> bool" where
  "ends rest e k \<longleftrightarrow> (e \<and> (\<exists>post. rest = object_end @ post) \<and> k = 1) \<or> (\<not> e \<and> rest = [] \<and> k = 0)"

lemma set_fields_end:
  "ends rest e k \<Longrightarrow> set_fields (Suc n) \<lparr>mSerializer = \<lparr>mData = pre @ rest\<rparr>, mPos = length pre\<rparr> =
     Inr (([], e), \<lparr>mSerializer = \<lparr>mData = pre @ rest\<rparr>, mPos = length pre + k\<rparr>)"
  using readsD [OF reads_field [of 14 1], of pre] id_image_length(2)
  by (auto simp: ends_def it_empty_def object_end_def)

lemma get_objects_end:
  "get_objects (Suc n) \<lparr>mSerializer = \<lparr>mData = pre @ array_end @ post\<rparr>, mPos = length pre\<rparr> =
     Inr ([], \<lparr>mSerializer = \<lparr>mData = pre @ array_end @ post\<rparr>, mPos = length pre + 1\<rparr>)"
  using readsD [OF reads_field [of 15 1], of pre post] id_image_length(3)
  by (auto simp: it_empty_def array_end_def)

lemma objects_read:
  "wire_fields fs \<Longrightarrow> length (fields_image fs) < n \<Longrightarrow> ends rest e k \<Longrightarrow>
     set_fields n \<lparr>mSerializer = \<lparr>mData = pre @ fields_image fs @ rest\<rparr>, mPos = length pre\<rparr> =
     Inr ((fs, e), \<lparr>mSerializer = \<lparr>mData = pre @ fields_image fs @ rest\<rparr>, mPos = length pre + length (fields_image fs) + k\<rparr>)"
  "wire_value (VArray os) \<Longrightarrow> length (value_image (VArray os)) < n \<Longrightarrow>
     get_objects n \<lparr>mSerializer = \<lparr>mData = pre @ value_image (VArray os) @ array_end @ post\<rparr>, mPos = length pre\<rparr> =
     Inr (os, \<lparr>mSerializer = \<lparr>mData = pre @ value_image (VArray os) @ array_end @ post\<rparr>, mPos = length pre + length (value_image (VArray os)) + 1\<rparr>)"
proof (induction n arbitrary: fs os pre rest e k post)
  case 0
  {
    case 1
    then show ?case by simp
  next
    case 2
    then show ?case by simp
  }
next
  case (Suc n)
  have vread: "makeDeserializedObject n (value_type v) \<lparr>mSerializer = \<lparr>mData = pre @ value_image v @ end_image v @ post\<rparr>, mPos = length pre\<rparr> =
      Inr (v, \<lparr>mSerializer = \<lparr>mData = pre @ value_image v @ end_image v @ post\<rparr>, mPos = length pre + length (value_image v @ end_image v)\<rparr>)"
    if "wire_value v" "length (value_image v) < n" for v pre post
  proof (cases "value_type v = STI_OBJECT \<or> value_type v = STI_ARRAY")
    case True
    then show ?thesis using that Suc.IH(1) [of _ "object_end @ post" True 1 pre] Suc.IH(2) [of _ pre post]
      by (cases v) (auto simp: ends_def id_image_length)
  next
    case False
    then have "end_image v = []" by (cases v) auto
    then show ?thesis using False readsD [OF get_simple_reads [OF that(1)], of pre post] by simp
  qed
  {
    case 1
    show ?case
    proof (cases fs)
      case Nil
      then show ?thesis using set_fields_end [OF 1(3), of n pre] by simp
    next
      case (Cons p ps)
      obtain f v where p: "p = (f, v)" by fastforce
      have w: "wire_field f" "fieldType f = value_type v" "wire_value v" "wire_fields ps" and len: "length (value_image v) < n" "length (fields_image ps) < n"
        using 1 Cons p id_image_Cons [of f] by (auto simp: sorted_codes_def)
      show ?thesis
        using readsD [OF reads_id [OF w(1)], of pre "value_image v @ end_image v @ fields_image ps @ rest"]
          vread [OF w(3) len(1), of "pre @ id_image f" "fields_image ps @ rest"]
          Suc.IH(1) [OF w(4) len(2) 1(3), of "pre @ id_image f @ value_image v @ end_image v"]
          getField_wire [OF w(1)] wire_field_not_end(1) [OF w(1)] id_image_length(1) [of f] w(2)
        by (simp add: Cons p it_empty_def add.assoc del: makeDeserializedObject.simps)
    qed
  next
    case 2
    show ?case
    proof (cases os)
      case Nil
      then show ?thesis using get_objects_end [of n pre post] by simp
    next
      case (Cons p ps)
      obtain f fs where p: "p = (f, fs)" by fastforce
      have w: "wire_field f" "wire_fields fs" "wire_value (VArray ps)" and len: "length (fields_image fs) < n" "length (value_image (VArray ps)) < n"
        using 2 Cons p id_image_Cons [of f] by auto
      show ?thesis
        using readsD [OF reads_id [OF w(1)], of pre "fields_image fs @ object_end @ value_image (VArray ps) @ array_end @ post"]
          Suc.IH(1) [OF w(2) len(1), of "object_end @ value_image (VArray ps) @ array_end @ post" True 1 "pre @ id_image f"]
          Suc.IH(2) [OF w(3) len(2), of "pre @ id_image f @ fields_image fs @ object_end" post]
          getField_wire [OF w(1)] wire_field_not_end(2) [OF w(1)] id_image_length
        by (simp add: Cons p it_empty_def add.assoc ends_def)
    qed
  }
qed

lemma object_codec:
  assumes "wire_fields fs"
  shows "\<exists>s'. object_add True fs s = Inr s' \<and>
    object_set \<lparr>mSerializer = s', mPos = length (mData s)\<rparr> = Inr ((fs, False), \<lparr>mSerializer = s', mPos = length (mData s')\<rparr>)"
proof -
  have w: "sort_fields True fs = fs" "\<forall>p\<in>set fs. wire_value (snd p)" using assms sort_fields_id by auto
  have a: "object_add True fs s = Inr \<lparr>mData = mData s @ fields_image fs\<rparr>"
    by (simp only: object_add_def w(1) add_value_image(2) [OF w(2)])
  show ?thesis using objects_read(1) [OF assms, of _ "[]" False 0 "mData s"]
    by (simp add: a object_set_def bytes_left_def ends_def del: set_fields.simps value_image.simps)
qed


subsection \<open>The fuel is enough\<close>

text \<open>A reader that stays within the data, moves forward by at least \<open>k\<close> bytes and does not run out of fuel.\<close>

abbreviation out_of_fuel :: exn where
  "out_of_fuel \<equiv> RuntimeError ''out of fuel''"

definition inside :: "SerializerIterator \<Rightarrow> bool" where
  "inside sit \<longleftrightarrow> mPos sit \<le> length (mData (mSerializer sit))"

definition advances :: "nat \<Rightarrow> SerializerIterator \<Rightarrow> exn + 'a \<times> SerializerIterator \<Rightarrow> bool" where
  "advances k sit r \<longleftrightarrow> (case r of Inl e \<Rightarrow> e \<noteq> out_of_fuel
     | Inr (_, sit') \<Rightarrow> mSerializer sit' = mSerializer sit \<and> inside sit' \<and> bytes_left sit' + k \<le> bytes_left sit)"

lemma advances_bind:
  assumes "advances j sit m" "\<And>v sit'. m = Inr (v, sit') \<Longrightarrow> inside sit' \<Longrightarrow> bytes_left sit' + j \<le> bytes_left sit \<Longrightarrow> advances i sit' (f (v, sit'))"
  shows "advances (j + i) sit (bindE m f)"
proof (cases m)
  case (Inr p)
  obtain v sit' where p: "p = (v, sit')" by fastforce
  have i: "inside sit'" "bytes_left sit' + j \<le> bytes_left sit" "mSerializer sit' = mSerializer sit" using assms(1) by (auto simp: advances_def Inr p)
  show ?thesis using assms(2) [OF Inr [unfolded p] i(1,2)] i by (auto simp: Inr p advances_def split: sum.splits)
qed (use assms in \<open>auto simp: advances_def\<close>)

lemma advances_weaken: "advances k sit r \<Longrightarrow> j \<le> k \<Longrightarrow> advances j sit r"
  by (auto simp: advances_def split: sum.splits)

lemma advances_Inr: "inside sit \<Longrightarrow> advances 0 sit (Inr (v, sit))"
  by (simp add: advances_def)

lemma advances_int: "inside sit \<Longrightarrow> advances 1 sit (it_get8 sit)" "inside sit \<Longrightarrow> advances 0 sit (it_get16 sit)"
  "inside sit \<Longrightarrow> advances 0 sit (it_get32 sit)" "inside sit \<Longrightarrow> advances 0 sit (it_get64 sit)" "inside sit \<Longrightarrow> advances 0 sit (it_get128 sit)"
  "inside sit \<Longrightarrow> advances 0 sit (it_get160 sit)" "inside sit \<Longrightarrow> advances 0 sit (it_get256 sit)"
  by (auto simp: advances_def it_get8_def it_get16_def it_get32_def it_get64_def it_get128_def it_get160_def it_get256_def it_get_def
      get8_def get16_def get32_def get64_def get128_def get160_def get256_def inside_def bytes_left_def split: option.splits if_splits)

lemma getFieldID_length:
  "getFieldID s off = Some (type, name) \<Longrightarrow> off + 1 + (if type \<ge> 16 then 1 else 0) + (if name \<ge> 16 then 1 else 0) \<le> length (mData s)"
proof -
  assume g: "getFieldID s off = Some (type, name)"
  have "unat b div 16 < 16" for b :: u8 using unsigned_less [of b, where 'a = nat] by (simp add: less_mult_imp_div_less)
  then show ?thesis using g
    by (auto simp: getFieldID_def get8_def Let_def u8_low_nibble u8_high_nibble not_less [symmetric] split: option.splits if_splits)
qed

lemma advances_id: "inside sit \<Longrightarrow> advances 1 sit (it_getFieldID sit)"
  using getFieldID_length [of "mSerializer sit" "mPos sit"]
  by (fastforce simp: advances_def it_getFieldID_def inside_def bytes_left_def split: option.splits)

lemma advances_vl: "inside sit \<Longrightarrow> advances 0 sit (it_getVL sit)"
  by (auto simp: advances_def it_getVL_def getVL_def getRaw_def decodeLengthLength_def get8_def inside_def bytes_left_def Let_def
      split: option.splits if_splits sum.splits)

lemma scale_down_error: "scale_down v off = Inl e \<Longrightarrow> e = RuntimeError ''value overflow''"
  by (induction v off rule: scale_down.induct) (subst (asm) (2) scale_down.simps, auto split: if_splits)

lemma mkAmount_error: "mkAmount c i v off n \<noteq> Inl out_of_fuel"
  by (auto simp: mkAmount_def canonicalize_def Let_def exn_simps split: if_splits prod.splits dest: scale_down_error)

lemma advances_lift: "r \<noteq> Inl out_of_fuel \<Longrightarrow> inside sit \<Longrightarrow> advances 0 sit (bindE r (\<lambda>a. Inr (a, sit)))"
  by (cases r) (auto simp: advances_def)

lemma advances_Inl [simp]: "advances k sit (Inl e) \<longleftrightarrow> e \<noteq> out_of_fuel"
  by (simp add: advances_def)

lemma advances_bind0:
  "advances 0 sit m \<Longrightarrow> (\<And>v s. inside s \<Longrightarrow> bytes_left s \<le> bytes_left sit \<Longrightarrow> advances 0 s (f v s)) \<Longrightarrow> advances 0 sit (bindE m (\<lambda>(v, s). f v s))"
  using advances_bind [of 0 sit m 0 "\<lambda>(v, s). f v s"] by simp

lemma advances_amount: "inside sit \<Longrightarrow> advances 0 sit (amount_construct sit)"
  unfolding amount_construct_def
  by (auto intro!: advances_bind0 advances_int(4,6) simp: advances_Inr Let_def mkAmount_error advances_lift)

lemma advances_element: "inside sit \<Longrightarrow> advances 0 sit (element_get t sit)"
  unfolding element_get_def by (auto intro!: advances_bind0 advances_int(6) advances_Inr)

lemma advances_paths: "inside sit \<Longrightarrow> bytes_left sit < n \<Longrightarrow> advances 0 sit (paths_get n paths path sit)"
proof (induction n arbitrary: paths path sit)
  case (Suc n)
  have "advances (1 + 0) sit (paths_get (Suc n) paths path sit)" unfolding paths_get.simps
  proof (rule advances_bind [OF advances_int(1) [OF Suc.prems(1)]], goal_cases)
    case (1 b s)
    have l: "bytes_left s < n" using 1 Suc.prems by simp
    have el: "advances (0 + 0) s (bindE (element_get (ucast b) s) (\<lambda>(e, s). paths_get n paths (path @ [e]) s))"
      by (rule advances_bind [OF advances_element [OF 1(2)]]) (use Suc.IH l in auto)
    show ?case using 1 Suc.IH [OF 1(2) l] el by (auto simp: advances_def)
  qed
  then show ?case by (rule advances_weaken) simp
qed simp

lemma advances_as: "advances k sit (g sit) \<Longrightarrow> advances k sit (get_as c g sit)"
  using advances_bind [of k sit "g sit" 0 "\<lambda>(v, sit). Inr (c v, sit)"] by (auto simp: get_as_def advances_Inr)

lemma advances_v256: "inside sit \<Longrightarrow> advances 0 sit (v256_construct sit)"
  unfolding v256_construct_def by (rule advances_bind [OF advances_vl, of _ 0, simplified]) (auto simp: advances_Inr)

lemma advances_simple: "inside sit \<Longrightarrow> t \<noteq> STI_OBJECT \<Longrightarrow> t \<noteq> STI_ARRAY \<Longrightarrow> advances 0 sit (get_simple t sit)"
  by (cases t) (auto intro!: advances_as advances_int advances_vl advances_amount advances_v256
      intro: advances_int(1) [THEN advances_weaken] simp: advances_paths pathset_construct_def simp del: paths_get.simps)

lemma advances_bindp:
  "advances 0 sit m \<Longrightarrow> (\<And>p. inside (snd p) \<Longrightarrow> bytes_left (snd p) \<le> bytes_left sit \<Longrightarrow> advances 0 (snd p) (f p)) \<Longrightarrow> advances 0 sit (bindE m f)"
  using advances_bind [of 0 sit m 0 f] by fastforce

lemma advances_id_bind:
  assumes "inside sit" "\<And>p. inside (snd p) \<Longrightarrow> bytes_left (snd p) < bytes_left sit \<Longrightarrow> advances 0 (snd p) (f p)"
  shows "advances 0 sit (bindE (it_getFieldID sit) f)"
  using advances_bind [OF advances_id [OF assms(1)], of 0 f] assms(2) by (fastforce intro: advances_weaken)

lemma advances_objects:
  "inside sit \<Longrightarrow> bytes_left sit < n \<Longrightarrow> advances 0 sit (set_fields n sit)"
  "inside sit \<Longrightarrow> bytes_left sit < n \<Longrightarrow> advances 0 sit (get_objects n sit)"
proof (induction n arbitrary: sit)
  case (Suc n)
  have mk: "advances 0 s (makeDeserializedObject n t s)" if "inside s" "bytes_left s < n" for s t
    using Suc.IH [OF that] advances_simple [OF that(1)]
    by (auto intro!: advances_bindp advances_Inr simp: case_prod_unfold)
  {
    case 1
    then show ?case unfolding set_fields.simps case_prod_unfold
      by (cases "it_empty sit"; simp only: if_True if_False)
        (simp add: advances_Inr, rule advances_id_bind, assumption, auto intro!: advances_bindp mk Suc.IH(1) advances_Inr split: option.split simp del: makeDeserializedObject.simps)
  next
    case 2
    then show ?case unfolding get_objects.simps case_prod_unfold
      by (cases "it_empty sit"; simp only: if_True if_False)
        (simp add: advances_Inr, rule advances_id_bind, assumption, auto intro!: advances_bindp Suc.IH advances_Inr split: option.split)
  }
qed simp_all

text \<open>
  C27. Reading an object ends: \<open>STObject::set\<close> on any data, well formed or not, and from any position in
  it returns the fields or throws one of its errors; the fuel of the model, one more than the bytes left,
  never runs out, and the position never leaves the data or moves back.
\<close>

theorem object_set_ends:
  assumes "mPos sit \<le> length (mData (mSerializer sit))"
  shows "case object_set sit of Inl e \<Rightarrow> e \<noteq> RuntimeError ''out of fuel''
    | Inr (_, sit') \<Rightarrow> mSerializer sit' = mSerializer sit \<and> mPos sit \<le> mPos sit' \<and> mPos sit' \<le> length (mData (mSerializer sit'))"
  using advances_objects(1) [of sit "Suc (bytes_left sit)"] assms
  by (fastforce simp: object_set_def advances_def inside_def bytes_left_def simp del: set_fields.simps split: sum.splits)

theorem object_set_ends_witness:
  "case object_set \<lparr>mSerializer = \<lparr>mData = [0x24, 0, 0, 0, 7, 0xE5, 1]\<rparr>, mPos = 0\<rparr> of Inl e \<Rightarrow> e \<noteq> RuntimeError ''out of fuel''
    | Inr (_, sit') \<Rightarrow> mPos sit' \<le> 7"
  using object_set_ends [of "\<lparr>mSerializer = \<lparr>mData = [0x24, 0, 0, 0, 7, 0xE5, 1]\<rparr>, mPos = 0\<rparr>"] by (auto split: sum.splits)

text \<open>
  A payment-like object with a number, an amount, an account, a path set and an array with one inner
  object.
\<close>

definition sample_object :: fields where
  "sample_object = [(sfTransactionType, VU16 0), (sfSequence, VU32 7), (sfAmount, VAmount (mkNative 1000 False)),
     (sfAccount, VAccount (be_bytes 20 (5 :: uint160))), (sfMemos, VArray [(sfMemo, [(sfMemoData, VBlob [1, 2])])]),
     (sfPaths, VPathSet [[mkPathElement 9 0 0 False], [mkPathElement 0 3 4 False]])]"


subsection \<open>Writing objects that are not in order\<close>

text \<open>A value whose variable-length parts are short enough for a length prefix.\<close>

fun short :: "st_value \<Rightarrow> bool" where
  "short (VBlob v) \<longleftrightarrow> length v \<le> 918744"
| "short (VAccount v) \<longleftrightarrow> length v \<le> 918744"
| "short (VV256 v) \<longleftrightarrow> 32 * length v \<le> 918744"
| "short (VObject fs) \<longleftrightarrow> (\<forall>p\<in>set fs. short (snd p))"
| "short (VArray os) \<longleftrightarrow> (\<forall>p\<in>set os. \<forall>q\<in>set (snd p). short (snd q))"
| "short _ \<longleftrightarrow> True"

lemma set_map_put: "set (map_put k x m) \<subseteq> insert (k, x) (set m)"
  by (induction k x m rule: map_put.induct) auto

lemma set_fold_insert: "snd ` set (fold (\<lambda>p. map_insert (fieldCode (fst p)) p) ps m) \<subseteq> set ps \<union> snd ` set m"
proof (induction ps arbitrary: m)
  case (Cons p ps)
  have "snd ` set (map_insert (fieldCode (fst p)) p m) \<subseteq> insert p (snd ` set m)"
    using set_map_put [of "fieldCode (fst p)" p m] by (auto simp: map_insert_def split: option.split)
  then show ?case using Cons.IH [of "map_insert (fieldCode (fst p)) p m"] by (simp only: fold_Cons o_apply list.set) blast
qed simp

lemma set_sort_fields: "set (sort_fields b fs) \<subseteq> set fs"
  using set_fold_insert [of "filter (\<lambda>p. shouldInclude b (fst p)) fs" "[]"] by (auto simp: sort_fields_def)

lemma add_vl_total: "length v \<le> 918744 \<Longrightarrow> \<exists>s'. add_vl v s = Inr s'"
  using encodeVL_short [of "int (length v)"] by (auto simp: add_vl_def addVL_encoded)

lemma add_total:
  "short v \<Longrightarrow> \<exists>s'. add_value v s = Inr s'"
  "\<forall>p\<in>set fs. short (snd p) \<Longrightarrow> \<exists>s'. add_sorted fs s = Inr s'"
  "\<forall>p\<in>set os. \<forall>q\<in>set (snd p). short (snd q) \<Longrightarrow> \<exists>s'. add_objects os s = Inr s'"
proof (induction v s and fs s and os s rule: add_value_add_sorted_add_objects.induct)
  case (13 fs s)
  then show ?case using set_sort_fields [of True fs] by auto
next
  case (16 f v fs s)
  then show ?case by fastforce
next
  case (18 f fs os s)
  have "\<forall>p\<in>set (sort_fields True fs). short (snd p)" using 18(3) set_sort_fields [of True fs] by auto
  then obtain s1 where "add_sorted (sort_fields True fs) (addFieldID_of f s) = Inr s1" using 18(1) by blast
  then show ?case using 18 by auto
qed (auto intro: add_vl_total simp: length_v256)

lemma object_add_total: "\<forall>p\<in>set fs. short (snd p) \<Longrightarrow> \<exists>s'. object_add b fs s = Inr s'"
  using add_total(2) [of "sort_fields b fs" s] set_sort_fields [of b fs] by (auto simp: object_add_def)

lemma map_insert_fresh: "k \<notin> fst ` set m \<Longrightarrow> map_insert k x m = map_put k x m"
  by (auto simp: map_insert_def map_of_eq_None_iff [symmetric] split: option.split)

lemma fold_insert_all:
  assumes "in_order m" "distinct (map (fieldCode \<circ> fst) ps)" "\<forall>p\<in>set ps. fieldCode (fst p) \<notin> fst ` set m"
  shows "in_order (fold (\<lambda>p. map_insert (fieldCode (fst p)) p) ps m) \<and>
    set (fold (\<lambda>p. map_insert (fieldCode (fst p)) p) ps m) = (\<lambda>p. (fieldCode (fst p), p)) ` set ps \<union> set m"
  using assms
proof (induction ps arbitrary: m)
  case (Cons p ps)
  have f: "map_insert (fieldCode (fst p)) p m = map_put (fieldCode (fst p)) p m" using Cons.prems(3) by (simp add: map_insert_fresh)
  have "in_order (fold (\<lambda>p. map_insert (fieldCode (fst p)) p) ps (map_put (fieldCode (fst p)) p m)) \<and>
    set (fold (\<lambda>p. map_insert (fieldCode (fst p)) p) ps (map_put (fieldCode (fst p)) p m)) =
      (\<lambda>p. (fieldCode (fst p), p)) ` set ps \<union> set (map_put (fieldCode (fst p)) p m)"
  proof (rule Cons.IH)
    show "\<forall>q\<in>set ps. fieldCode (fst q) \<notin> fst ` set (map_put (fieldCode (fst p)) p m)"
    proof
      fix q assume "q \<in> set ps"
      then have "fieldCode (fst q) \<noteq> fieldCode (fst p)" "fieldCode (fst q) \<notin> fst ` set m"
        using Cons.prems(2,3) by (auto simp: image_iff)
      then show "fieldCode (fst q) \<notin> fst ` set (map_put (fieldCode (fst p)) p m)" by (simp add: map_put_keys)
    qed
  qed (use Cons.prems in auto)
  then show ?case using Cons.prems(3) by (auto simp: f map_put_set)
qed simp

lemma sort_fields_sorted:
  assumes "distinct (map (fieldCode \<circ> fst) fs)" "\<forall>p\<in>set fs. shouldInclude b (fst p)"
  shows "sorted_codes (sort_fields b fs)" "set (sort_fields b fs) = set fs"
proof -
  define m where "m = fold (\<lambda>p. map_insert (fieldCode (fst p)) p) fs []"
  have m: "in_order m" "set m = (\<lambda>p. (fieldCode (fst p), p)) ` set fs"
    using fold_insert_all [of "[]" fs] assms(1) by (auto simp: m_def)
  have s: "sort_fields b fs = map snd m" using assms(2) by (simp add: sort_fields_def m_def)
  have "map (fieldCode \<circ> fst) (map snd m) = map fst m" using m(2) by auto
  then show "sorted_codes (sort_fields b fs)" using m(1) by (simp only: sorted_codes_def s)
  show "set (sort_fields b fs) = set fs" by (simp add: s m(2) image_image)
qed

end
