(* ===== verification/Metadata.thy ===== *)
theory Metadata
imports Directory Serialized_Object
begin

text \<open>
  The metadata of a transaction: \<open>TransactionMetaSet\<close> (ripple_app/tx/TransactionMeta.cpp), the
  thread of transactions kept in ledger entries (ripple_app/misc/SerializedLedger.cpp) and
  \<open>LedgerEntrySet::calcRawMeta\<close> (ripple_app/ledger/LedgerEntrySet.cpp), which builds the metadata
  from the entries a transaction has touched and threads the transaction to their owners.

  The relation \<open>threads\<close> between two states of the loop says that entries differ in their thread only;
  \<open>gains\<close> adds that no node of the metadata is lost. Every step of the loop is shown to keep them, and
  \<open>calcRawMeta_reports\<close> puts them together.
\<close>

subsection \<open>Fields and their comparison\<close>

definition sMD_Never :: u32 where "sMD_Never = 0x00"
definition sMD_ChangeOrig :: u32 where "sMD_ChangeOrig = 0x01"
definition sMD_ChangeNew :: u32 where "sMD_ChangeNew = 0x02"
definition sMD_DeleteFinal :: u32 where "sMD_DeleteFinal = 0x04"
definition sMD_Create :: u32 where "sMD_Create = 0x08"
definition sMD_Always :: u32 where "sMD_Always = 0x10"
definition sMD_Default :: u32 where
  "sMD_Default = sMD_ChangeOrig OR sMD_ChangeNew OR sMD_DeleteFinal OR sMD_Create"

definition fieldMeta :: "sfield \<Rightarrow> u32" where
  "fieldMeta f =
     (if f = sfIndexes then sMD_Never
      else if f = sfPreviousTxnID then sMD_DeleteFinal
      else if f = sfPreviousTxnLgrSeq then sMD_DeleteFinal
      else if f = sfLedgerEntryType then sMD_Never
      else if f = sfRootIndex then sMD_Always
      else sMD_Default)"

definition shouldMeta :: "sfield \<Rightarrow> u32 \<Rightarrow> bool" where
  "shouldMeta f c \<longleftrightarrow> fieldMeta f AND c \<noteq> 0"

text \<open>The slots of a ledger entry, in the order of its template; an absent optional field is a slot
  without value (an object of type \<open>STI_NOTPRESENT\<close>).\<close>

definition slots :: "SLE \<Rightarrow> (sfield \<times> st_value option) list" where
  "slots sle = map (\<lambda>(f, _). (f, mFields sle f)) (elements (mType sle))"

definition present :: "(sfield \<times> st_value option) list \<Rightarrow> fields" where
  "present xs = List.map_filter (\<lambda>(f, v). map_option (Pair f) v) xs"

text \<open>Comparison of two values of one field (\<open>isEquivalent\<close>); path sets, objects and arrays do not occur
  in a ledger entry.\<close>

fun value_equiv :: "st_value \<Rightarrow> st_value \<Rightarrow> bool" where
  "value_equiv (VAmount a) (VAmount b) \<longleftrightarrow> amount_eq a b"
| "value_equiv v w \<longleftrightarrow> v = w"

fun slot_equiv :: "st_value option \<Rightarrow> st_value option \<Rightarrow> bool" where
  "slot_equiv (Some v) (Some w) \<longleftrightarrow> value_equiv v w"
| "slot_equiv v w \<longleftrightarrow> v = None \<and> w = None"

definition hasMatchingEntry :: "SLE \<Rightarrow> sfield \<times> st_value option \<Rightarrow> bool" where
  "hasMatchingEntry sle t \<longleftrightarrow> (case map_of (slots sle) (fst t) of None \<Rightarrow> False | Some o2 \<Rightarrow> slot_equiv (snd t) o2)"

definition isBinary :: "sfield \<Rightarrow> bool" where
  "isBinary f \<longleftrightarrow> fieldValue f < 256"

definition sle_eq :: "SLE \<Rightarrow> SLE \<Rightarrow> bool" where
  "sle_eq a b \<longleftrightarrow>
     (\<forall>t \<in> set (filter (\<lambda>t. snd t \<noteq> None \<and> isBinary (fst t)) (slots a)). hasMatchingEntry b t) \<and>
     length (filter (\<lambda>t. snd t \<noteq> None \<and> isBinary (fst t)) (slots b)) =
       length (filter (\<lambda>t. snd t \<noteq> None \<and> isBinary (fst t)) (slots a))"

definition getFieldU16 :: "'a STObject_scheme \<Rightarrow> sfield \<Rightarrow> u16" where
  "getFieldU16 sle f = (case mFields sle f of Some (VU16 v) \<Rightarrow> v | _ \<Rightarrow> 0)"

text \<open>Setting a field of an object without template: the first field of that name is replaced, a
  missing one appended.\<close>

fun set_field :: "sfield \<Rightarrow> st_value \<Rightarrow> fields \<Rightarrow> fields" where
  "set_field f v [] = [(f, v)]"
| "set_field f v ((g, w) # fs) = (if g = f then (f, v) # fs else (g, w) # set_field f v fs)"

subsection \<open>Threading ledger entries\<close>

definition isThreadedType :: "SLE \<Rightarrow> bool" where
  "isThreadedType sle \<longleftrightarrow> sfPreviousTxnID \<in> fst ` set (elements (mType sle))"

definition thread :: "uint256 \<Rightarrow> u32 \<Rightarrow> SLE \<Rightarrow> ((uint256 \<times> u32) \<times> SLE) option" where
  "thread txID ledgerSeq sle =
     (let oldPrevTxID = getFieldH256 sle sfPreviousTxnID
      in if oldPrevTxID = txID then None
         else Some ((oldPrevTxID, getFieldU32 sle sfPreviousTxnLgrSeq),
                    setFieldU32 sfPreviousTxnLgrSeq ledgerSeq (setFieldH256 sfPreviousTxnID txID sle)))"

definition hasOneOwner :: "SLE \<Rightarrow> bool" where
  "hasOneOwner sle \<longleftrightarrow> mType sle \<noteq> ltACCOUNT_ROOT \<and> sfAccount \<in> fst ` set (elements (mType sle))"

definition hasTwoOwners :: "SLE \<Rightarrow> bool" where
  "hasTwoOwners sle \<longleftrightarrow> mType sle = ltRIPPLE_STATE"

definition getOwner :: "SLE \<Rightarrow> uint160 option" where
  "getOwner sle = getFieldAccount sle sfAccount"

definition getFirstOwner :: "SLE \<Rightarrow> uint160" where
  "getFirstOwner sle = mIssuer (getFieldAmount sle sfLowLimit)"

definition getSecondOwner :: "SLE \<Rightarrow> uint160" where
  "getSecondOwner sle = mIssuer (getFieldAmount sle sfHighLimit)"

subsection \<open>The metadata set\<close>

type_synonym meta_node = "sfield \<times> fields"

definition node_is :: "uint256 \<Rightarrow> meta_node \<Rightarrow> bool" where
  "node_is i p \<longleftrightarrow> map_of (snd p) sfLedgerIndex = Some (VH256 i)"

definition isNodeAffected :: "uint256 \<Rightarrow> TransactionMetaSet \<Rightarrow> bool" where
  "isNodeAffected node ms \<longleftrightarrow> (\<exists>p \<in> set (mMetaNodes ms). node_is node p)"

fun setAffectedNode_in :: "uint256 \<Rightarrow> sfield \<Rightarrow> u16 \<Rightarrow> meta_node list \<Rightarrow> meta_node list" where
  "setAffectedNode_in node type nodeType [] =
     [(type, set_field sfLedgerEntryType (VU16 nodeType) (set_field sfLedgerIndex (VH256 node) []))]"
| "setAffectedNode_in node type nodeType (p # ps) =
     (if node_is node p then (type, set_field sfLedgerEntryType (VU16 nodeType) (snd p)) # ps
      else p # setAffectedNode_in node type nodeType ps)"

definition setAffectedNode :: "uint256 \<Rightarrow> sfield \<Rightarrow> u16 \<Rightarrow> TransactionMetaSet \<Rightarrow> TransactionMetaSet" where
  "setAffectedNode node type nodeType ms = ms\<lparr>mMetaNodes := setAffectedNode_in node type nodeType (mMetaNodes ms)\<rparr>"

text \<open>\<open>getAffectedNode (node, type)\<close> returns a reference that the caller updates: the update is the
  argument \<open>upd\<close>, which also gives the caller's result.\<close>

fun with_affected :: "uint256 \<Rightarrow> sfield \<Rightarrow> u16 \<Rightarrow> (fields \<Rightarrow> 'r \<times> fields) \<Rightarrow> meta_node list \<Rightarrow> 'r \<times> meta_node list" where
  "with_affected index type nodeType upd [] =
     (let (r, fs) = upd (set_field sfLedgerEntryType (VU16 nodeType) (set_field sfLedgerIndex (VH256 index) []))
      in (r, [(type, fs)]))"
| "with_affected index type nodeType upd (p # ps) =
     (if node_is index p then let (r, fs) = upd (snd p) in (r, (fst p, fs) # ps)
      else let (r, qs) = with_affected index type nodeType upd ps in (r, p # qs))"

fun upd_affected :: "uint256 \<Rightarrow> (fields \<Rightarrow> fields) \<Rightarrow> meta_node list \<Rightarrow> exn + meta_node list" where
  "upd_affected node upd [] = Inl (RuntimeError ''Affected node not found'')"
| "upd_affected node upd (p # ps) =
     (if node_is node p then Inr ((fst p, upd (snd p)) # ps)
      else bindE (upd_affected node upd ps) (\<lambda>qs. Inr (p # qs)))"

fun peekAffectedNode :: "uint256 \<Rightarrow> meta_node list \<Rightarrow> exn + meta_node" where
  "peekAffectedNode node [] = Inl (RuntimeError ''Affected node not found'')"
| "peekAffectedNode node (p # ps) = (if node_is node p then Inr p else peekAffectedNode node ps)"

definition meta_thread :: "uint256 \<Rightarrow> u32 \<Rightarrow> fields \<Rightarrow> bool \<times> fields" where
  "meta_thread prevTxID prevLgrID node =
     (if map_of node sfPreviousTxnID = None
      then (True, set_field sfPreviousTxnLgrSeq (VU32 prevLgrID) (set_field sfPreviousTxnID (VH256 prevTxID) node))
      else (False, node))"

definition getAsObject :: "TransactionMetaSet \<Rightarrow> fields" where
  "getAsObject ms =
     (let metaData = [(sfTransactionResult, VU8 (word_of_int (mMetaResult ms))),
                      (sfTransactionIndex, VU32 (mMetaIndex ms)), (sfAffectedNodes, VArray (mMetaNodes ms))]
      in case mDelivered ms of None \<Rightarrow> metaData | Some d \<Rightarrow> set_field sfDeliveredAmount (VAmount d) metaData)"

definition node_index :: "meta_node \<Rightarrow> uint256" where
  "node_index p = (case map_of (snd p) sfLedgerIndex of Some (VH256 i) \<Rightarrow> i | _ \<Rightarrow> 0)"

definition meta_addRaw :: "TER \<Rightarrow> u32 \<Rightarrow> TransactionMetaSet \<Rightarrow> Serializer \<Rightarrow> exn + Serializer \<times> TransactionMetaSet" where
  "meta_addRaw result index ms s =
     (let ms = ms\<lparr>mMetaResult := result, mMetaIndex := index, mMetaNodes := sort_key node_index (mMetaNodes ms)\<rparr>
      in bindE (object_add True (getAsObject ms) s) (\<lambda>s. Inr (s, ms)))"

definition setDeliveredAmount :: "STAmount \<Rightarrow> LedgerEntrySet \<Rightarrow> LedgerEntrySet" where
  "setDeliveredAmount amt les = les\<lparr>mSet := (mSet les)\<lparr>mDelivered := Some amt\<rparr>\<rparr>"

text \<open>The transaction metadata read back from its bytes.\<close>

definition meta_parse :: "uint256 \<Rightarrow> u32 \<Rightarrow> Blob \<Rightarrow> exn + TransactionMetaSet" where
  "meta_parse txid ledger vec =
     bindE (object_set (it_begin \<lparr>mData = vec\<rparr>)) (\<lambda>((obj, _), _).
     case map_of obj sfTransactionResult of
       Some (VU8 result) \<Rightarrow>
         (case map_of obj sfTransactionIndex of
            Some (VU32 index) \<Rightarrow>
              (case map_of obj sfAffectedNodes of
                 Some (VArray nodes) \<Rightarrow>
                   Inr \<lparr>mMetaTxID = txid, mMetaLedger = ledger, mMetaIndex = index, mMetaResult = uint result,
                     mDelivered = (case map_of obj sfDeliveredAmount of Some (VAmount d) \<Rightarrow> Some d | _ \<Rightarrow> None),
                     mMetaNodes = nodes\<rparr>
               | _ \<Rightarrow> Inl (RuntimeError ''Field not found''))
          | _ \<Rightarrow> Inl (RuntimeError ''Field not found''))
     | _ \<Rightarrow> Inl (RuntimeError ''Field not found''))"

definition addIfUnique :: "'a \<Rightarrow> 'a list \<Rightarrow> 'a list" where
  "addIfUnique address xs = (if address \<in> set xs then xs else xs @ [address])"

fun affected_field :: "sfield \<times> st_value \<Rightarrow> uint160 option list \<Rightarrow> uint160 option list" where
  "affected_field (f, VAccount sa) accounts =
     (if f \<noteq> sfInflationDest then addIfUnique (if length sa = 20 then Some (be_word sa) else None) accounts else accounts)"
| "affected_field (f, VAmount amt) accounts =
     (if f \<in> {sfLowLimit, sfHighLimit, sfTakerPays, sfTakerGets} \<and> mIssuer amt \<noteq> 0
      then addIfUnique (Some (mIssuer amt)) accounts else accounts)"
| "affected_field (f, _) accounts = accounts"

definition affected_node :: "meta_node \<Rightarrow> uint160 option list \<Rightarrow> uint160 option list" where
  "affected_node it accounts =
     (case map_of (snd it) (if fst it = sfCreatedNode then sfNewFields else sfFinalFields) of
        Some (VObject inner) \<Rightarrow> fold affected_field inner accounts
      | _ \<Rightarrow> accounts)"

definition getAffectedAccounts :: "TransactionMetaSet \<Rightarrow> uint160 option list" where
  "getAffectedAccounts ms = fold affected_node (mMetaNodes ms) []"

subsection \<open>Threading the transaction through the ledger entries\<close>

datatype HistoricalQuirk =
    QuirkNonzeroInflationFees | QuirkLongPaymentPaths | QuirkAsymmetricTrustlines
  | QuirkUseLsfDisableMaster | QuirkUseLsfPasswordSpent | QuirkSameCurrencyOffer

fun gQuirks :: "HistoricalQuirk \<Rightarrow> nat \<times> nat" where
  "gQuirks QuirkNonzeroInflationFees = (0, 100000)"
| "gQuirks QuirkLongPaymentPaths = (87668, 87668)"
| "gQuirks QuirkAsymmetricTrustlines = (0, 900000)"
| "gQuirks QuirkUseLsfDisableMaster = (0, 100000)"
| "gQuirks QuirkUseLsfPasswordSpent = (0, 129706)"
| "gQuirks QuirkSameCurrencyOffer = (87668, 100000)"

text \<open>\<open>gLedgerSeq\<close> is the global counter of the ledger being replayed.\<close>

definition enactHistoricalQuirk :: "nat \<Rightarrow> HistoricalQuirk \<Rightarrow> bool" where
  "enactHistoricalQuirk gLedgerSeq q \<longleftrightarrow> fst (gQuirks q) \<le> gLedgerSeq \<and> gLedgerSeq \<le> snd (gQuirks q)"

type_synonym mods = "(uint256 \<times> SLE) list"

definition getForMod :: "uint256 \<Rightarrow> LedgerEntrySet \<times> mods \<Rightarrow> SLE option \<times> (LedgerEntrySet \<times> mods)" where
  "getForMod node st = (case st of (les, newMods) \<Rightarrow>
     (case map_of (mEntries les) node of
        Some it \<Rightarrow>
          if mAction it = taaDELETE then (None, st)
          else (Some (mEntry it),
                (put_entry node (mEntry it) (if mAction it = taaCACHED then taaMODIFY else mAction it) les, newMods))
      | None \<Rightarrow>
          (case map_of newMods node of
             Some me \<Rightarrow> (Some me, st)
           | None \<Rightarrow>
               (case getSLE (mLedger les) node of
                  None \<Rightarrow> (None, st)
                | Some ret \<Rightarrow> (Some ret, (les, map_put node ret newMods))))))"

text \<open>An update through the pointer that \<open>getForMod\<close> returned, or that the entry set holds.\<close>

definition write_ref :: "SLE \<Rightarrow> LedgerEntrySet \<times> mods \<Rightarrow> LedgerEntrySet \<times> mods" where
  "write_ref sle st = (case st of (les, newMods) \<Rightarrow>
     if map_of (mEntries les) (mIndex sle) \<noteq> None then (poke sle les, newMods)
     else (les, map_put (mIndex sle) sle newMods))"

definition threadTx_sle :: "SLE \<Rightarrow> LedgerEntrySet \<times> mods \<Rightarrow> bool \<times> (LedgerEntrySet \<times> mods)" where
  "threadTx_sle threadTo st =
     (case thread (mMetaTxID (mSet (fst st))) (mMetaLedger (mSet (fst st))) threadTo of
        None \<Rightarrow> (False, st)
      | Some ((prevTxID, prevLgrID), threadTo) \<Rightarrow>
          let (les, newMods) = write_ref threadTo st in
          if prevTxID = 0 then (True, (les, newMods))
          else
            let (r, nodes) = with_affected (mIndex threadTo) sfModifiedNode (getFieldU16 threadTo sfLedgerEntryType)
                  (meta_thread prevTxID prevLgrID) (mMetaNodes (mSet les))
            in (r, (les\<lparr>mSet := (mSet les)\<lparr>mMetaNodes := nodes\<rparr>\<rparr>, newMods)))"

definition threadTx :: "(Blob \<Rightarrow> uint256) \<Rightarrow> uint160 \<Rightarrow> LedgerEntrySet \<times> mods \<Rightarrow> bool \<times> (LedgerEntrySet \<times> mods)" where
  "threadTx h threadTo st =
     (case getForMod (getAccountRootIndex h threadTo) st of
        (None, st) \<Rightarrow> (False, st)
      | (Some sle, st) \<Rightarrow> threadTx_sle sle st)"

definition threadOwners :: "(Blob \<Rightarrow> uint256) \<Rightarrow> nat \<Rightarrow> SLE \<Rightarrow> LedgerEntrySet \<times> mods \<Rightarrow>
    exn + bool \<times> (LedgerEntrySet \<times> mods)" where
  "threadOwners h gLedgerSeq node st =
     (if hasOneOwner node then
        (case getOwner node of
           None \<Rightarrow> Inl (RuntimeError ''unset source - getAccountID'')
         | Some owner \<Rightarrow> Inr (threadTx h owner st))
      else if hasTwoOwners node then
        if enactHistoricalQuirk gLedgerSeq QuirkAsymmetricTrustlines then
          let (res, st) = threadTx h (getFirstOwner node) st
          in Inr (if res then threadTx h (getSecondOwner node) st else (False, st))
        else
          let (res, st) = threadTx h (getFirstOwner node) st;
              (res2, st) = threadTx h (getSecondOwner node) st
          in Inr (res2 \<and> res, st)
      else Inr (False, st))"

subsection \<open>Building the metadata\<close>

definition add_inner :: "uint256 \<Rightarrow> sfield \<Rightarrow> (sfield \<times> st_value option) list \<Rightarrow> LedgerEntrySet \<times> mods \<Rightarrow>
    exn + (LedgerEntrySet \<times> mods)" where
  "add_inner i name objs st =
     (if objs = [] then Inr st
      else bindE (upd_affected i (\<lambda>fs. fs @ [(name, VObject (present objs))]) (mMetaNodes (mSet (fst st)))) (\<lambda>nodes.
        Inr ((fst st)\<lparr>mSet := (mSet (fst st))\<lparr>mMetaNodes := nodes\<rparr>\<rparr>, snd st)))"

definition prev_fields :: "SLE \<Rightarrow> SLE \<Rightarrow> (sfield \<times> st_value option) list" where
  "prev_fields origNode curNode =
     filter (\<lambda>obj. shouldMeta (fst obj) sMD_ChangeOrig \<and> \<not> hasMatchingEntry curNode obj) (slots origNode)"

definition final_fields :: "u32 \<Rightarrow> SLE \<Rightarrow> (sfield \<times> st_value option) list" where
  "final_fields c curNode = filter (\<lambda>obj. shouldMeta (fst obj) c) (slots curNode)"

definition new_fields :: "SLE \<Rightarrow> (sfield \<times> st_value option) list" where
  "new_fields curNode =
     filter (\<lambda>obj. (case snd obj of None \<Rightarrow> False | Some v \<Rightarrow> \<not> isDefault v) \<and>
       shouldMeta (fst obj) (sMD_Create OR sMD_Always)) (slots curNode)"

definition cur_entry :: "uint256 \<Rightarrow> LedgerEntrySet \<times> mods \<Rightarrow> SLE \<Rightarrow> SLE" where
  "cur_entry i st sle = (case map_of (mEntries (fst st)) i of None \<Rightarrow> sle | Some e \<Rightarrow> mEntry e)"

definition meta_deleted :: "(Blob \<Rightarrow> uint256) \<Rightarrow> nat \<Rightarrow> uint256 \<Rightarrow> SLE \<Rightarrow> SLE \<Rightarrow> LedgerEntrySet \<times> mods \<Rightarrow>
    exn + (LedgerEntrySet \<times> mods)" where
  "meta_deleted h gLedgerSeq i origNode curNode st =
     bindE (threadOwners h gLedgerSeq origNode st) (\<lambda>(_, st).
     bindE (add_inner i sfPreviousFields (prev_fields origNode curNode) st) (\<lambda>st.
     add_inner i sfFinalFields (final_fields (sMD_Always OR sMD_DeleteFinal) curNode) st))"

definition meta_modified :: "uint256 \<Rightarrow> SLE \<Rightarrow> SLE \<Rightarrow> LedgerEntrySet \<times> mods \<Rightarrow> exn + (LedgerEntrySet \<times> mods)" where
  "meta_modified i origNode curNode st =
     (let st = (if isThreadedType curNode then snd (threadTx_sle curNode st) else st);
          curNode = cur_entry i st curNode
      in bindE (add_inner i sfPreviousFields (prev_fields origNode curNode) st) (\<lambda>st.
         add_inner i sfFinalFields (final_fields (sMD_Always OR sMD_ChangeNew) curNode) st))"

definition meta_created :: "(Blob \<Rightarrow> uint256) \<Rightarrow> nat \<Rightarrow> uint256 \<Rightarrow> SLE \<Rightarrow> LedgerEntrySet \<times> mods \<Rightarrow>
    exn + (LedgerEntrySet \<times> mods)" where
  "meta_created h gLedgerSeq i curNode st =
     bindE (threadOwners h gLedgerSeq curNode st) (\<lambda>(_, st).
     let curNode = cur_entry i st curNode;
         st = (if isThreadedType curNode then snd (threadTx_sle curNode st) else st)
     in add_inner i sfNewFields (new_fields (cur_entry i st curNode)) st)"

definition set_affected :: "uint256 \<Rightarrow> sfield \<Rightarrow> SLE \<Rightarrow> LedgerEntrySet \<times> mods \<Rightarrow> LedgerEntrySet \<times> mods" where
  "set_affected i type curNode st =
     ((fst st)\<lparr>mSet := setAffectedNode i type (getFieldU16 curNode sfLedgerEntryType) (mSet (fst st))\<rparr>, snd st)"

text \<open>One turn of the loop of \<open>calcRawMeta\<close>, for the entry at index \<open>i\<close>.\<close>

definition meta_entry :: "(Blob \<Rightarrow> uint256) \<Rightarrow> nat \<Rightarrow> uint256 \<Rightarrow> LedgerEntrySet \<times> mods \<Rightarrow> exn + (LedgerEntrySet \<times> mods)" where
  "meta_entry h gLedgerSeq i st =
     (case map_of (mEntries (fst st)) i of
        None \<Rightarrow> Inr st
      | Some it \<Rightarrow>
          let origNode = getSLE (mLedger (fst st)) i; curNode = mEntry it in
          (case mAction it of
             taaMODIFY \<Rightarrow>
               (case origNode of
                  None \<Rightarrow> Inl NullPointer
                | Some orig \<Rightarrow>
                    if sle_eq curNode orig then Inr st
                    else meta_modified i orig curNode (set_affected i sfModifiedNode curNode st))
           | taaDELETE \<Rightarrow>
               (case origNode of
                  None \<Rightarrow> Inl NullPointer
                | Some orig \<Rightarrow> meta_deleted h gLedgerSeq i orig curNode (set_affected i sfDeletedNode curNode st))
           | taaCREATE \<Rightarrow> meta_created h gLedgerSeq i curNode (set_affected i sfCreatedNode curNode st)
           | _ \<Rightarrow> Inr st))"

fun meta_loop :: "(Blob \<Rightarrow> uint256) \<Rightarrow> nat \<Rightarrow> uint256 list \<Rightarrow> LedgerEntrySet \<times> mods \<Rightarrow> exn + (LedgerEntrySet \<times> mods)" where
  "meta_loop h gLedgerSeq [] st = Inr st"
| "meta_loop h gLedgerSeq (i # is) st = bindE (meta_entry h gLedgerSeq i st) (meta_loop h gLedgerSeq is)"

fun modify_all :: "mods \<Rightarrow> LedgerEntrySet \<Rightarrow> exn + LedgerEntrySet" where
  "modify_all [] les = Inr les"
| "modify_all ((i, sle) # newMod) les = bindE (entryModify sle les) (modify_all newMod)"

definition calcRawMeta :: "(Blob \<Rightarrow> uint256) \<Rightarrow> nat \<Rightarrow> TER \<Rightarrow> u32 \<Rightarrow> LedgerEntrySet \<Rightarrow> exn + Serializer \<times> LedgerEntrySet" where
  "calcRawMeta h gLedgerSeq result index les =
     bindE (meta_loop h gLedgerSeq (map fst (mEntries les)) (les, [])) (\<lambda>(les, newMod).
     bindE (modify_all newMod les) (\<lambda>les.
     bindE (meta_addRaw result index (mSet les) \<lparr>mData = []\<rparr>) (\<lambda>(s, ms).
     Inr (s, les\<lparr>mSet := ms\<rparr>))))"

subsection \<open>Threading changes nothing but the thread\<close>

definition thread_fields :: "sfield set" where
  "thread_fields = {sfPreviousTxnID, sfPreviousTxnLgrSeq}"

definition threaded :: "SLE \<Rightarrow> SLE \<Rightarrow> bool" where
  "threaded a b \<longleftrightarrow> mType b = mType a \<and> mIndex b = mIndex a \<and> (\<forall>f. f \<notin> thread_fields \<longrightarrow> mFields b f = mFields a f)"

lemma threaded_refl [simp]: "threaded a a"
  by (simp add: threaded_def)

lemma threaded_trans: "threaded a b \<Longrightarrow> threaded b c \<Longrightarrow> threaded a c"
  by (auto simp: threaded_def)

lemma thread_threaded: "thread t l sle = Some (p, sle') \<Longrightarrow> threaded sle sle'"
  by (auto simp: thread_def threaded_def thread_fields_def Let_def setFieldU32_def setFieldH256_def split: if_splits)

text \<open>The state the loop works on: the entry set together with the entries it reads from the ledger only
  to thread them.\<close>

definition full :: "LedgerEntrySet \<times> mods \<Rightarrow> uint256 \<Rightarrow> SLE option" where
  "full st i = (case map_of (snd st) i of Some sle \<Rightarrow> Some sle | None \<Rightarrow> view (fst st) i)"

lemma full_pair: "full (les, nm) i = (case map_of nm i of Some sle \<Rightarrow> Some sle | None \<Rightarrow> view les i)"
  by (simp add: full_def split: option.split)

definition meta_inv :: "LedgerEntrySet \<times> mods \<Rightarrow> bool" where
  "meta_inv st \<longleftrightarrow> les_ok (fst st) \<and> in_order (snd st) \<and> (\<forall>i sle. map_of (snd st) i = Some sle \<longrightarrow>
     mIndex sle = i \<and> map_of (mEntries (fst st)) i = None \<and> getSLE (mLedger (fst st)) i \<noteq> None)"

definition ref_ok :: "uint256 \<Rightarrow> LedgerEntrySet \<times> mods \<Rightarrow> bool" where
  "ref_ok i st \<longleftrightarrow> dirty (fst st) i \<or> map_of (snd st) i \<noteq> None"

definition same_action :: "LedgerEntryAction \<Rightarrow> LedgerEntryAction \<Rightarrow> bool" where
  "same_action a b \<longleftrightarrow> b = a \<or> a = taaCACHED \<and> b = taaMODIFY"

lemma same_action_refl [simp]: "same_action a a"
  by (simp add: same_action_def)

lemma same_action_trans: "same_action a b \<Longrightarrow> same_action b c \<Longrightarrow> same_action a c"
  by (auto simp: same_action_def)

definition same_frame :: "LedgerEntrySet \<times> mods \<Rightarrow> LedgerEntrySet \<times> mods \<Rightarrow> bool" where
  "same_frame st st' \<longleftrightarrow> mLedger (fst st') = mLedger (fst st) \<and> mParams (fst st') = mParams (fst st) \<and>
     (\<forall>i. same_action (hasEntry i (fst st)) (hasEntry i (fst st'))) \<and>
     mMetaTxID (mSet (fst st')) = mMetaTxID (mSet (fst st)) \<and> mMetaLedger (mSet (fst st')) = mMetaLedger (mSet (fst st))"

lemma same_frame_refl [simp]: "same_frame st st"
  by (simp add: same_frame_def)

lemma same_frame_trans: "same_frame a b \<Longrightarrow> same_frame b c \<Longrightarrow> same_frame a c"
  using same_action_trans by (simp add: same_frame_def) blast

definition threads :: "LedgerEntrySet \<times> mods \<Rightarrow> LedgerEntrySet \<times> mods \<Rightarrow> bool" where
  "threads st st' \<longleftrightarrow> meta_inv st' \<and> same_frame st st' \<and> (\<forall>i. rel_option threaded (full st i) (full st' i))"

lemma threads_refl: "meta_inv st \<Longrightarrow> threads st st"
  by (simp add: threads_def option.rel_refl)

lemma threads_inv: "threads st st' \<Longrightarrow> meta_inv st'"
  by (simp add: threads_def)

lemma threads_trans:
  assumes "threads a b" "threads b c"
  shows "threads a c"
proof -
  have "rel_option threaded (full a i) (full c i)" for i
  proof -
    have "rel_option threaded (full a i) (full b i)" "rel_option threaded (full b i) (full c i)"
      using assms by (auto simp: threads_def)
    then show ?thesis using threaded_trans by (cases "full a i"; cases "full b i"; cases "full c i") auto
  qed
  then show ?thesis using assms same_frame_trans [of a b c] by (simp add: threads_def)
qed

lemma hasEntry_NONE: "les_ok les \<Longrightarrow> hasEntry i les = taaNONE \<longleftrightarrow> map_of (mEntries les) i = None"
  using les_okD(3) [of les i] by (fastforce simp: hasEntry_def entry_ok_def split: option.splits)

lemma getForMod_threads:
  assumes inv: "meta_inv st" and r: "getForMod i st = (x, st')"
  shows "threads st st' \<and> mSet (fst st') = mSet (fst st) \<and> (case x of None \<Rightarrow> True | Some sle \<Rightarrow> full st' i = Some sle \<and> ref_ok i st')"
proof -
  obtain les nm where st: "st = (les, nm)" by (cases st)
  have ok: "les_ok les" and nm: "in_order nm" and nmi: "\<And>i sle. map_of nm i = Some sle \<Longrightarrow>
     mIndex sle = i \<and> map_of (mEntries les) i = None \<and> getSLE (mLedger les) i \<noteq> None"
    using inv by (auto simp: meta_inv_def st)
  show ?thesis
  proof (cases "map_of (mEntries les) i")
    case (Some e)
    show ?thesis
    proof (cases "mAction e = taaDELETE")
      case True
      then show ?thesis using r Some inv by (auto simp: getForMod_def st intro: threads_refl)
    next
      case False
      define a where "a = (if mAction e = taaCACHED then taaMODIFY else mAction e)"
      have e: "entry_ok (mLedger les) i e" using les_okD(3) [OF ok Some] .
      have les': "les_ok (put_entry i (mEntry e) a les)"
        by (rule put_entry_ok [OF ok]) (use e in \<open>auto simp: a_def entry_ok_def split: LedgerEntryAction.splits\<close>)
      have v: "view (put_entry i (mEntry e) a les) = view les"
        using False Some by (auto simp: view_put_entry [OF les_okD(1) [OF ok]] view_def fun_eq_iff a_def)
      have h: "hasEntry j (put_entry i (mEntry e) a les) = (if j = i then a else hasEntry j les)" for j
        by (rule hasEntry_put_entry [OF ok])
      have mo: "map_of (mEntries (put_entry i (mEntry e) a les)) = (map_of (mEntries les))(i \<mapsto> \<lparr>mEntry = mEntry e, mAction = a, mEntrySeq = mSeq les\<rparr>)"
        by (rule map_of_put_entry [OF les_okD(1) [OF ok]])
      have n: "map_of nm i = None" using nmi [of i] Some by (cases "map_of nm i") auto
      have st': "st' = (put_entry i (mEntry e) a les, nm)" "x = Some (mEntry e)"
        using r Some False by (auto simp: getForMod_def st a_def)
      have "meta_inv st'" using les' nm nmi mo n by (auto simp: meta_inv_def st')
      moreover have "same_frame st st'" using Some
        by (simp add: same_frame_def st st' h) (simp add: put_entry_def same_action_def hasEntry_def a_def)
      moreover have "full st' j = full st j" for j by (simp add: full_pair st st' v split: option.split)
      moreover have "full st' i = Some (mEntry e)" using n Some False by (simp add: full_pair st' v view_def)
      moreover have "ref_ok i st'" using h [of i] False e
        by (auto simp: ref_ok_def st' dirty_def a_def entry_ok_def split: LedgerEntryAction.splits)
      ultimately show ?thesis by (simp add: threads_def st' option.rel_refl) (simp add: st put_entry_def)
    qed
  next
    case None
    show ?thesis
    proof (cases "map_of nm i")
      case (Some me)
      then show ?thesis using r None inv by (auto simp: getForMod_def st full_pair ref_ok_def threads_refl split: option.splits)
    next
      case nn: None
      show ?thesis
      proof (cases "getSLE (mLedger les) i")
        case None': None
        then show ?thesis using r None nn inv by (auto simp: getForMod_def st intro: threads_refl)
      next
        case (Some ret)
        have st': "st' = (les, map_put i ret nm)" "x = Some ret"
          using r None nn Some by (auto simp: getForMod_def st)
        have "mIndex ret = i" using les_okD(2) [OF ok] Some by (auto simp: ledger_ok_def)
        then have "meta_inv st'" using ok nm nmi None Some by (auto simp: meta_inv_def st')
        moreover have "full st' j = full st j" for j
          using nm nn None Some by (auto simp: full_pair st st' view_def)
        moreover have "full st' i = Some ret" using nm by (simp add: full_pair st')
        moreover have "ref_ok i st'" using nm by (simp add: ref_ok_def st')
        ultimately show ?thesis by (auto simp: threads_def st st' same_frame_def option.rel_refl)
      qed
    qed
  qed
qed

lemma mSet_frame [simp]: "view (les\<lparr>mSet := ms\<rparr>) = view les" "les_ok (les\<lparr>mSet := ms\<rparr>) = les_ok les"
  "hasEntry i (les\<lparr>mSet := ms\<rparr>) = hasEntry i les" "dirty (les\<lparr>mSet := ms\<rparr>) i = dirty les i"
  "full (les\<lparr>mSet := ms\<rparr>, nm) = full (les, nm)"
  by (auto simp: view_def fun_eq_iff les_ok_def hasEntry_def dirty_def full_def split: option.split)

lemma mSet_meta_inv [simp]: "meta_inv (les\<lparr>mSet := ms\<rparr>, nm) = meta_inv (les, nm)"
  by (simp add: meta_inv_def)

lemma full_index: "meta_inv st \<Longrightarrow> full st i = Some sle \<Longrightarrow> mIndex sle = i"
  by (cases "map_of (snd st) i") (auto simp: meta_inv_def full_def dest: view_index)

lemma poke_parts: "mLedger (poke sle les) = mLedger les" "mParams (poke sle les) = mParams les" "mSet (poke sle les) = mSet les"
  by (simp_all add: poke_def split: option.split)

lemma hasEntry_poke: "les_ok les \<Longrightarrow> hasEntry j (poke sle les) = hasEntry j les"
  by (auto simp: poke_def hasEntry_def les_okD(1) split: option.split)

lemma write_ref_threads:
  assumes inv: "meta_inv st" and f: "full st i = Some sle" and d: "ref_ok i st" and t: "threaded sle sle'"
  shows "threads st (write_ref sle' st)" "mSet (fst (write_ref sle' st)) = mSet (fst st)"
proof -
  obtain les nm where st: "st = (les, nm)" by (cases st)
  have ok: "les_ok les" and nm: "in_order nm" and nmi: "\<And>i sle. map_of nm i = Some sle \<Longrightarrow>
     mIndex sle = i \<and> map_of (mEntries les) i = None \<and> getSLE (mLedger les) i \<noteq> None"
    using inv by (auto simp: meta_inv_def st)
  have i: "mIndex sle = i" "mIndex sle' = i" using full_index [OF inv f] t by (auto simp: threaded_def)
  show "threads st (write_ref sle' st)"
  proof (cases "map_of (mEntries les) i")
    case None
    then have n: "map_of nm i \<noteq> None" using d by (auto simp: ref_ok_def st dirty_def hasEntry_def)
    have w: "write_ref sle' (les, nm) = (les, map_put i sle' nm)" using None by (simp add: write_ref_def st i)
    have "meta_inv (write_ref sle' st)" using inv nm nmi n i None by (auto simp: meta_inv_def st w)
    moreover have "rel_option threaded (full st j) (full (write_ref sle' st) j)" for j
      using f t nm by (auto simp: full_pair st w option.rel_refl split: option.splits)
    ultimately show ?thesis by (auto simp: threads_def same_frame_def w st)
  next
    case (Some e)
    have n: "map_of nm i = None" using nmi [of i] Some by (cases "map_of nm i") auto
    then have "dirty les i" using d by (simp add: ref_ok_def st)
    then have "state_is (view les) {i} (mLedger les, mParams les) les" using ok by (simp add: state_is_def)
    then have s: "state_is ((view les)(i \<mapsto> sle')) {i} (mLedger les, mParams les) (poke sle' les)"
      using state_is_poke [of "view les" "{i}" "(mLedger les, mParams les)" les sle'] i by simp
    have w: "write_ref sle' (les, nm) = (poke sle' les, nm)" using Some by (simp add: write_ref_def st i)
    have me: "map_of (mEntries (poke sle' les)) j = None \<longleftrightarrow> map_of (mEntries les) j = None" for j
      using hasEntry_NONE [OF ok] hasEntry_NONE [of "poke sle' les" j] s hasEntry_poke [OF ok]
      by (simp add: state_is_def)
    have "meta_inv (write_ref sle' st)" using s nm nmi by (simp add: meta_inv_def st w state_is_def poke_parts me)
    moreover have "rel_option threaded (full st j) (full (write_ref sle' st) j)" for j
      using f t n s by (auto simp: full_pair st w option.rel_refl state_is_def split: option.splits)
    ultimately show ?thesis by (simp add: threads_def same_frame_def w st poke_parts hasEntry_poke [OF ok])
  qed
  show "mSet (fst (write_ref sle' st)) = mSet (fst st)" by (simp add: write_ref_def st poke_parts)
qed

subsection \<open>The nodes of the metadata\<close>

definition kind_of :: "meta_node list \<Rightarrow> uint256 \<Rightarrow> sfield option" where
  "kind_of ns i = map_option fst (List.find (node_is i) ns)"

definition nodes_ok :: "meta_node list \<Rightarrow> bool" where
  "nodes_ok ns \<longleftrightarrow> (\<forall>p \<in> set ns. node_is (node_index p) p) \<and> distinct (map node_index ns)"

definition grows :: "meta_node list \<Rightarrow> meta_node list \<Rightarrow> bool" where
  "grows ns ns' \<longleftrightarrow> (nodes_ok ns \<longrightarrow> nodes_ok ns') \<and> (\<forall>i. kind_of ns i \<noteq> None \<longrightarrow> kind_of ns' i = kind_of ns i)"

lemma grows_refl [simp]: "grows ns ns"
  by (simp add: grows_def)

lemma grows_trans: "grows a b \<Longrightarrow> grows b c \<Longrightarrow> grows a c"
  by (simp add: grows_def)

lemma node_is_index: "node_is i p \<Longrightarrow> node_index p = i"
  by (simp add: node_is_def node_index_def)

lemma set_field_other: "f \<noteq> g \<Longrightarrow> map_of (set_field f v fs) g = map_of fs g"
  by (induction f v fs rule: set_field.induct) auto

lemma set_field_same [simp]: "map_of (set_field f v fs) f = Some v"
  by (induction f v fs rule: set_field.induct) auto

lemma kind_of_Cons: "kind_of (p # ns) i = (if node_is i p then Some (fst p) else kind_of ns i)"
  by (simp add: kind_of_def)

lemma kind_of_Nil [simp]: "kind_of [] i = None"
  by (simp add: kind_of_def)

lemma setAffected_keys:
  "set (map node_index (setAffectedNode_in i t n ns)) \<subseteq> insert i (set (map node_index ns))"
  by (induction i t n ns rule: setAffectedNode_in.induct)
    (auto simp: node_index_def set_field_other split: if_splits option.splits)

lemma setAffected_ok:
  assumes "nodes_ok ns"
  shows "nodes_ok (setAffectedNode_in i t n ns) \<and>
    kind_of (setAffectedNode_in i t n ns) = (kind_of ns)(i \<mapsto> t)"
  using assms
proof (induction i t n ns rule: setAffectedNode_in.induct)
  case (1 i t n)
  show ?case by (auto simp: nodes_ok_def node_is_def node_index_def kind_of_Cons fun_eq_iff)
next
  case (2 i t n p ps)
  show ?case
  proof (cases "node_is i p")
    case True
    have e: "node_is j (t, set_field sfLedgerEntryType (VU16 n) (snd p)) = node_is j p" for j
      by (simp add: node_is_def set_field_other)
    have e2: "node_index (t, set_field sfLedgerEntryType (VU16 n) (snd p)) = node_index p"
      by (simp add: node_index_def set_field_other)
    have "node_is j p \<longleftrightarrow> j = i" for j using True node_is_index by blast
    then have "kind_of (setAffectedNode_in i t n (p # ps)) = (kind_of (p # ps))(i \<mapsto> t)"
      by (simp add: kind_of_Cons e fun_eq_iff)
    then show ?thesis using 2(2) True by (simp add: nodes_ok_def e e2)
  next
    case False
    have ps: "nodes_ok ps" and p: "node_is (node_index p) p" using 2(2) by (auto simp: nodes_ok_def)
    note IH = 2(1) [OF False ps]
    have "node_index p \<noteq> i" using p False by auto
    then have "node_index p \<notin> set (map node_index (setAffectedNode_in i t n ps))"
      using 2(2) setAffected_keys [of i t n ps] by (auto simp: nodes_ok_def)
    then have "nodes_ok (p # setAffectedNode_in i t n ps)" using IH p by (auto simp: nodes_ok_def)
    then show ?thesis using False IH by (auto simp: kind_of_Cons fun_eq_iff)
  qed
qed

definition keeps_index :: "(fields \<Rightarrow> 'r \<times> fields) \<Rightarrow> bool" where
  "keeps_index upd \<longleftrightarrow> (\<forall>fs. map_of (snd (upd fs)) sfLedgerIndex = map_of fs sfLedgerIndex)"

lemma with_affected_keys:
  assumes "keeps_index upd"
  shows "set (map node_index (snd (with_affected i t n upd ns))) \<subseteq> insert i (set (map node_index ns))"
  using assms
  by (induction i t n upd ns rule: with_affected.induct)
    (auto simp: node_index_def keeps_index_def case_prod_unfold Let_def set_field_other split: if_splits option.splits)

lemma with_affected_grows:
  assumes k: "keeps_index upd"
  shows "grows ns (snd (with_affected i t n upd ns))"
  unfolding grows_def
proof (intro conjI impI allI)
  show "nodes_ok (snd (with_affected i t n upd ns))" if "nodes_ok ns"
    using that k
  proof (induction i t n upd ns rule: with_affected.induct)
    case (1 i t n upd)
    then show ?case by (auto simp: nodes_ok_def node_is_def node_index_def keeps_index_def case_prod_unfold Let_def set_field_other)
  next
    case (2 i t n upd p ps)
    show ?case
    proof (cases "node_is i p")
      case True
      then show ?thesis using 2(2,3) by (auto simp: nodes_ok_def node_is_def node_index_def keeps_index_def case_prod_unfold Let_def)
    next
      case False
      have ps: "nodes_ok ps" and p: "node_is (node_index p) p" using 2(2) by (auto simp: nodes_ok_def)
      have "node_index p \<noteq> i" using p False by auto
      then have "node_index p \<notin> set (map node_index (snd (with_affected i t n upd ps)))"
        using 2(2) with_affected_keys [OF 2(3), of i t n ps] by (auto simp: nodes_ok_def)
      then show ?thesis using 2(1) [OF False ps 2(3)] False p by (auto simp: nodes_ok_def case_prod_unfold Let_def)
    qed
  qed
next
  fix j assume "kind_of ns j \<noteq> None"
  then show "kind_of (snd (with_affected i t n upd ns)) j = kind_of ns j"
    using k by (induction i t n upd ns rule: with_affected.induct)
      (auto simp: kind_of_Cons node_is_def keeps_index_def case_prod_unfold Let_def)
qed

lemma upd_affected_grows:
  assumes "\<And>fs. map_of (upd fs) sfLedgerIndex = map_of fs sfLedgerIndex" "upd_affected i upd ns = Inr ns'"
  shows "grows ns ns'"
proof -
  have "list_all2 (\<lambda>p q. fst q = fst p \<and> map_of (snd q) sfLedgerIndex = map_of (snd p) sfLedgerIndex) ns ns'"
    using assms by (induction i upd ns arbitrary: ns' rule: upd_affected.induct)
      (auto simp: exn_simps list_all2_refl split: if_splits)
  then have "kind_of ns' = kind_of ns \<and> map node_index ns' = map node_index ns \<and> (\<forall>i. (\<forall>p \<in> set ns. node_is (node_index p) p) \<longleftrightarrow> (\<forall>p \<in> set ns'. node_is (node_index p) p))"
    by (induction rule: list_all2_induct) (auto simp: kind_of_Cons node_is_def node_index_def fun_eq_iff)
  then show ?thesis by (auto simp: grows_def nodes_ok_def)
qed

lemma meta_thread_index: "keeps_index (meta_thread a b)"
  by (simp add: keeps_index_def meta_thread_def set_field_other)

definition gains :: "LedgerEntrySet \<times> mods \<Rightarrow> LedgerEntrySet \<times> mods \<Rightarrow> bool" where
  "gains st st' \<longleftrightarrow> threads st st' \<and> grows (mMetaNodes (mSet (fst st))) (mMetaNodes (mSet (fst st')))"

lemma gains_refl: "meta_inv st \<Longrightarrow> gains st st"
  by (simp add: gains_def threads_refl)

lemma gains_trans: "gains a b \<Longrightarrow> gains b c \<Longrightarrow> gains a c"
  using threads_trans [of a b c] grows_trans by (auto simp: gains_def)

lemma gains_inv: "gains a b \<Longrightarrow> meta_inv b"
  by (simp add: gains_def threads_def)

lemma threads_nodes:
  assumes "threads st (les, nm)"
  shows "threads st (les\<lparr>mSet := (mSet les)\<lparr>mMetaNodes := ns\<rparr>\<rparr>, nm)"
  using assms by (simp add: threads_def same_frame_def)

lemma threadTx_sle_gains:
  assumes inv: "meta_inv st" and f: "full st i = Some sle" and d: "ref_ok i st"
  shows "gains st (snd (threadTx_sle sle st))"
proof (cases "thread (mMetaTxID (mSet (fst st))) (mMetaLedger (mSet (fst st))) sle")
  case None
  then show ?thesis using inv by (simp add: threadTx_sle_def gains_refl)
next
  case (Some p)
  then obtain a b sle' where p: "thread (mMetaTxID (mSet (fst st))) (mMetaLedger (mSet (fst st))) sle = Some ((a, b), sle')"
    by (cases p) auto
  obtain les nm where w: "write_ref sle' st = (les, nm)" by (cases "write_ref sle' st")
  note wr = write_ref_threads [OF inv f d thread_threaded [OF p], unfolded w]
  show ?thesis
    using wr threads_nodes [OF wr(1)]
      with_affected_grows [OF meta_thread_index, of "mMetaNodes (mSet (fst st))" "mIndex sle'" sfModifiedNode "getFieldU16 sle' sfLedgerEntryType" a b]
    by (auto simp: threadTx_sle_def p w gains_def case_prod_unfold Let_def)
qed

lemma threadTx_gains:
  assumes inv: "meta_inv st"
  shows "gains st (snd (threadTx h a st))"
proof -
  obtain x st1 where Pair: "getForMod (getAccountRootIndex h a) st = (x, st1)" by (rule prod.exhaust)
  note g = getForMod_threads [OF inv Pair]
  then have g1: "gains st st1" by (simp add: gains_def)
  show ?thesis
  proof (cases x)
    case None
    then show ?thesis using g1 by (simp add: threadTx_def Pair)
  next
    case (Some sle)
    then have "gains st1 (snd (threadTx_sle sle st1))" using g threadTx_sle_gains [OF gains_inv [OF g1]] by simp blast
    then show ?thesis using gains_trans [OF g1] by (simp add: threadTx_def Pair Some)
  qed
qed

lemma threadOwners_gains:
  assumes "meta_inv st" "threadOwners h g n st = Inr (b, st')"
  shows "gains st st'"
proof -
  have 1: "gains st (snd (threadTx h a st))" for a using threadTx_gains [OF assms(1)] .
  have 2: "gains st (snd (threadTx h c (snd (threadTx h a st))))" for a c
    using gains_trans [OF 1] threadTx_gains [OF gains_inv [OF 1]] .
  show ?thesis using assms(2) 1 2 gains_refl [OF assms(1)]
    by (auto simp: threadOwners_def case_prod_unfold Let_def split: if_splits option.splits dest!: sym [of _ st']) (metis snd_conv)+
qed

lemma add_inner_gains:
  assumes "meta_inv st" "add_inner i f objs st = Inr st'" "f \<noteq> sfLedgerIndex"
  shows "gains st st' \<and> full st' = full st \<and> mEntries (fst st') = mEntries (fst st)"
proof (cases "objs = []")
  case True
  then show ?thesis using assms by (auto simp: add_inner_def gains_refl)
next
  case False
  obtain les nm where st: "st = (les, nm)" by (cases st)
  obtain ns where u: "upd_affected i (\<lambda>fs. fs @ [(f, VObject (present objs))]) (mMetaNodes (mSet les)) = Inr ns"
    and st': "st' = (les\<lparr>mSet := (mSet les)\<lparr>mMetaNodes := ns\<rparr>\<rparr>, nm)"
    using assms(2) False by (auto simp: add_inner_def st exn_simps)
  have "grows (mMetaNodes (mSet les)) ns"
    by (rule upd_affected_grows [OF _ u]) (use assms(3) in \<open>auto simp: map_add_def split: option.split\<close>)
  then show ?thesis using threads_nodes [OF threads_refl [OF assms(1) [unfolded st]], of ns] by (simp add: st st' gains_def)
qed

lemma set_affected_threads:
  assumes "meta_inv st" "nodes_ok (mMetaNodes (mSet (fst st)))"
  shows "threads st (set_affected i t sle st)" "nodes_ok (mMetaNodes (mSet (fst (set_affected i t sle st))))"
    "kind_of (mMetaNodes (mSet (fst (set_affected i t sle st)))) = (kind_of (mMetaNodes (mSet (fst st))))(i \<mapsto> t)"
    "full (set_affected i t sle st) = full st" "mEntries (fst (set_affected i t sle st)) = mEntries (fst st)"
    "snd (set_affected i t sle st) = snd st"
proof -
  obtain les nm where st: "st = (les, nm)" by (cases st)
  show "threads st (set_affected i t sle st)" using threads_nodes [OF threads_refl [OF assms(1) [unfolded st]]]
    by (simp add: st set_affected_def setAffectedNode_def)
  show "nodes_ok (mMetaNodes (mSet (fst (set_affected i t sle st))))"
    "kind_of (mMetaNodes (mSet (fst (set_affected i t sle st)))) = (kind_of (mMetaNodes (mSet (fst st))))(i \<mapsto> t)"
    using setAffected_ok [OF assms(2)] by (simp_all add: st set_affected_def setAffectedNode_def)
qed (auto simp: set_affected_def full_pair full_def split: option.split)

definition reported :: "LedgerEntrySet \<times> mods \<Rightarrow> uint256 \<Rightarrow> sfield option" where
  "reported st = kind_of (mMetaNodes (mSet (fst st)))"

text \<open>A turn for index \<open>i\<close> keeps what is reported of the other nodes, and the node it reports.\<close>

definition turn :: "uint256 \<Rightarrow> LedgerEntrySet \<times> mods \<Rightarrow> LedgerEntrySet \<times> mods \<Rightarrow> bool" where
  "turn i st st' \<longleftrightarrow> threads st st' \<and> nodes_ok (mMetaNodes (mSet (fst st'))) \<and>
     (\<forall>j. j \<noteq> i \<longrightarrow> reported st j \<noteq> None \<longrightarrow> reported st' j = reported st j)"

lemma turn_refl: "meta_inv st \<Longrightarrow> nodes_ok (mMetaNodes (mSet (fst st))) \<Longrightarrow> turn i st st"
  by (simp add: turn_def threads_refl)

lemma gains_reported: "gains a b \<Longrightarrow> reported a i = Some t \<Longrightarrow> reported b i = Some t"
  by (simp add: gains_def grows_def reported_def)

lemma turn_report:
  assumes inv: "meta_inv st" and ok: "nodes_ok (mMetaNodes (mSet (fst st)))" and g: "gains (set_affected i t sle st) st'"
  shows "turn i st st'" "reported st' i = Some t"
proof -
  note s = set_affected_threads [OF inv ok, of i t sle]
  have "threads st st'" using threads_trans [OF s(1)] g by (simp add: gains_def)
  moreover have "nodes_ok (mMetaNodes (mSet (fst st')))" using g s(2) by (simp add: gains_def grows_def)
  moreover have "reported (set_affected i t sle st) j = (if j = i then Some t else reported st j)" for j
    by (simp add: reported_def s(3))
  ultimately show "turn i st st'" "reported st' i = Some t" using gains_reported [OF g] by (auto simp: turn_def)
qed

lemma entry_full:
  assumes inv: "meta_inv st" and e: "map_of (mEntries (fst st)) i = Some e" and a: "mAction e \<in> {taaCREATE, taaMODIFY}"
  shows "full st i = Some (mEntry e)" "ref_ok i st"
proof -
  have "map_of (snd st) i = None" using inv e by (cases "map_of (snd st) i") (auto simp: meta_inv_def)
  then show "full st i = Some (mEntry e)" using e a by (auto simp: full_def view_def)
  show "ref_ok i st" using e a by (simp add: ref_ok_def dirty_def hasEntry_def)
qed

lemma add_two_gains:
  assumes "meta_inv st" "bindE (add_inner i f xs st) (add_inner i g ys) = Inr st'" "f \<noteq> sfLedgerIndex" "g \<noteq> sfLedgerIndex"
  shows "gains st st'"
proof -
  obtain st1 where 1: "add_inner i f xs st = Inr st1" and 2: "add_inner i g ys st1 = Inr st'"
    using assms(2) by (auto simp: exn_simps)
  have g1: "gains st st1" using add_inner_gains [OF assms(1) 1 assms(3)] by simp
  show ?thesis using gains_trans [OF g1] add_inner_gains [OF gains_inv [OF g1] 2 assms(4)] by simp
qed

lemma meta_modified_gains:
  assumes inv: "meta_inv st" and e: "map_of (mEntries (fst st)) i = Some e" "mAction e = taaMODIFY"
    and r: "meta_modified i orig (mEntry e) st = Inr st'"
  shows "gains st st'"
proof -
  define st1 where "st1 = (if isThreadedType (mEntry e) then snd (threadTx_sle (mEntry e) st) else st)"
  have g: "gains st st1"
    using gains_refl [OF inv] threadTx_sle_gains [OF inv entry_full [OF inv e(1)]] e(2) by (simp add: st1_def)
  have "gains st1 st'"
    by (rule add_two_gains [OF gains_inv [OF g], of i sfPreviousFields _ sfFinalFields])
      (use r in \<open>simp_all add: meta_modified_def Let_def flip: st1_def\<close>)
  then show ?thesis by (rule gains_trans [OF g])
qed

lemma meta_deleted_gains:
  assumes inv: "meta_inv st" and r: "meta_deleted h g i orig cur st = Inr st'"
  shows "gains st st'"
proof -
  obtain b st1 where t: "threadOwners h g orig st = Inr (b, st1)"
    and a: "bindE (add_inner i sfPreviousFields (prev_fields orig cur) st1)
      (add_inner i sfFinalFields (final_fields (sMD_Always OR sMD_DeleteFinal) cur)) = Inr st'"
    using r by (auto simp: meta_deleted_def exn_simps)
  have g: "gains st st1" by (rule threadOwners_gains [OF inv t])
  have "gains st1 st'" by (rule add_two_gains [OF gains_inv [OF g] a]) simp_all
  then show ?thesis by (rule gains_trans [OF g])
qed

lemma threads_entry:
  assumes inv: "meta_inv st" and t: "threads st st'" and e: "map_of (mEntries (fst st)) i = Some e" "mAction e \<in> {taaCREATE, taaMODIFY}"
  shows "\<exists>e'. map_of (mEntries (fst st')) i = Some e' \<and> mAction e' = mAction e"
proof -
  have h: "hasEntry i (fst st) = mAction e" using e by (simp add: hasEntry_def)
  have "same_action (hasEntry i (fst st)) (hasEntry i (fst st'))" using t by (simp add: threads_def same_frame_def)
  then have "hasEntry i (fst st') = mAction e" using e(2) by (auto simp: same_action_def h)
  then show ?thesis using e(2) by (auto simp: hasEntry_def split: option.splits)
qed

lemma meta_created_gains:
  assumes inv: "meta_inv st" and e: "map_of (mEntries (fst st)) i = Some e" "mAction e = taaCREATE"
    and r: "meta_created h g i (mEntry e) st = Inr st'"
  shows "gains st st'"
proof -
  obtain b st1 where t: "threadOwners h g (mEntry e) st = Inr (b, st1)" using r by (auto simp: meta_created_def exn_simps)
  have g: "gains st st1" by (rule threadOwners_gains [OF inv t])
  obtain e1 where e1: "map_of (mEntries (fst st1)) i = Some e1" "mAction e1 = taaCREATE"
    using threads_entry [OF inv _ e(1), of st1] g e(2) by (auto simp: gains_def)
  define st2 where "st2 = (if isThreadedType (mEntry e1) then snd (threadTx_sle (mEntry e1) st1) else st1)"
  have g2: "gains st1 st2"
    using gains_refl [OF gains_inv [OF g]] threadTx_sle_gains [OF gains_inv [OF g] entry_full [OF gains_inv [OF g] e1(1)]] e1(2)
    by (simp add: st2_def)
  have c1: "cur_entry i st1 (mEntry e) = mEntry e1" by (simp add: cur_entry_def e1)
  have "add_inner i sfNewFields (new_fields (cur_entry i st2 (mEntry e1))) st2 = Inr st'"
    using r unfolding meta_created_def st2_def by (simp only: t bindE.simps prod.case Let_def c1)
  then have "gains st2 st'" using add_inner_gains [OF gains_inv [OF g2]] by simp
  then show ?thesis using gains_trans [OF g] gains_trans [OF g2] by blast
qed

lemma meta_entry_turn:
  assumes inv: "meta_inv st" and ok: "nodes_ok (mMetaNodes (mSet (fst st)))" and r: "meta_entry h g i st = Inr st'"
  shows "turn i st st' \<and> (case map_of (mEntries (fst st)) i of None \<Rightarrow> True | Some e \<Rightarrow>
    (mAction e = taaCREATE \<longrightarrow> reported st' i = Some sfCreatedNode) \<and>
    (mAction e = taaDELETE \<longrightarrow> reported st' i = Some sfDeletedNode) \<and>
    (\<forall>orig. mAction e = taaMODIFY \<longrightarrow> getSLE (mLedger (fst st)) i = Some orig \<longrightarrow> \<not> sle_eq (mEntry e) orig \<longrightarrow>
       reported st' i = Some sfModifiedNode))"
proof (cases "map_of (mEntries (fst st)) i")
  case None
  then show ?thesis using r turn_refl [OF inv ok] by (simp add: meta_entry_def Let_def)
next
  case (Some e)
  note sa = set_affected_threads [OF inv ok, of i]
  have e': "map_of (mEntries (fst (set_affected i t s st))) i = Some e" for t s using Some by (simp add: sa(5))
  have in': "meta_inv (set_affected i t s st)" for t s using threads_inv [OF sa(1)] .
  show ?thesis
  proof (cases "mAction e")
    case taaNONE
    then show ?thesis using r Some turn_refl [OF inv ok] by (simp add: meta_entry_def Let_def)
  next
    case taaCACHED
    then show ?thesis using r Some turn_refl [OF inv ok] by (simp add: meta_entry_def Let_def)
  next
    case taaMODIFY
    then obtain orig where o: "getSLE (mLedger (fst st)) i = Some orig" using r Some by (auto simp: meta_entry_def Let_def split: option.splits)
    show ?thesis
    proof (cases "sle_eq (mEntry e) orig")
      case True
      then show ?thesis using r Some taaMODIFY o turn_refl [OF inv ok] by (simp add: meta_entry_def Let_def)
    next
      case False
      then have "meta_modified i orig (mEntry e) (set_affected i sfModifiedNode (mEntry e) st) = Inr st'"
        using r Some taaMODIFY o by (simp add: meta_entry_def Let_def)
      then have "gains (set_affected i sfModifiedNode (mEntry e) st) st'" by (rule meta_modified_gains [OF in' e' taaMODIFY])
      then show ?thesis using turn_report [OF inv ok] Some taaMODIFY by auto
    qed
  next
    case taaDELETE
    then obtain orig where o: "getSLE (mLedger (fst st)) i = Some orig" using r Some by (auto simp: meta_entry_def Let_def split: option.splits)
    then have "meta_deleted h g i orig (mEntry e) (set_affected i sfDeletedNode (mEntry e) st) = Inr st'"
      using r Some taaDELETE by (simp add: meta_entry_def Let_def)
    then have "gains (set_affected i sfDeletedNode (mEntry e) st) st'" by (rule meta_deleted_gains [OF in'])
    then show ?thesis using turn_report [OF inv ok] Some taaDELETE by auto
  next
    case taaCREATE
    then have "meta_created h g i (mEntry e) (set_affected i sfCreatedNode (mEntry e) st) = Inr st'"
      using r Some by (simp add: meta_entry_def Let_def)
    then have "gains (set_affected i sfCreatedNode (mEntry e) st) st'" by (rule meta_created_gains [OF in' e' taaCREATE])
    then show ?thesis using turn_report [OF inv ok] Some taaCREATE by auto
  qed
qed

definition changed :: "SLE \<Rightarrow> SLE \<Rightarrow> bool" where
  "changed cur orig \<longleftrightarrow> mType cur = mType orig \<and> (\<exists>f \<in> fst ` set (elements (mType orig)).
     f \<notin> thread_fields \<and> \<not> slot_equiv (mFields cur f) (mFields orig f))"

lemma amount_eq_refl [simp]: "amount_eq a a"
  by (simp add: amount_eq_def isComparable_def)

lemma value_equiv_refl [simp]: "value_equiv v v"
  by (cases v) auto

lemma slot_equiv_refl [simp]: "slot_equiv v v"
  by (cases v) auto

lemma slot_equiv_sym: "slot_equiv v w \<Longrightarrow> slot_equiv w v"
proof (induction v w rule: slot_equiv.induct)
  case (1 v w)
  then show ?case
    by (induction v w rule: value_equiv.induct) (auto simp: amount_eq_def isComparable_def)
qed auto

lemma changed_threaded: "changed cur orig \<Longrightarrow> threaded cur cur' \<Longrightarrow> changed cur' orig"
  by (auto simp: changed_def threaded_def)

lemma elements_binary: "f \<in> fst ` set (elements lt) \<Longrightarrow> isBinary f"
  by (cases lt) (auto simp: elements_def isBinary_def)

lemma slots_lookup: "f \<in> fst ` set (elements (mType sle)) \<Longrightarrow> map_of (slots sle) f = Some (mFields sle f)"
proof -
  have "f \<in> fst ` set xs \<Longrightarrow> map_of (map (\<lambda>(f, _). (f, g f)) xs) f = Some (g f)" for xs :: "(sfield \<times> SOE_Flags) list" and g :: "sfield \<Rightarrow> st_value option"
    by (induction xs) auto
  then show "f \<in> fst ` set (elements (mType sle)) \<Longrightarrow> ?thesis" by (simp add: slots_def)
qed

lemma filter_strict:
  assumes "\<And>x. x \<in> set xs \<Longrightarrow> P x \<Longrightarrow> Q x" "x \<in> set xs" "Q x" "\<not> P x"
  shows "length (filter P xs) < length (filter Q xs)"
  using assms
proof (induction xs)
  case (Cons y ys)
  have le: "length (filter P ys) \<le> length (filter Q ys)"
  proof -
    have "filter P ys = filter P (filter Q ys)" using Cons.prems(1) by (auto intro!: filter_cong)
    then show ?thesis using length_filter_le [of P "filter Q ys"] by simp
  qed
  show ?case
  proof (cases "x \<in> set ys")
    case True
    then have "length (filter P ys) < length (filter Q ys)" using Cons by auto
    then show ?thesis using Cons.prems(1) [of y] by auto
  next
    case False
    then have "x = y" using Cons.prems(2) by simp
    then show ?thesis using le Cons.prems by simp
  qed
qed simp

lemma changed_not_eq:
  assumes "changed cur orig"
  shows "\<not> sle_eq cur orig"
proof
  assume q: "sle_eq cur orig"
  obtain f where f: "f \<in> fst ` set (elements (mType orig))" "\<not> slot_equiv (mFields cur f) (mFields orig f)" and t: "mType cur = mType orig"
    using assms by (auto simp: changed_def)
  have m: "slot_equiv (mFields cur g) (mFields orig g)" if "g \<in> fst ` set (elements (mType orig))" "mFields cur g \<noteq> None" for g
  proof -
    have "(g, mFields cur g) \<in> set (slots cur)" using that(1) by (auto simp: slots_def t)
    then have "hasMatchingEntry orig (g, mFields cur g)" using q that elements_binary by (auto simp: sle_eq_def)
    then show ?thesis using slots_lookup [of g orig] that(1) by (simp add: hasMatchingEntry_def)
  qed
  have c: "mFields cur f = None" using m [OF f(1)] f(2) by blast
  then have cn: "mFields cur f = None" "mFields orig f \<noteq> None" using f(2) by auto
  have "length (filter (\<lambda>p. mFields cur (fst p) \<noteq> None \<and> isBinary (fst p)) (elements (mType orig))) <
     length (filter (\<lambda>p. mFields orig (fst p) \<noteq> None \<and> isBinary (fst p)) (elements (mType orig)))"
  proof -
    obtain s where s: "(f, s) \<in> set (elements (mType orig))" using f(1) by auto
    show ?thesis
    proof (rule filter_strict [OF _ s])
      show "mFields orig (fst x) \<noteq> None \<and> isBinary (fst x)" if "x \<in> set (elements (mType orig))" "mFields cur (fst x) \<noteq> None \<and> isBinary (fst x)" for x
        using m [of "fst x"] that by (cases "mFields orig (fst x)") auto
    qed (use cn elements_binary [OF f(1)] in auto)
  qed
  then show False using q by (simp add: sle_eq_def slots_def filter_map comp_def case_prod_unfold t)
qed

subsection \<open>The loop\<close>

definition must_report :: "LedgerEntrySet \<times> mods \<Rightarrow> uint256 \<Rightarrow> sfield \<Rightarrow> bool" where
  "must_report st i t \<longleftrightarrow> (hasEntry i (fst st) = taaCREATE \<and> t = sfCreatedNode) \<or> (hasEntry i (fst st) = taaDELETE \<and> t = sfDeletedNode) \<or>
     (hasEntry i (fst st) = taaMODIFY \<and> t = sfModifiedNode \<and>
        (\<exists>cur orig. full st i = Some cur \<and> getSLE (mLedger (fst st)) i = Some orig \<and> changed cur orig))"

lemma must_report_threads:
  assumes m: "must_report st i t" and th: "threads st st'"
  shows "must_report st' i t"
proof -
  have s: "same_action (hasEntry i (fst st)) (hasEntry i (fst st'))" and r: "rel_option threaded (full st i) (full st' i)"
    and l: "mLedger (fst st') = mLedger (fst st)" using th by (auto simp: threads_def same_frame_def)
  have "\<exists>cur'. full st' i = Some cur' \<and> changed cur' orig" if "full st i = Some cur" "changed cur orig" for cur orig
    using r that changed_threaded by (auto simp: option_rel_Some1)
  then show ?thesis using m s l by (auto simp: must_report_def same_action_def)
qed

lemma meta_entry_reports:
  assumes inv: "meta_inv st" and ok: "nodes_ok (mMetaNodes (mSet (fst st)))" and r: "meta_entry h g i st = Inr st'"
    and m: "must_report st i t"
  shows "reported st' i = Some t"
proof -
  obtain e where e: "map_of (mEntries (fst st)) i = Some e" "hasEntry i (fst st) = mAction e"
    using m by (auto simp: must_report_def hasEntry_def split: option.splits)
  have "full st i = Some (mEntry e)" if "mAction e = taaMODIFY" using entry_full [OF inv e(1)] that by simp
  then show ?thesis using meta_entry_turn [OF inv ok r] m e changed_not_eq by (auto simp: must_report_def)
qed

lemma meta_loop_reports:
  assumes "meta_inv st" "nodes_ok (mMetaNodes (mSet (fst st)))" "meta_loop h g is st = Inr st'" "distinct is"
  shows "threads st st' \<and> nodes_ok (mMetaNodes (mSet (fst st'))) \<and>
    (\<forall>j. j \<notin> set is \<longrightarrow> reported st j \<noteq> None \<longrightarrow> reported st' j = reported st j) \<and>
    (\<forall>i \<in> set is. \<forall>t. must_report st i t \<longrightarrow> reported st' i = Some t)"
  using assms
proof (induction "is" arbitrary: st)
  case Nil
  then show ?case by (simp add: threads_refl)
next
  case (Cons i "is")
  obtain st1 where r: "meta_entry h g i st = Inr st1" "meta_loop h g is st1 = Inr st'"
    using Cons.prems(3) by (auto simp: exn_simps)
  have t: "turn i st st1" using meta_entry_turn [OF Cons.prems(1,2) r(1)] by simp
  then have th: "threads st st1" and ok: "nodes_ok (mMetaNodes (mSet (fst st1)))"
    and k: "\<And>j. j \<noteq> i \<Longrightarrow> reported st j \<noteq> None \<Longrightarrow> reported st1 j = reported st j" by (auto simp: turn_def)
  have IH: "threads st1 st'" "nodes_ok (mMetaNodes (mSet (fst st')))"
    "\<And>j. j \<notin> set is \<Longrightarrow> reported st1 j \<noteq> None \<Longrightarrow> reported st' j = reported st1 j"
    "\<And>j t. j \<in> set is \<Longrightarrow> must_report st1 j t \<Longrightarrow> reported st' j = Some t"
    using Cons.IH [OF threads_inv [OF th] ok r(2)] Cons.prems(4) by auto
  have "reported st' i = Some t" if "must_report st i t" for t
    using meta_entry_reports [OF Cons.prems(1,2) r(1) that] IH(3) [of i] Cons.prems(4) by simp
  moreover have "reported st' j = Some t" if "j \<in> set is" "must_report st j t" for j t
    using IH(4) [OF that(1)] must_report_threads [OF that(2) th] by simp
  ultimately show ?case using threads_trans [OF th IH(1)] IH(2,3) k by auto
qed

lemma entryModify_set: "entryModify sle les = Inr les' \<Longrightarrow> mSet les' = mSet les"
  by (auto simp: entryModify_def put_entry_def split: option.splits LedgerEntryAction.splits)

lemma modify_all_view:
  assumes "les_ok les" "distinct (map fst nm)" "\<And>i s. (i, s) \<in> set nm \<Longrightarrow> mIndex s = i \<and> view les i \<noteq> None"
  shows "\<exists>les'. modify_all nm les = Inr les' \<and> les_ok les' \<and> mLedger les' = mLedger les \<and> mParams les' = mParams les \<and>
    mSet les' = mSet les \<and> (\<forall>i. view les' i = (case map_of nm i of Some s \<Rightarrow> Some s | None \<Rightarrow> view les i))"
  using assms
proof (induction nm arbitrary: les)
  case (Cons p nm)
  obtain i s where p: "p = (i, s)" by (cases p)
  have i: "mIndex s = i" "view les i \<noteq> None" using Cons.prems(3) [of i s] by (auto simp: p)
  obtain les1 where l1: "entryModify s les = Inr les1" "les_ok les1" "view les1 = (view les)(i \<mapsto> s)"
    "mLedger les1 = mLedger les" "mParams les1 = mParams les" using entryModify_spec [OF Cons.prems(1), of s] i by auto
  have "\<exists>les'. modify_all nm les1 = Inr les' \<and> les_ok les' \<and> mLedger les' = mLedger les1 \<and> mParams les' = mParams les1 \<and>
      mSet les' = mSet les1 \<and> (\<forall>i. view les' i = (case map_of nm i of Some s \<Rightarrow> Some s | None \<Rightarrow> view les1 i))"
    by (rule Cons.IH [OF l1(2)]) (use Cons.prems(2,3) in \<open>auto simp: l1(3) p\<close>)
  then obtain les' where l': "modify_all nm les1 = Inr les'" "les_ok les'" "mLedger les' = mLedger les1" "mParams les' = mParams les1"
      "mSet les' = mSet les1" "\<And>i. view les' i = (case map_of nm i of Some s \<Rightarrow> Some s | None \<Rightarrow> view les1 i)" by blast
  have n: "map_of nm i = None" using Cons.prems(2) by (auto simp: p map_of_eq_None_iff)
  show ?case
    by (rule exI [of _ les']) (use l' l1 n entryModify_set [OF l1(1)] in \<open>auto simp: p split: option.split\<close>)
qed simp

lemma in_order_distinct: "in_order m \<Longrightarrow> distinct (map fst m)"
  by (simp add: strict_sorted_iff)

lemma kind_of_Some:
  assumes "nodes_ok ns"
  shows "kind_of ns i = Some t \<longleftrightarrow> (\<exists>p \<in> set ns. node_is i p \<and> fst p = t)"
  using assms
proof (induction ns)
  case (Cons p ns)
  have "\<not> node_is i q" if "node_is i p" "q \<in> set ns" for q
  proof
    assume "node_is i q"
    then have "node_index q = node_index p" using that(1) by (simp add: node_is_index)
    moreover have "node_index p \<notin> node_index ` set ns" using Cons.prems by (simp add: nodes_ok_def)
    ultimately show False using that(2) by (metis imageI)
  qed
  then show ?case using Cons by (auto simp: kind_of_Cons nodes_ok_def)
qed simp

lemma kind_of_sort:
  assumes "nodes_ok ns"
  shows "kind_of (sort_key node_index ns) = kind_of ns"
proof -
  have "distinct (map node_index (sort_key node_index ns))"
    using assms by (auto simp: nodes_ok_def distinct_map)
  then have "nodes_ok (sort_key node_index ns)" using assms by (simp add: nodes_ok_def)
  then have "kind_of (sort_key node_index ns) i = Some t \<longleftrightarrow> kind_of ns i = Some t" for i t
    by (simp add: kind_of_Some assms)
  then show ?thesis by (metis (no_types) ext not_Some_eq)
qed

lemma view_kinds:
  assumes ok: "les_ok les"
  shows "getSLE (mLedger les) i = None \<Longrightarrow> view les i \<noteq> None \<Longrightarrow> hasEntry i les = taaCREATE"
    "getSLE (mLedger les) i \<noteq> None \<Longrightarrow> view les i = None \<Longrightarrow> hasEntry i les = taaDELETE"
    "getSLE (mLedger les) i = Some orig \<Longrightarrow> view les i = Some cur \<Longrightarrow> cur \<noteq> orig \<Longrightarrow> hasEntry i les = taaMODIFY"
  using les_okD(3) [OF ok, of i]
  by (auto simp: view_def hasEntry_def entry_ok_def split: option.splits if_splits LedgerEntryAction.splits)

lemma calcRawMeta_threads:
  assumes ok: "les_ok les" and e: "mMetaNodes (mSet les) = []" and r: "calcRawMeta h gLedgerSeq result index les = Inr (s, les')"
  shows "les_ok les' \<and> mLedger les' = mLedger les \<and> (\<forall>i. rel_option threaded (view les i) (view les' i))"
proof -
  obtain les1 nm les2 ms where l: "meta_loop h gLedgerSeq (map fst (mEntries les)) (les, []) = Inr (les1, nm)"
    and m: "modify_all nm les1 = Inr les2" and les': "les' = les2\<lparr>mSet := ms\<rparr>"
    using r by (auto simp: calcRawMeta_def exn_simps)
  have inv: "meta_inv (les, [])" using ok by (simp add: meta_inv_def)
  have n0: "nodes_ok (mMetaNodes (mSet (fst (les, [] :: mods))))" by (simp add: e nodes_ok_def)
  have th: "threads (les, []) (les1, nm)"
    using meta_loop_reports [OF inv n0 l in_order_distinct [OF les_okD(1) [OF ok]]] by auto
  have i1: "meta_inv (les1, nm)" using threads_inv [OF th] .
  have f0: "full (les, []) = view les" by (simp add: fun_eq_iff full_pair)
  have nm: "mIndex s = i \<and> view les1 i \<noteq> None" if "(i, s) \<in> set nm" for i s
    using i1 that by (auto simp: meta_inv_def view_def in_order_map_of)
  have "\<exists>les'. modify_all nm les1 = Inr les' \<and> les_ok les' \<and> mLedger les' = mLedger les1 \<and> mParams les' = mParams les1 \<and>
      mSet les' = mSet les1 \<and> (\<forall>i. view les' i = (case map_of nm i of Some s \<Rightarrow> Some s | None \<Rightarrow> view les1 i))"
    by (rule modify_all_view) (use i1 nm in \<open>auto simp: meta_inv_def in_order_distinct\<close>)
  then have l2: "les_ok les2" "mLedger les2 = mLedger les1" "view les2 = full (les1, nm)"
    using m by (auto simp: full_pair fun_eq_iff)
  have "les_ok les' \<and> mLedger les' = mLedger les" using l2 th by (simp add: les' threads_def same_frame_def)
  moreover have "rel_option threaded (view les i) (view les' i)" for i using th by (simp add: les' l2(3) threads_def f0)
  ultimately show ?thesis by blast
qed

text \<open>C13. The metadata of a transaction tells the whole change: when it has been built, the affected
  nodes are in strictly increasing order of index, every entry the transaction created or deleted is
  reported as such and every entry it changed is reported as modified. Building it does not touch the
  ledger, and changes of the entries nothing but the identifier and ledger of the last transaction.\<close>

theorem calcRawMeta_reports:
  assumes ok: "les_ok les" and e: "mMetaNodes (mSet les) = []" and r: "calcRawMeta h gLedgerSeq result index les = Inr (s, les')"
  shows "les_ok les' \<and> mLedger les' = mLedger les \<and> (\<forall>i. rel_option threaded (view les i) (view les' i)) \<and>
    sorted_wrt (<) (map node_index (mMetaNodes (mSet les'))) \<and>
    (\<forall>i. (getSLE (mLedger les) i = None \<and> view les i \<noteq> None \<longrightarrow> kind_of (mMetaNodes (mSet les')) i = Some sfCreatedNode) \<and>
         (getSLE (mLedger les) i \<noteq> None \<and> view les i = None \<longrightarrow> kind_of (mMetaNodes (mSet les')) i = Some sfDeletedNode) \<and>
         (\<forall>orig cur. getSLE (mLedger les) i = Some orig \<and> view les i = Some cur \<and> changed cur orig \<longrightarrow>
            kind_of (mMetaNodes (mSet les')) i = Some sfModifiedNode))"
proof -
  obtain les1 nm les2 ms where l: "meta_loop h gLedgerSeq (map fst (mEntries les)) (les, []) = Inr (les1, nm)"
    and m: "modify_all nm les1 = Inr les2" and w: "meta_addRaw result index (mSet les2) \<lparr>mData = []\<rparr> = Inr (s, ms)"
    and les': "les' = les2\<lparr>mSet := ms\<rparr>"
    using r by (auto simp: calcRawMeta_def exn_simps)
  have inv: "meta_inv (les, [])" using ok by (simp add: meta_inv_def)
  have n0: "nodes_ok (mMetaNodes (mSet (fst (les, [] :: mods))))" by (simp add: e nodes_ok_def)
  note loop = meta_loop_reports [OF inv n0 l in_order_distinct [OF les_okD(1) [OF ok]]]
  have th: "threads (les, []) (les1, nm)" and ok1: "nodes_ok (mMetaNodes (mSet les1))" using loop by auto
  have i1: "meta_inv (les1, nm)" using threads_inv [OF th] .
  have f0: "full (les, []) = view les" by (simp add: fun_eq_iff full_pair)
  have nm: "mIndex s = i \<and> view les1 i \<noteq> None" if "(i, s) \<in> set nm" for i s
    using i1 that by (auto simp: meta_inv_def view_def in_order_map_of)
  have "\<exists>les'. modify_all nm les1 = Inr les' \<and> les_ok les' \<and> mLedger les' = mLedger les1 \<and> mParams les' = mParams les1 \<and>
      mSet les' = mSet les1 \<and> (\<forall>i. view les' i = (case map_of nm i of Some s \<Rightarrow> Some s | None \<Rightarrow> view les1 i))"
    by (rule modify_all_view) (use i1 nm in \<open>auto simp: meta_inv_def in_order_distinct\<close>)
  then have l2: "les_ok les2" "mLedger les2 = mLedger les1" "mSet les2 = mSet les1" "view les2 = full (les1, nm)"
    using m by (auto simp: full_pair fun_eq_iff)
  have ns: "mMetaNodes ms = sort_key node_index (mMetaNodes (mSet les1))"
    using w l2(3) by (auto simp: meta_addRaw_def Let_def exn_simps)
  have srt: "sorted_wrt (<) (map node_index (mMetaNodes ms))"
    using ok1 by (simp add: ns nodes_ok_def strict_sorted_iff distinct_map)
  have rep: "kind_of (mMetaNodes ms) i = Some t" if "must_report (les, []) i t" for i t
  proof -
    have "i \<in> set (map fst (mEntries les))"
      using that by (cases "map_of (mEntries les) i") (auto simp: must_report_def hasEntry_def dest: map_of_SomeD intro: rev_image_eqI)
    then have "reported (les1, nm) i = Some t" using loop that by blast
    then show ?thesis by (simp add: reported_def ns kind_of_sort [OF ok1])
  qed
  have k: "must_report (les, []) i sfModifiedNode" if "getSLE (mLedger les) i = Some orig" "view les i = Some cur" "changed cur orig" for i orig cur
  proof -
    have "cur \<noteq> orig" using that(3) by (auto simp: changed_def)
    then show ?thesis using view_kinds(3) [OF ok that(1,2)] that by (auto simp: must_report_def f0)
  qed
  show ?thesis
    using calcRawMeta_threads [OF ok e r] srt rep k view_kinds [OF ok] by (auto simp: les' must_report_def)
qed

definition meta_ledger :: Ledger where
  "meta_ledger = sample_ledger\<lparr>mAccountStateMap := [(7, mkSLE ltGENERATOR_MAP 7), (9, mkSLE ltGENERATOR_MAP 9)]\<rparr>"

definition meta_les :: LedgerEntrySet where
  "meta_les = sample_les\<lparr>mLedger := meta_ledger, mEntries :=
     [(5, \<lparr>mEntry = mkSLE ltGENERATOR_MAP 5, mAction = taaCREATE, mEntrySeq = 0\<rparr>),
      (7, \<lparr>mEntry = mkSLE ltGENERATOR_MAP 7, mAction = taaDELETE, mEntrySeq = 0\<rparr>),
      (9, \<lparr>mEntry = setFieldVL sfGenerator [1] (mkSLE ltGENERATOR_MAP 9), mAction = taaMODIFY, mEntrySeq = 0\<rparr>)]\<rparr>"

lemma meta_getSLE: "getSLE meta_ledger = [7 \<mapsto> mkSLE ltGENERATOR_MAP 7, 9 \<mapsto> mkSLE ltGENERATOR_MAP 9]"
  by (auto simp: getSLE_def meta_ledger_def fun_eq_iff)

lemma generator_entry:
  "\<not> hasOneOwner (mkSLE ltGENERATOR_MAP i)" "\<not> hasTwoOwners (mkSLE ltGENERATOR_MAP i)" "\<not> isThreadedType (mkSLE ltGENERATOR_MAP i)"
  "\<not> isThreadedType (setFieldVL sfGenerator [1] (mkSLE ltGENERATOR_MAP i))"
  "new_fields (mkSLE ltGENERATOR_MAP i) = []"
  "prev_fields (mkSLE ltGENERATOR_MAP i) (mkSLE ltGENERATOR_MAP i) = []"
  "prev_fields (mkSLE ltGENERATOR_MAP i) (setFieldVL sfGenerator [1] (mkSLE ltGENERATOR_MAP i)) = [(sfGenerator, Some (VBlob []))]"
  "final_fields (sMD_Always OR sMD_DeleteFinal) (mkSLE ltGENERATOR_MAP i) =
     [(sfLedgerIndex, None), (sfFlags, Some (VU32 0)), (sfGenerator, Some (VBlob []))]"
  "final_fields (sMD_Always OR sMD_ChangeNew) (setFieldVL sfGenerator [1] (mkSLE ltGENERATOR_MAP i)) =
     [(sfLedgerIndex, None), (sfFlags, Some (VU32 0)), (sfGenerator, Some (VBlob [1]))]"
  "\<not> sle_eq (setFieldVL sfGenerator [1] (mkSLE ltGENERATOR_MAP i)) (mkSLE ltGENERATOR_MAP i)"
  "getFieldU16 (mkSLE ltGENERATOR_MAP i) sfLedgerEntryType = 0x67"
  "getFieldU16 (setFieldVL sfGenerator [1] (mkSLE ltGENERATOR_MAP i)) sfLedgerEntryType = 0x67"
  by code_simp+

lemma generator_loop:
  "meta_loop last_byte 1000000 [5, 7, 9] (meta_les, []) = Inr (meta_les\<lparr>mSet := (mSet sample_les)\<lparr>mMetaNodes :=
     [(sfCreatedNode, [(sfLedgerIndex, VH256 5), (sfLedgerEntryType, VU16 0x67)]),
      (sfDeletedNode, [(sfLedgerIndex, VH256 7), (sfLedgerEntryType, VU16 0x67),
         (sfFinalFields, VObject [(sfFlags, VU32 0), (sfGenerator, VBlob [])])]),
      (sfModifiedNode, [(sfLedgerIndex, VH256 9), (sfLedgerEntryType, VU16 0x67),
         (sfPreviousFields, VObject [(sfGenerator, VBlob [])]), (sfFinalFields, VObject [(sfFlags, VU32 0), (sfGenerator, VBlob [1])])])]\<rparr>\<rparr>, [])"
  by (simp add: meta_entry_def meta_les_def sample_les_def meta_getSLE meta_created_def meta_deleted_def meta_modified_def threadOwners_def
      generator_entry cur_entry_def add_inner_def set_affected_def setAffectedNode_def node_is_def present_def map_filter_simps)


lemma meta_addRaw_total:
  assumes "\<forall>p\<in>set (mMetaNodes ms). \<forall>q\<in>set (snd p). short (snd q)"
  shows "\<exists>x. meta_addRaw r i ms s = Inr x"
proof -
  have "\<exists>s'. object_add True (getAsObject (ms\<lparr>mMetaResult := r, mMetaIndex := i, mMetaNodes := sort_key node_index (mMetaNodes ms)\<rparr>)) s = Inr s'"
    by (rule object_add_total) (use assms in \<open>auto simp: getAsObject_def Let_def split: option.splits\<close>)
  then show ?thesis by (auto simp: meta_addRaw_def Let_def)
qed

theorem calcRawMeta_reports_witness:
  "\<exists>s les'. calcRawMeta last_byte 1000000 tesSUCCESS 0 meta_les = Inr (s, les') \<and>
     kind_of (mMetaNodes (mSet les')) 5 = Some sfCreatedNode \<and> kind_of (mMetaNodes (mSet les')) 7 = Some sfDeletedNode \<and>
     kind_of (mMetaNodes (mSet les')) 9 = Some sfModifiedNode"
proof -
  have "\<exists>s. calcRawMeta last_byte 1000000 tesSUCCESS 0 meta_les = Inr s"
  proof -
    have "map fst (mEntries meta_les) = [5, 7, 9]" by (simp add: meta_les_def)
    then show ?thesis using generator_loop meta_addRaw_total
      by (simp only: calcRawMeta_def bindE.simps prod.case modify_all.simps) (fastforce simp: exn_simps)
  qed
  then obtain s les' where r: "calcRawMeta last_byte 1000000 tesSUCCESS 0 meta_les = Inr (s, les')" by auto
  have l: "mMetaNodes (mSet meta_les) = []" "mLedger meta_les = meta_ledger" by (simp_all add: meta_les_def sample_les_def)
  have ok: "les_ok meta_les"
    by (auto simp: les_ok_def ledger_ok_def meta_getSLE l(2) split: if_splits)
      (auto simp: meta_les_def entry_ok_def setFieldVL_def meta_ledger_def getSLE_def split: if_splits)
  have v: "view meta_les 5 = Some (mkSLE ltGENERATOR_MAP 5)" "view meta_les 7 = None"
    "view meta_les 9 = Some (setFieldVL sfGenerator [1] (mkSLE ltGENERATOR_MAP 9))"
    by (simp_all add: view_def meta_les_def)
  have c: "changed (setFieldVL sfGenerator [1] (mkSLE ltGENERATOR_MAP 9)) (mkSLE ltGENERATOR_MAP 9)"
    by (auto simp: changed_def thread_fields_def setFieldVL_def mkSLE_def elements_def)
  note k = spec [OF conjunct2 [OF conjunct2 [OF conjunct2 [OF conjunct2 [OF calcRawMeta_reports [OF ok l(1) r]]]]]]
  have "kind_of (mMetaNodes (mSet les')) 5 = Some sfCreatedNode" using k [of 5] by (simp add: l v meta_getSLE)
  moreover have "kind_of (mMetaNodes (mSet les')) 7 = Some sfDeletedNode" using k [of 7] by (simp add: l v meta_getSLE)
  moreover have "kind_of (mMetaNodes (mSet les')) 9 = Some sfModifiedNode" using k [of 9] c by (simp add: l v meta_getSLE)
  ultimately show ?thesis using r by blast
qed

end
