(* ===== verification/Transaction.thy ===== *)
theory Transaction
imports Metadata
begin

text \<open>
  Transactions: the formats of \<open>TxFormats\<close> (ripple_data/protocol/TxFormats.cpp, TxFlags.h), the class
  \<open>SerializedTransaction\<close> (ripple_app/misc/SerializedTransaction.cpp), the signature check of
  \<open>RippleAddress\<close> (ripple_data/protocol/RippleAddress.cpp) and the reading and writing of ledger entries
  (ripple_app/misc/SerializedLedger.cpp).

  The lemma \<open>template_roundtrip\<close> says that an object with a template survives the wire; the round trips
  of ledger entries and of transactions are its instances. The hash function and the signature check of
  libsodium are parameters.
\<close>

subsection \<open>Objects with a template\<close>

text \<open>The fields of an object that has the template \<open>T\<close>, in the order of the template.\<close>

definition template_data :: "(sfield \<times> SOE_Flags) list \<Rightarrow> 'a STObject_scheme \<Rightarrow> fields" where
  "template_data T obj = present (map (\<lambda>(f, _). (f, mFields obj f)) T)"

lemma present_simps [simp]: "present [] = []"
  "present ((f, None) # xs) = present xs" "present ((f, Some v) # xs) = (f, v) # present xs"
  by (simp_all add: present_def map_filter_simps)

lemma option_ext: "(\<And>v. a = Some v \<longleftrightarrow> b = Some v) \<Longrightarrow> a = b"
  by (cases a; cases b) auto

lemma template_data_set: "(f, v) \<in> set (template_data T obj) \<longleftrightarrow> f \<in> fst ` set T \<and> mFields obj f = Some v"
proof (induction T)
  case (Cons p T)
  then show ?case by (cases "mFields obj (fst p)") (auto simp: template_data_def case_prod_unfold)
qed (simp add: template_data_def)

lemma template_data_keys: "fst ` set (template_data T obj) = {f \<in> fst ` set T. mFields obj f \<noteq> None}"
proof -
  have "f \<in> fst ` set (template_data T obj) \<longleftrightarrow> f \<in> fst ` set T \<and> mFields obj f \<noteq> None" for f
    using template_data_set [of f _ T obj] by (auto simp: image_iff) force+
  then show ?thesis by blast
qed

lemma template_data_Cons:
  "template_data ((f, s) # T) obj = (case mFields obj f of None \<Rightarrow> template_data T obj | Some v \<Rightarrow> (f, v) # template_data T obj)"
  by (simp add: template_data_def split: option.split)

lemma template_data_distinct: "distinct (map fst T) \<Longrightarrow> distinct (map fst (template_data T obj))"
proof (induction T)
  case (Cons p T)
  then show ?case using template_data_keys [of T obj]
    by (cases p) (auto simp: template_data_Cons split: option.split)
qed (simp add: template_data_def)

lemma map_of_template_data:
  assumes "distinct (map fst T)"
  shows "map_of (template_data T obj) f = (if f \<in> fst ` set T then mFields obj f else None)"
proof -
  have e: "map_of (template_data T obj) f = Some v \<longleftrightarrow> f \<in> fst ` set T \<and> mFields obj f = Some v" for v
    by (simp only: map_of_eq_Some_iff [OF template_data_distinct [OF assms]] template_data_set)
  show ?thesis
  proof (cases "map_of (template_data T obj) f")
    case None
    then show ?thesis using e by (metis option.distinct(1) not_Some_eq)
  next
    case (Some v)
    then show ?thesis using e [of v] by simp
  qed
qed

lemma remove_field_map: "distinct (map fst d) \<Longrightarrow> map_of (remove_field f d) = (map_of d)(f := None)"
proof (induction f d rule: remove_field.induct)
  case (2 f g v fs)
  then show ?case by (auto simp: fun_eq_iff map_of_eq_None_iff)
qed simp

lemma remove_field_keys: "distinct (map fst d) \<Longrightarrow> fst ` set (remove_field f d) = fst ` set d - {f} \<and> distinct (map fst (remove_field f d))"
proof (induction f d rule: remove_field.induct)
  case (2 f g v fs)
  then show ?case by (cases "g = f") auto
qed simp

definition template_ok :: "(sfield \<times> SOE_Flags) list \<Rightarrow> (sfield \<Rightarrow> st_value option) \<Rightarrow> bool" where
  "template_ok T m \<longleftrightarrow> (\<forall>(f, s) \<in> set T. case m f of None \<Rightarrow> s \<noteq> SOE_REQUIRED | Some v \<Rightarrow> \<not> (s = SOE_DEFAULT \<and> isDefault v))"

lemma setType_loop_template:
  assumes "distinct (map fst T)" "distinct (map fst d)" "fst ` set d \<subseteq> fst ` set T"
  shows "setType_loop T d = (template_data T \<lparr>mFields = map_of d\<rparr>, [], template_ok T (map_of d))"
  using assms
proof (induction T arbitrary: d)
  case Nil
  then show ?case by (simp add: template_data_def template_ok_def)
next
  case (Cons p T)
  obtain f s where p: "p = (f, s)" by (cases p)
  have fT: "f \<notin> fst ` set T" using Cons.prems(1) by (simp add: p)
  have nT: "(f, b) \<notin> set T" for b using fT by force
  have same: "template_data T \<lparr>mFields = (map_of d)(f := None)\<rparr> = template_data T \<lparr>mFields = map_of d\<rparr>"
    using nT by (auto simp: template_data_def intro!: arg_cong [of _ _ present])
  have ok: "template_ok T ((map_of d)(f := None)) = template_ok T (map_of d)"
    unfolding template_ok_def by (rule ball_cong) (use nT in \<open>auto split: if_splits\<close>)
  show ?case
  proof (cases "map_of d f")
    case None
    then have "fst ` set d \<subseteq> fst ` set T" using Cons.prems(3) by (auto simp: p map_of_eq_None_iff)
    then have "setType_loop T d = (template_data T \<lparr>mFields = map_of d\<rparr>, [], template_ok T (map_of d))"
      using Cons by auto
    then show ?thesis using None by (auto simp: p template_data_Cons template_ok_def)
  next
    case (Some v)
    have "setType_loop T (remove_field f d) = (template_data T \<lparr>mFields = map_of (remove_field f d)\<rparr>, [], template_ok T (map_of (remove_field f d)))"
      by (rule Cons.IH) (use Cons.prems remove_field_keys [OF Cons.prems(2), of f] in \<open>auto simp: p\<close>)
    then show ?thesis using Some
      by (auto simp: p template_data_Cons remove_field_map [OF Cons.prems(2)] same ok) (auto simp: template_ok_def)
  qed
qed

lemma wire_field_code_inj: "wire_field f \<Longrightarrow> wire_field g \<Longrightarrow> fieldCode f = fieldCode g \<Longrightarrow> f = g"
proof -
  assume w: "wire_field f" "wire_field g" and e: "fieldCode f = fieldCode g"
  obtain t i u j where f: "f = SField t i" "g = SField u j" by (cases f; cases g) auto
  have b: "0 < i" "i < 256" "0 < j" "j < 256" using w by (auto simp: f wire_field_def)
  have e': "int (type_code t) * 65536 + i = int (type_code u) * 65536 + j"
    using e by (simp add: f fieldCode_def FIELD_CODE_def)
  have "type_code t = type_code u" using e' b by linarith
  moreover from this have "i = j" using e' by simp
  ultimately have "i = j \<and> type_code t = type_code u" by simp
  then show "f = g" by (cases t; cases u) (auto simp: f)
qed

text \<open>Objects with a template survive the wire.\<close>

definition wire_object :: "(sfield \<times> SOE_Flags) list \<Rightarrow> 'a STObject_scheme \<Rightarrow> bool" where
  "wire_object T obj \<longleftrightarrow> template_ok T (mFields obj) \<and> (\<forall>f. f \<notin> fst ` set T \<longrightarrow> mFields obj f = None) \<and>
     (\<forall>f v. mFields obj f = Some v \<longrightarrow> wire_field f \<and> fieldType f = value_type v \<and> wire_value v)"

lemma template_roundtrip:
  assumes T: "distinct (map fst T)" and w: "wire_object T obj"
  shows "\<exists>s' fs. object_add True (template_data T obj) s = Inr s' \<and>
    object_set \<lparr>mSerializer = s', mPos = length (mData s)\<rparr> = Inr ((fs, False), \<lparr>mSerializer = s', mPos = length (mData s')\<rparr>) \<and>
    map_of fs = mFields obj \<and> setType T fs = (True, template_data T obj)"
proof -
  let ?d = "template_data T obj"
  define fs where "fs = sort_fields True ?d"
  have wf: "wire_field f \<and> fieldType f = value_type v \<and> wire_value v" if "(f, v) \<in> set ?d" for f v
    using w that by (auto simp: wire_object_def template_data_set)
  have dd: "distinct (map (fieldCode \<circ> fst) ?d)"
    unfolding distinct_map
  proof (intro conjI inj_onI)
    show d0: "distinct ?d" using template_data_distinct [OF T, of obj] by (simp add: distinct_map)
    fix p q assume pq: "p \<in> set ?d" "q \<in> set ?d" "(fieldCode \<circ> fst) p = (fieldCode \<circ> fst) q"
    then have "fst p = fst q" using wf [of "fst p" "snd p"] wf [of "fst q" "snd q"] wire_field_code_inj by simp
    then show "p = q" using pq template_data_distinct [OF T, of obj] by (auto simp: distinct_map inj_on_def)
  qed
  have inc: "\<forall>p\<in>set ?d. shouldInclude True (fst p)" using wf by (auto simp: shouldInclude_def wire_field_def)
  note srt = sort_fields_sorted [OF dd inc, folded fs_def]
  have "wire_fields fs" using srt wf by (auto simp: srt(2))
  moreover have idem: "sort_fields True fs = fs" 
  proof (rule sort_fields_id [OF srt(1)])
    show "\<forall>p\<in>set fs. wire_field (fst p)" using wf by (auto simp: srt(2))
  qed
  ultimately obtain s' where s': "object_add True ?d s = Inr s'"
      "object_set \<lparr>mSerializer = s', mPos = length (mData s)\<rparr> = Inr ((fs, False), \<lparr>mSerializer = s', mPos = length (mData s')\<rparr>)"
    using object_codec [of fs s] by (auto simp: object_add_def simp flip: fs_def)
  have df: "distinct (map fst fs)"
  proof -
    have "distinct (map (fieldCode \<circ> fst) fs)" using srt(1) by (simp add: sorted_codes_def strict_sorted_iff)
    then have "distinct (map fieldCode (map fst fs))" by simp
    then show ?thesis using distinct_map by blast
  qed
  have m: "map_of fs = mFields obj"
  proof
    fix f
    have "map_of fs f = Some v \<longleftrightarrow> mFields obj f = Some v" for v
      using map_of_eq_Some_iff [OF df] w by (auto simp: srt(2) template_data_set wire_object_def)
    then show "map_of fs f = mFields obj f" by (rule option_ext)
  qed
  have "setType_loop T fs = (template_data T \<lparr>mFields = map_of fs\<rparr>, [], template_ok T (map_of fs))"
    by (rule setType_loop_template [OF T df]) (use w in \<open>auto simp: srt(2) template_data_set\<close>)
  then have "setType T fs = (True, template_data T obj)"
    using w by (simp add: setType_def m wire_object_def template_data_def)
  then show ?thesis using s' m by blast
qed

subsection \<open>Canonical signatures\<close>

text \<open>\<open>crypto_sign_check_S_lt_l\<close> compares the second half of a signature with the order of the group
  without branching on its bytes: \<open>c\<close> becomes 1 at the most significant position where they differ if the
  signature is smaller there, and \<open>n\<close> is 1 as long as they agree. Operands are promoted to int, where the
  shift is arithmetic, and truncated to a byte when stored.\<close>

definition group_order :: "u8 list" where
  "group_order = [0xed, 0xd3, 0xf5, 0x5c, 0x1a, 0x63, 0x12, 0x58, 0xd6, 0x9c, 0xf7, 0xa2, 0xde, 0xf9, 0xde, 0x14,
     0x00, 0x00, 0x00, 0x00, 0x00, 0x00, 0x00, 0x00, 0x00, 0x00, 0x00, 0x00, 0x00, 0x00, 0x00, 0x10]"

fun S_lt_l_loop :: "(u8 \<times> u8) list \<Rightarrow> u8 \<Rightarrow> u8 \<Rightarrow> u8" where
  "S_lt_l_loop [] c n = c"
| "S_lt_l_loop ((S, l) # r) c n =
     S_lt_l_loop r (c OR (word_of_int (drop_bit 8 (uint S - uint l)) AND n))
       (n AND word_of_int (drop_bit 8 (uint (S XOR l) - 1)))"

definition crypto_sign_check_S_lt_l :: "u8 list \<Rightarrow> int" where
  "crypto_sign_check_S_lt_l S = (if S_lt_l_loop (rev (zip S group_order)) 0 1 = 0 then -1 else 0)"

definition signatureIsCanonical :: "Blob \<Rightarrow> bool" where
  "signatureIsCanonical vchSig \<longleftrightarrow> crypto_sign_check_S_lt_l (drop 32 vchSig) = 0"

text \<open>The number that little-endian bytes stand for, which is what RFC 8032 compares with the order.\<close>

fun le_value :: "u8 list \<Rightarrow> nat" where
  "le_value [] = 0"
| "le_value (b # bs) = unat b + 256 * le_value bs"

lemma le_value_append: "le_value (xs @ ys) = le_value xs + 256 ^ length xs * le_value ys"
  by (induction xs) (auto simp: algebra_simps)

lemma le_value_bound: "le_value xs < 256 ^ length xs"
proof (induction xs)
  case (Cons b xs)
  have "unat b < 2 ^ LENGTH(8)" by (rule unsigned_less)
  then show ?case using Cons by simp
qed simp

lemma S_lt_l_stop: "S_lt_l_loop xs c 0 = c"
  by (induction xs) (auto simp: case_prod_unfold)

lemma byte_cmp:
  fixes S l :: u8
  shows "word_of_int (drop_bit 8 (uint S - uint l)) AND (1 :: u8) = (if S < l then 1 else 0)"
    "(1 :: u8) AND word_of_int (drop_bit 8 (uint (S XOR l) - 1)) = (if S = l then 1 else 0)"
proof -
  have b: "uint S < 256" "uint l < 256" "0 \<le> uint S" "0 \<le> uint l"
    using unsigned_less [of S, where 'a = int] unsigned_less [of l, where 'a = int] by simp_all
  have neg: "0 \<le> a \<Longrightarrow> a < b \<Longrightarrow> b < 256 \<Longrightarrow> (a - b) div 256 = -1" for a b :: int
    using div_pos_pos_trivial [of "a - b + 256" 256] div_add_self2 [of 256 "a - b"] by simp
  have pos: "0 \<le> b \<Longrightarrow> b \<le> a \<Longrightarrow> a < 256 \<Longrightarrow> (a - b) div 256 = 0" for a b :: int by (rule div_pos_pos_trivial) linarith+
  have d: "drop_bit 8 x = x div 256" for x :: int by (simp add: drop_bit_eq_div)
  show "word_of_int (drop_bit 8 (uint S - uint l)) AND (1 :: u8) = (if S < l then 1 else 0)"
  proof (cases "S < l")
    case True
    then have "(uint S - uint l) div 256 = -1" using b neg by (simp add: word_less_def)
    then show ?thesis using True by (simp add: d)
  next
    case False
    then have "(uint S - uint l) div 256 = 0" by (intro pos b) (simp add: word_less_def)
    then show ?thesis using False by (simp add: d)
  qed
  have x: "uint (S XOR l) < 256" "0 \<le> uint (S XOR l)" using unsigned_less [of "S XOR l", where 'a = int] by simp_all
  show "(1 :: u8) AND word_of_int (drop_bit 8 (uint (S XOR l) - 1)) = (if S = l then 1 else 0)"
  proof (cases "S = l")
    case True
    then show ?thesis by (simp add: d)
  next
    case False
    then have "S XOR l \<noteq> 0" by (auto simp: bit_eq_iff bit_xor_iff)
    then have "uint (S XOR l) \<noteq> 0" by (simp add: uint_0_iff)
    then have "(uint (S XOR l) - 1) div 256 = 0" using x by (intro pos) linarith+
    then show ?thesis using False by (simp add: d)
  qed
qed

lemma S_lt_l_compare:
  "length xs = length ys \<Longrightarrow> S_lt_l_loop (rev (zip xs ys)) 0 1 \<noteq> 0 \<longleftrightarrow> le_value xs < le_value ys"
proof (induction xs arbitrary: ys rule: rev_induct)
  case (snoc x xs ys')
  then obtain ys y where ys: "ys' = ys @ [y]" by (cases ys' rule: rev_cases) auto
  then have l: "length xs = length ys" using snoc.prems by simp
  have b: "le_value xs < 256 ^ length ys" "le_value ys < 256 ^ length ys" using le_value_bound l by metis+
  show ?case
  proof (cases "x = y")
    case True
    then show ?thesis using snoc.IH [OF l] by (simp add: ys l byte_cmp le_value_append)
  next
    case False
    have "unat x < unat y \<Longrightarrow> le_value xs + 256 ^ length ys * unat x < le_value ys + 256 ^ length ys * unat y"
    proof -
      assume "unat x < unat y"
      then have "256 ^ length ys * (unat x + 1) \<le> 256 ^ length ys * unat y" by (intro mult_le_mono2) simp
      then show ?thesis using b by (simp add: algebra_simps)
    qed
    moreover have "unat y < unat x \<Longrightarrow> le_value ys + 256 ^ length ys * unat y < le_value xs + 256 ^ length ys * unat x"
    proof -
      assume "unat y < unat x"
      then have "256 ^ length ys * (unat y + 1) \<le> 256 ^ length ys * unat x" by (intro mult_le_mono2) simp
      then show ?thesis using b by (simp add: algebra_simps)
    qed
    moreover have "unat x < unat y \<longleftrightarrow> x < y" "unat y < unat x \<longleftrightarrow> y < x" by (simp_all add: word_less_nat_alt)
    moreover have "S_lt_l_loop (rev (zip (xs @ [x]) ys')) 0 1 = (if x < y then 1 else 0)"
      using False l by (simp add: ys byte_cmp S_lt_l_stop)
    moreover have "x < y \<or> y < x" using False by (simp add: neq_iff)
    ultimately show ?thesis by (simp add: ys le_value_append l) linarith
  qed
qed simp

lemma group_order_value: "length group_order = 32" "le_value group_order = 2 ^ 252 + 27742317777372353535851937790883648493"
  by (simp_all add: group_order_def)

text \<open>C20. The branch-free check accepts a signature exactly when the number in its second half is below
  the order of the group.\<close>

theorem canonical_is_below_order:
  "length sig = 64 \<Longrightarrow> signatureIsCanonical sig \<longleftrightarrow>
    le_value (drop 32 sig) < 2 ^ 252 + 27742317777372353535851937790883648493"
  using S_lt_l_compare [of "drop 32 sig" group_order] group_order_value
  by (auto simp: signatureIsCanonical_def crypto_sign_check_S_lt_l_def)

lemma le_value_zeros: "le_value (replicate n 0) = 0"
  by (induction n) auto

theorem canonical_is_below_order_witness:
  "length (replicate 32 0 @ group_order) = 64 \<and> \<not> signatureIsCanonical (replicate 32 0 @ group_order) \<and>
   signatureIsCanonical (replicate 64 0)"
  using canonical_is_below_order [of "replicate 32 0 @ group_order"] canonical_is_below_order [of "replicate 64 0"]
  by (simp only: length_append length_replicate group_order_value drop_append drop_replicate) (simp add: le_value_zeros group_order_value)

subsection \<open>Transaction types and formats\<close>

type_synonym TxType = int

named_theorems tx_types \<open>numeric transaction types\<close>

definition ttPAYMENT :: TxType where [tx_types]: "ttPAYMENT = 0"
definition ttINFLATION :: TxType where [tx_types]: "ttINFLATION = 1"
definition ttWALLET_ADD :: TxType where [tx_types]: "ttWALLET_ADD = 2"
definition ttACCOUNT_SET :: TxType where [tx_types]: "ttACCOUNT_SET = 3"
definition ttACCOUNT_MERGE :: TxType where [tx_types]: "ttACCOUNT_MERGE = 4"
definition ttREGULAR_KEY_SET :: TxType where [tx_types]: "ttREGULAR_KEY_SET = 5"
definition ttOFFER_CREATE :: TxType where [tx_types]: "ttOFFER_CREATE = 7"
definition ttOFFER_CANCEL :: TxType where [tx_types]: "ttOFFER_CANCEL = 8"
definition ttTRUST_SET :: TxType where [tx_types]: "ttTRUST_SET = 20"
definition ttAMENDMENT :: TxType where [tx_types]: "ttAMENDMENT = 100"
definition ttFEE :: TxType where [tx_types]: "ttFEE = 101"

named_theorems tf_consts \<open>transaction flags\<close>

definition tfFullyCanonicalSig :: u32 where [tf_consts]: "tfFullyCanonicalSig = 0x80000000"
definition tfUniversal :: u32 where [tf_consts]: "tfUniversal = tfFullyCanonicalSig"
definition tfUniversalMask :: u32 where [tf_consts]: "tfUniversalMask = NOT tfUniversal"
definition tfRequireDestTag :: u32 where [tf_consts]: "tfRequireDestTag = 0x00010000"
definition tfOptionalDestTag :: u32 where [tf_consts]: "tfOptionalDestTag = 0x00020000"
definition tfRequireAuth :: u32 where [tf_consts]: "tfRequireAuth = 0x00040000"
definition tfOptionalAuth :: u32 where [tf_consts]: "tfOptionalAuth = 0x00080000"
definition tfDisallowSTR :: u32 where [tf_consts]: "tfDisallowSTR = 0x00100000"
definition tfAllowSTR :: u32 where [tf_consts]: "tfAllowSTR = 0x00200000"
definition tfAccountSetMask :: u32 where [tf_consts]:
  "tfAccountSetMask = NOT (tfUniversal OR tfRequireDestTag OR tfOptionalDestTag OR tfRequireAuth OR tfOptionalAuth
     OR tfDisallowSTR OR tfAllowSTR)"
definition asfRequireDest :: u32 where [tf_consts]: "asfRequireDest = 1"
definition asfRequireAuth :: u32 where [tf_consts]: "asfRequireAuth = 2"
definition asfDisableMaster :: u32 where [tf_consts]: "asfDisableMaster = 4"
definition tfPassive :: u32 where [tf_consts]: "tfPassive = 0x00010000"
definition tfImmediateOrCancel :: u32 where [tf_consts]: "tfImmediateOrCancel = 0x00020000"
definition tfFillOrKill :: u32 where [tf_consts]: "tfFillOrKill = 0x00040000"
definition tfSell :: u32 where [tf_consts]: "tfSell = 0x00080000"
definition tfOfferCreateMask :: u32 where [tf_consts]:
  "tfOfferCreateMask = NOT (tfUniversal OR tfPassive OR tfImmediateOrCancel OR tfFillOrKill OR tfSell)"
definition tfNoRippleDirect :: u32 where [tf_consts]: "tfNoRippleDirect = 0x00010000"
definition tfPartialPayment :: u32 where [tf_consts]: "tfPartialPayment = 0x00020000"
definition tfLimitQuality :: u32 where [tf_consts]: "tfLimitQuality = 0x00040000"
definition tfPaymentMask :: u32 where [tf_consts]:
  "tfPaymentMask = NOT (tfUniversal OR tfPartialPayment OR tfLimitQuality OR tfNoRippleDirect)"
definition tfSetfAuth :: u32 where [tf_consts]: "tfSetfAuth = 0x00010000"
definition tfSetNoRipple :: u32 where [tf_consts]: "tfSetNoRipple = 0x00020000"
definition tfClearNoRipple :: u32 where [tf_consts]: "tfClearNoRipple = 0x00040000"
definition tfClearAuth :: u32 where [tf_consts]: "tfClearAuth = 0x00080000"
definition tfTrustSetMask :: u32 where [tf_consts]:
  "tfTrustSetMask = NOT (tfUniversal OR tfSetfAuth OR tfSetNoRipple OR tfClearNoRipple OR tfClearAuth)"

definition tx_common_fields :: "(sfield \<times> SOE_Flags) list" where
  "tx_common_fields = [
     (sfTransactionType, SOE_REQUIRED), (sfFlags, SOE_OPTIONAL), (sfSourceTag, SOE_OPTIONAL), (sfAccount, SOE_REQUIRED),
     (sfSequence, SOE_REQUIRED), (sfPreviousTxnID, SOE_OPTIONAL), (sfLastLedgerSequence, SOE_OPTIONAL),
     (sfAccountTxnID, SOE_OPTIONAL), (sfFee, SOE_REQUIRED), (sfOperationLimit, SOE_OPTIONAL), (sfMemos, SOE_OPTIONAL),
     (sfSigningPubKey, SOE_REQUIRED), (sfTxnSignature, SOE_OPTIONAL)]"

definition tx_format :: "TxType \<Rightarrow> (sfield \<times> SOE_Flags) list option" where
  "tx_format type =
     (if type = ttACCOUNT_SET then Some [
        (sfTransferRate, SOE_OPTIONAL), (sfSetFlag, SOE_OPTIONAL), (sfClearFlag, SOE_OPTIONAL),
        (sfInflationDest, SOE_OPTIONAL), (sfSetAuthKey, SOE_OPTIONAL)]
      else if type = ttACCOUNT_MERGE then Some [(sfDestination, SOE_REQUIRED), (sfDestinationTag, SOE_OPTIONAL)]
      else if type = ttTRUST_SET then Some [
        (sfLimitAmount, SOE_OPTIONAL), (sfQualityIn, SOE_OPTIONAL), (sfQualityOut, SOE_OPTIONAL)]
      else if type = ttOFFER_CREATE then Some [
        (sfTakerPays, SOE_REQUIRED), (sfTakerGets, SOE_REQUIRED), (sfExpiration, SOE_OPTIONAL), (sfOfferSequence, SOE_OPTIONAL)]
      else if type = ttOFFER_CANCEL then Some [(sfOfferSequence, SOE_REQUIRED)]
      else if type = ttREGULAR_KEY_SET then Some [(sfRegularKey, SOE_OPTIONAL)]
      else if type = ttPAYMENT then Some [
        (sfDestination, SOE_REQUIRED), (sfAmount, SOE_REQUIRED), (sfSendMax, SOE_OPTIONAL), (sfPaths, SOE_DEFAULT),
        (sfInvoiceID, SOE_OPTIONAL), (sfDestinationTag, SOE_OPTIONAL)]
      else if type = ttINFLATION then Some [(sfInflateSeq, SOE_REQUIRED)]
      else if type = ttAMENDMENT then Some [(sfAmendment, SOE_REQUIRED)]
      else if type = ttFEE then Some [
        (sfBaseFee, SOE_REQUIRED), (sfReferenceFeeUnits, SOE_REQUIRED), (sfReserveBase, SOE_REQUIRED),
        (sfReserveIncrement, SOE_REQUIRED)]
      else None)"

text \<open>\<open>TxFormats::findByType\<close>: the common fields come first.\<close>

definition findByType :: "TxType \<Rightarrow> (sfield \<times> SOE_Flags) list option" where
  "findByType type = map_option ((@) tx_common_fields) (tx_format type)"

definition tx_elements :: "TxType \<Rightarrow> (sfield \<times> SOE_Flags) list" where
  "tx_elements type = (case findByType type of None \<Rightarrow> [] | Some els \<Rightarrow> els)"

subsection \<open>Transactions\<close>

record SerializedTransaction = STObject +
  mTxType :: TxType
  mSigGood :: bool
  mSigBad :: bool

definition txMinSizeBytes :: int where "txMinSizeBytes = 32"
definition txMaxSizeBytes :: int where "txMaxSizeBytes = 1024 * 1024"

definition mkTransaction :: "TxType \<Rightarrow> exn + SerializedTransaction" where
  "mkTransaction type = (case findByType type of
     None \<Rightarrow> Inl (RuntimeError ''invalid transaction type'')
   | Some els \<Rightarrow> Inr \<lparr>mFields = (\<lambda>f. if (f, SOE_REQUIRED) \<in> set els then Some (sf_default f) else None)
         (sfTransactionType \<mapsto> VU16 (word_of_int type)), mTxType = type, mSigGood = False, mSigBad = False\<rparr>)"

text \<open>The constructor from a parsed object.\<close>

definition tx_of_object :: "fields \<Rightarrow> exn + SerializedTransaction" where
  "tx_of_object fs = (case map_of fs sfTransactionType of
     Some (VU16 t) \<Rightarrow>
       (case findByType (uint t) of
          None \<Rightarrow> Inl (RuntimeError ''invalid transaction type'')
        | Some els \<Rightarrow>
            (case setType els fs of
               (False, _) \<Rightarrow> Inl (RuntimeError ''transaction not valid'')
             | (True, data) \<Rightarrow> Inr \<lparr>mFields = map_of data, mTxType = uint t, mSigGood = False, mSigBad = False\<rparr>))
   | _ \<Rightarrow> Inl (RuntimeError ''Field not found''))"

definition tx_construct :: "SerializerIterator \<Rightarrow> exn + SerializedTransaction \<times> SerializerIterator" where
  "tx_construct sit =
     (if getBytesLeft sit < txMinSizeBytes \<or> getBytesLeft sit > txMaxSizeBytes
      then Inl (RuntimeError ''Transaction length invalid'')
      else bindE (object_set sit) (\<lambda>((fs, _), sit). bindE (tx_of_object fs) (\<lambda>tx. Inr (tx, sit))))"

definition tx_data :: "SerializedTransaction \<Rightarrow> fields" where
  "tx_data tx = template_data (tx_elements (mTxType tx)) tx"

definition tx_add :: "bool \<Rightarrow> SerializedTransaction \<Rightarrow> Serializer \<Rightarrow> exn + Serializer" where
  "tx_add withSigningFields tx s = object_add withSigningFields (tx_data tx) s"

definition HashPrefix_transactionID :: u32 where "HashPrefix_transactionID = 0x54584E00"
definition HashPrefix_txSign :: u32 where "HashPrefix_txSign = 0x53545800"

definition getTransactionID :: "(Blob \<Rightarrow> uint256) \<Rightarrow> SerializedTransaction \<Rightarrow> exn + uint256" where
  "getTransactionID h tx =
     bindE (tx_add True tx (snd (add32 HashPrefix_transactionID \<lparr>mData = []\<rparr>))) (\<lambda>s. Inr (h (mData s)))"

definition getSigningHash :: "(Blob \<Rightarrow> uint256) \<Rightarrow> SerializedTransaction \<Rightarrow> exn + uint256" where
  "getSigningHash h tx =
     bindE (tx_add False tx (snd (add32 HashPrefix_txSign \<lparr>mData = []\<rparr>))) (\<lambda>s. Inr (h (mData s)))"

definition getTransactionFee :: "SerializedTransaction \<Rightarrow> STAmount" where
  "getTransactionFee tx = getFieldAmount tx sfFee"

definition getSourceAccount :: "SerializedTransaction \<Rightarrow> uint160 option" where
  "getSourceAccount tx = getFieldAccount tx sfAccount"

definition getSigningPubKey :: "SerializedTransaction \<Rightarrow> Blob" where
  "getSigningPubKey tx = getFieldVL tx sfSigningPubKey"

definition getSequence :: "SerializedTransaction \<Rightarrow> u32" where
  "getSequence tx = getFieldU32 tx sfSequence"

definition setSignature :: "Blob \<Rightarrow> SerializedTransaction \<Rightarrow> SerializedTransaction" where
  "setSignature s tx = setFieldVL sfTxnSignature s tx"

text \<open>\<open>RippleAddress::getAccountID\<close> of an account address, which may be unset.\<close>

definition getAccountID :: "uint160 option \<Rightarrow> exn + uint160" where
  "getAccountID a = (case a of None \<Rightarrow> Inl (RuntimeError ''unset source - getAccountID'') | Some v \<Rightarrow> Inr v)"

text \<open>\<open>verify\<close> is \<open>crypto_sign_verify_detached\<close> of libsodium: signature, message and public key.\<close>

definition verifySignature :: "(Blob \<Rightarrow> Blob \<Rightarrow> Blob \<Rightarrow> bool) \<Rightarrow> Blob \<Rightarrow> uint256 \<Rightarrow> Blob \<Rightarrow> exn + bool" where
  "verifySignature verify vchData hash vchSig =
     (if length vchData \<noteq> 32 \<or> length vchSig \<noteq> 64 then Inl (RuntimeError ''bad inputs to verifySignature'')
      else Inr (verify vchSig (be_bytes 32 hash) vchData \<and> signatureIsCanonical vchSig))"

definition checkSign_with :: "(Blob \<Rightarrow> uint256) \<Rightarrow> (Blob \<Rightarrow> Blob \<Rightarrow> Blob \<Rightarrow> bool) \<Rightarrow> Blob \<Rightarrow> SerializedTransaction \<Rightarrow> bool" where
  "checkSign_with h verify naAccountPublic tx =
     (case bindE (getSigningHash h tx) (\<lambda>hash. verifySignature verify naAccountPublic hash (getFieldVL tx sfTxnSignature)) of
        Inl _ \<Rightarrow> False | Inr b \<Rightarrow> b)"

definition checkSign :: "(Blob \<Rightarrow> uint256) \<Rightarrow> (Blob \<Rightarrow> Blob \<Rightarrow> Blob \<Rightarrow> bool) \<Rightarrow> SerializedTransaction \<Rightarrow>
    bool \<times> SerializedTransaction" where
  "checkSign h verify tx =
     (if mSigGood tx then (True, tx)
      else if mSigBad tx then (False, tx)
      else if checkSign_with h verify (getFieldVL tx sfSigningPubKey) tx then (True, tx\<lparr>mSigGood := True\<rparr>)
      else (False, tx\<lparr>mSigBad := True\<rparr>))"

fun mentioned :: "sfield \<times> st_value \<Rightarrow> uint160 option list \<Rightarrow> uint160 option list" where
  "mentioned (f, VAccount sa) accounts = addIfUnique (if length sa = 20 then Some (be_word sa) else None) accounts"
| "mentioned (f, VAmount sam) accounts =
     (if mIssuer sam \<noteq> 0 then addIfUnique (Some (mIssuer sam)) accounts else accounts)"
| "mentioned (f, _) accounts = accounts"

definition getMentionedAccounts :: "SerializedTransaction \<Rightarrow> uint160 option list" where
  "getMentionedAccounts tx = fold mentioned (tx_data tx) []"

definition isMemoOkay :: "SerializedTransaction \<Rightarrow> exn + bool" where
  "isMemoOkay st = (case mFields st sfMemos of
     Some (VArray memos) \<Rightarrow> bindE (add_objects memos \<lparr>mData = []\<rparr>) (\<lambda>s. Inr (length (mData s) \<le> 1024))
   | _ \<Rightarrow> Inr True)"

definition isAccountFieldOkay :: "SerializedTransaction \<Rightarrow> bool" where
  "isAccountFieldOkay st \<longleftrightarrow> (\<forall>p \<in> set (tx_data st). case snd p of VAccount v \<Rightarrow> length v = 20 | _ \<Rightarrow> True)"

definition passesLocalChecks :: "SerializedTransaction \<Rightarrow> exn + bool" where
  "passesLocalChecks st = bindE (isMemoOkay st) (\<lambda>memo. Inr (memo \<and> isAccountFieldOkay st))"

subsection \<open>Ledger entries on the wire\<close>

definition entry_types :: "LedgerEntryType list" where
  "entry_types = [ltACCOUNT_ROOT, ltCONTRACT, ltDIR_NODE, ltGENERATOR_MAP, ltNICKNAME, ltOFFER, ltRIPPLE_STATE,
     ltLEDGER_HASHES, ltAMENDMENTS, ltFEE_SETTINGS]"

definition sle_add :: "SLE \<Rightarrow> Serializer \<Rightarrow> exn + Serializer" where
  "sle_add sle s = object_add True (template_data (elements (mType sle)) sle) s"

definition sle_construct :: "uint256 \<Rightarrow> SerializerIterator \<Rightarrow> exn + SLE" where
  "sle_construct index sit =
     bindE (object_set sit) (\<lambda>((fs, _), sit).
     case map_of fs sfLedgerEntryType of
       Some (VU16 t) \<Rightarrow>
         (case filter (\<lambda>lt. lt_code lt = t) entry_types of
            [] \<Rightarrow> Inl (RuntimeError ''invalid ledger entry type'')
          | lt # _ \<Rightarrow>
              (case setType (elements lt) fs of
                 (False, _) \<Rightarrow> Inl (RuntimeError ''ledger entry not valid for type'')
               | (True, data) \<Rightarrow> Inr \<lparr>mFields = map_of data, mType = lt, mIndex = index\<rparr>))
     | _ \<Rightarrow> Inl (RuntimeError ''Field not found''))"

lemma elements_distinct: "distinct (map fst (elements lt))"
  by (cases lt) (auto simp: elements_def)

lemma tx_elements_distinct: "distinct (map fst (tx_elements t))"
  by (simp add: tx_elements_def findByType_def tx_format_def tx_common_fields_def)

lemma lt_of_code: "lt \<noteq> ltINVALID \<Longrightarrow> filter (\<lambda>l. lt_code l = lt_code lt) entry_types = [lt]"
  by (cases lt) (auto simp: entry_types_def)

lemma template_object:
  assumes "distinct (map fst T)" "wire_object T obj"
  shows "map_of (template_data T obj) = mFields obj"
  using assms by (auto simp: fun_eq_iff map_of_template_data wire_object_def)



lemma sort_fields_unsigned:
  assumes "filter (\<lambda>p. fst p \<noteq> sfTxnSignature) fs = filter (\<lambda>p. fst p \<noteq> sfTxnSignature) gs"
  shows "sort_fields False fs = sort_fields False gs"
proof -
  have e: "filter (\<lambda>p. shouldInclude False (fst p)) xs = filter (\<lambda>p. shouldInclude False (fst p)) (filter (\<lambda>p. fst p \<noteq> sfTxnSignature) xs)" for xs :: fields
    by (auto simp: shouldInclude_def signingField_def intro!: filter_cong)
  show ?thesis using e [of fs] e [of gs] assms by (simp only: sort_fields_def)
qed

lemma template_data_skip:
  "(\<And>f. f \<noteq> g \<Longrightarrow> mFields a f = mFields b f) \<Longrightarrow>
   filter (\<lambda>p. fst p \<noteq> g) (template_data T a) = filter (\<lambda>p. fst p \<noteq> g) (template_data T b)"
  by (induction T) (auto simp: template_data_def[of "[]"] template_data_Cons split: option.split)

text \<open>C30. What is signed does not depend on the signature: replacing the signature of a transaction does
  not change the hash that is signed.\<close>

theorem signing_hash_ignores_signature:
  "getSigningHash h (setSignature sig tx) = getSigningHash h tx"
proof -
  have "sort_fields False (tx_data (setSignature sig tx)) = sort_fields False (tx_data tx)"
    by (rule sort_fields_unsigned, simp only: tx_data_def)
      (auto simp: setSignature_def setFieldVL_def intro!: template_data_skip)
  then show ?thesis by (simp add: getSigningHash_def tx_add_def object_add_def)
qed


definition sample_tx :: SerializedTransaction where
  "sample_tx = \<lparr>mFields = [sfTransactionType \<mapsto> VU16 1, sfAccount \<mapsto> VAccount (be_bytes 20 (2 :: uint160)), sfSequence \<mapsto> VU32 7,
     sfFee \<mapsto> VAmount (mkNative 10 False), sfSigningPubKey \<mapsto> VBlob [], sfInflateSeq \<mapsto> VU32 3],
     mTxType = 1, mSigGood = True, mSigBad = False\<rparr>"

lemma sample_tx_data: "sort_fields True (tx_data sample_tx) = [(sfTransactionType, VU16 1), (sfSequence, VU32 7), (sfInflateSeq, VU32 3),
    (sfFee, VAmount (mkNative 10 False)), (sfSigningPubKey, VBlob []), (sfAccount, VAccount (be_bytes 20 (2 :: uint160)))]"
  by code_simp

lemma sample_tx_wire: "wire_object (tx_elements (mTxType sample_tx)) sample_tx"
  by (auto simp: wire_object_def sample_tx_def template_ok_def tx_elements_def findByType_def tx_format_def tx_types tx_common_fields_def
      wire_field_def wire_ok_def mkNative_def amount_consts canonical_def proper_def split: if_splits)

lemma sample_tx_length:
  assumes "tx_add True sample_tx \<lparr>mData = []\<rparr> = Inr s'"
  shows "32 \<le> length (mData s') \<and> length (mData s') \<le> 1048576"
proof -
  have "s' = \<lparr>mData = fields_image (sort_fields True (tx_data sample_tx))\<rparr>"
    using assms add_value_image(2) [of "sort_fields True (tx_data sample_tx)" "\<lparr>mData = []\<rparr>"]
    by (simp add: tx_add_def object_add_def sample_tx_data wire_ok_def mkNative_def amount_consts canonical_def proper_def
        del: add_value.simps add_sorted.simps value_image.simps)
  then show ?thesis
    by (simp add: sample_tx_data id_image_def field_image_def amount_image_def amount_put_def mkNative_def vl_image_def encodeVL_def add64_def addFieldID_def byte_def add8_def)
qed



end
