(* ===== verification/Transactor_Base.thy ===== *)
theory Transactor_Base
  imports Credit Transaction
begin

text \<open>
  The base class of the transactors, \<open>src/ripple_app/transactors/Transactor.cpp\<close>: the checks every
  transaction passes before its own effect (signature, source account, sequence number, fee), in the
  order of \<open>Transactor::apply\<close>.
\<close>

section \<open>The state of a transactor\<close>

text \<open>
  What a transactor reads besides its transaction and the ledger. \<open>sha512Half\<close>, \<open>hash160\<close> and
  \<open>signVerify\<close> are the hash functions and the signature scheme; \<open>config\<close> and \<open>feeTrack\<close> are the
  process-wide configuration and load; \<open>replaySeq\<close> is the global \<open>gLedgerSeq\<close> the historical quirks
  look at; \<open>inflationVotes\<close> is the answer of the database to the query for the accounts with most
  votes; \<open>amendmentSupported\<close> is the amendment table's answer; \<open>rippleCalc\<close> is the path payment
  engine, given the maximum to spend, the amount to deliver, the two accounts, the paths and its three
  switches, and returning its code, the amount delivered and the new view.
\<close>

record Env =
  sha512Half :: "Blob \<Rightarrow> uint256"
  hash160 :: "Blob \<Rightarrow> uint160"
  signVerify :: "Blob \<Rightarrow> Blob \<Rightarrow> Blob \<Rightarrow> bool"
  config :: Config
  feeTrack :: LoadFeeTrack
  replaySeq :: nat
  inflationVotes :: "(uint160 \<times> int) list"
  amendmentSupported :: "uint256 \<Rightarrow> bool"
  rippleCalc :: "STAmount \<Rightarrow> STAmount \<Rightarrow> uint160 \<Rightarrow> uint160 \<Rightarrow> STPathElement list list \<Rightarrow>
    bool \<Rightarrow> bool \<Rightarrow> bool \<Rightarrow> bool \<Rightarrow> LedgerEntrySet \<Rightarrow> exn + (TER \<times> STAmount) \<times> LedgerEntrySet"

text \<open>What a transactor tells the rest of the process: an amendment is enabled, or the server is blocked.\<close>

datatype app_event = AmendmentEnabled uint256 | AmendmentBlocked

text \<open>
  The members of a transactor. \<open>mEngineClosing\<close> is \<open>mEngine->mClosingLedger\<close>. \<open>mTxnAccount\<close> is the
  pointer to the source account's entry: it is dereferenced through the entry set, so that what one
  method writes to the entry the next one reads. \<open>mSigningPubKey\<close> is absent until \<open>preCheck\<close> sets it.
\<close>

record Transactor =
  mTxn :: SerializedTransaction
  mTxnParams :: u32
  mEngineClosing :: bool
  mTxnAccountID :: uint160
  mFeeDue :: STAmount
  mPriorBalance :: STAmount
  mSourceBalance :: STAmount
  mTxnAccount :: "SLE option"
  mHasAuthKey :: bool
  mSigMaster :: bool
  mSigningPubKey :: "Blob option"
  mAppEvents :: "app_event list"

definition newTransactor :: "SerializedTransaction \<Rightarrow> u32 \<Rightarrow> bool \<Rightarrow> Transactor" where
  "newTransactor txn params closing =
     \<lparr> mTxn = txn, mTxnParams = params, mEngineClosing = closing, mTxnAccountID = 0, mFeeDue = mkNative 0 False,
       mPriorBalance = mkNative 0 False, mSourceBalance = mkNative 0 False, mTxnAccount = None,
       mHasAuthKey = False, mSigMaster = False, mSigningPubKey = None, mAppEvents = [] \<rparr>"

type_synonym tx_state = "Transactor \<times> LedgerEntrySet"
type_synonym tx_method = "Env \<Rightarrow> tx_state \<Rightarrow> exn + TER \<times> tx_state"

text \<open>The virtual methods of a transactor class.\<close>

record transactor_class =
  vPreCheck :: "Env \<Rightarrow> Transactor \<Rightarrow> exn + TER \<times> Transactor"
  vMustHaveValidAccount :: bool
  vCalculateBaseFee :: "Env \<Rightarrow> tx_state \<Rightarrow> exn + u64"
  vCheckSeq :: tx_method
  vPayFee :: tx_method
  vCheckSig :: tx_method
  vPrecheckAgainstLedger :: tx_method
  vDoApply :: tx_method

text \<open>Reading and writing through \<open>mTxnAccount\<close>; a null pointer is an error.\<close>

definition txn_account :: "tx_state \<Rightarrow> exn + SLE" where
  "txn_account st = (case mTxnAccount (fst st) of None \<Rightarrow> Inl NullPointer | Some a \<Rightarrow> Inr (deref a (snd st)))"

definition upd_account :: "(SLE \<Rightarrow> SLE) \<Rightarrow> tx_state \<Rightarrow> exn + tx_state" where
  "upd_account f st = bindE (txn_account st) (\<lambda>a. Inr (fst st, poke (f a) (snd st)))"

definition signing_account :: "Env \<Rightarrow> Transactor \<Rightarrow> exn + uint160" where
  "signing_account env tr = getAccountID (map_option (hash160 env) (mSigningPubKey tr))"

section \<open>The methods of the base class\<close>

definition calculateBaseFee :: "Env \<Rightarrow> tx_state \<Rightarrow> exn + u64" where
  "calculateBaseFee env st = Inr (FEE_DEFAULT (config env))"

text \<open>\<open>scaleFeeLoad\<close> reads the fee schedule into the ledger on its first use.\<close>

definition fees_read :: "Env \<Rightarrow> Ledger \<Rightarrow> Ledger" where
  "fees_read env l = (if mBaseFee l = 0 then updateFees (sha512Half env) (config env) l else l)"

definition calculateFee :: "transactor_class \<Rightarrow> Env \<Rightarrow> tx_state \<Rightarrow> exn + tx_state" where
  "calculateFee cls env st = bindE (vCalculateBaseFee cls env st) (\<lambda>base.
     Inr ((fst st)\<lparr>mFeeDue := mkNative (ledgerScaleFeeLoad (sha512Half env) (config env) (feeTrack env) (mLedger (snd st)) base
       (is_bit_set (mTxnParams (fst st)) tapADMIN)) False\<rparr>, (snd st)\<lparr>mLedger := fees_read env (mLedger (snd st))\<rparr>))"

definition payFee :: tx_method where
  "payFee env st = (let tr = fst st; saPaid = getTransactionFee (mTxn tr) in
     if \<not> isLegalNet saPaid then Inr (temBAD_AMOUNT, st)
     else bindE (if is_bit_set (mTxnParams tr) tapOPEN_LEDGER then amount_less saPaid (mFeeDue tr) else Inr False) (\<lambda>insufficient.
       if insufficient then Inr (telINSUF_FEE_P, st)
       else if signum saPaid < 0 \<or> \<not> mIsNative saPaid then Inr (temBAD_FEE, st)
       else if isZero saPaid then Inr (tesSUCCESS, st)
       else bindE (amount_less (mSourceBalance tr) saPaid) (\<lambda>below.
         if below then Inr (terINSUF_FEE_B, st)
         else bindE (amount_sub (mSourceBalance tr) saPaid) (\<lambda>left.
           bindE (upd_account (setFieldAmount sfBalance left) (tr\<lparr>mSourceBalance := left\<rparr>, snd st)) (\<lambda>st.
             Inr (tesSUCCESS, st))))))"

definition checkSig :: tx_method where
  "checkSig env st = (let tr = fst st in
     bindE (signing_account env tr) (\<lambda>signer.
       if signer = mTxnAccountID tr then
         bindE (txn_account st) (\<lambda>a.
           Inr (if isFlag a lsfDisableMaster then tefMASTER_DISABLED else tesSUCCESS, (tr\<lparr>mSigMaster := True\<rparr>, snd st)))
       else if mHasAuthKey tr then
         bindE (txn_account st) (\<lambda>a.
           Inr (if signer = getFieldAccount160 a sfRegularKey then tesSUCCESS else tefBAD_AUTH, st))
       else Inr (temBAD_AUTH_MASTER, st)))"

text \<open>
  The sequence number an account has reached in an open ledger: the highest number of its transactions
  there. The counter is 32 bits wide, so the increment after the walk wraps.
\<close>

fun max_tx_seq :: "uint160 \<Rightarrow> (uint256 \<times> Blob) list \<Rightarrow> u32 \<Rightarrow> exn + u32" where
  "max_tx_seq account [] best = Inr best" |
  "max_tx_seq account (item # items) best =
     bindE (tx_construct (it_begin \<lparr>mData = snd item\<rparr>)) (\<lambda>(tx, it).
     bindE (getAccountID (getSourceAccount tx)) (\<lambda>source.
       max_tx_seq account items (if account = source \<and> getSequence tx > best then getSequence tx else best)))"

definition expected_seq :: "tx_state \<Rightarrow> u32 \<Rightarrow> exn + u32" where
  "expected_seq st a_seq =
     (if mEngineClosing (fst st) then Inr a_seq
      else bindE (max_tx_seq (mTxnAccountID (fst st)) (mTransactionMap (mLedger (snd st))) 0) (\<lambda>max_tx.
        Inr (if max_tx + 1 > a_seq then max_tx + 1 else a_seq)))"

definition checkSeq :: tx_method where
  "checkSeq env st = (let tr = fst st; les = snd st; txn = mTxn tr; t_seq = getSequence txn in
     bindE (txn_account st) (\<lambda>a.
     bindE (expected_seq st (getFieldU32 a sfSequence)) (\<lambda>a_seq.
       if t_seq \<noteq> a_seq then
         if a_seq < t_seq then Inr (terPRE_SEQ, st)
         else bindE (getTransactionID (sha512Half env) txn) (\<lambda>txID.
           Inr (if hasTransaction (mLedger les) txID then tefALREADY else tefPAST_SEQ, st))
       else if isFieldPresent txn sfPreviousTxnID \<and> getFieldH256 a sfPreviousTxnID \<noteq> getFieldH256 txn sfPreviousTxnID
       then Inr (tefWRONG_PRIOR, st)
       else if isFieldPresent txn sfAccountTxnID \<and> getFieldH256 a sfAccountTxnID \<noteq> getFieldH256 txn sfAccountTxnID
       then Inr (tefWRONG_PRIOR, st)
       else if isFieldPresent txn sfLastLedgerSequence \<and> mLedgerSeq (mLedger les) > getFieldU32 txn sfLastLedgerSequence
       then Inr (tefMAX_LEDGER, st)
       else bindE (upd_account (setFieldU32 sfSequence (t_seq + 1)) st) (\<lambda>st.
         bindE (if isFieldPresent a sfAccountTxnID
                then bindE (getTransactionID (sha512Half env) txn) (\<lambda>txID. upd_account (setFieldH256 sfAccountTxnID txID) st)
                else Inr st) (\<lambda>st. Inr (tesSUCCESS, st))))))"

definition preCheck :: "Env \<Rightarrow> Transactor \<Rightarrow> exn + TER \<times> Transactor" where
  "preCheck env tr =
     bindE (getAccountID (getSourceAccount (mTxn tr))) (\<lambda>account.
       let tr = tr\<lparr>mTxnAccountID := account\<rparr> in
       if account = 0 then Inr (temBAD_SRC_ACCOUNT, tr)
       else let tr = tr\<lparr>mSigningPubKey := Some (getSigningPubKey (mTxn tr))\<rparr> in
         if mSigGood (mTxn tr) then Inr (tesSUCCESS, tr)
         else if mSigBad (mTxn tr) \<or> \<not> is_bit_set (mTxnParams tr) tapNO_CHECK_SIGN \<and>
           \<not> checkSign_with (sha512Half env) (signVerify env) (getSigningPubKey (mTxn tr)) (mTxn tr)
         then Inr (temINVALID, tr\<lparr>mTxn := (mTxn tr)\<lparr>mSigBad := True\<rparr>\<rparr>)
         else Inr (tesSUCCESS, tr\<lparr>mTxn := (mTxn tr)\<lparr>mSigGood := True\<rparr>\<rparr>))"

definition precheckAgainstLedger :: tx_method where
  "precheckAgainstLedger env st = Inr (tesSUCCESS, st)"

text \<open>One check of \<open>apply\<close>: a code other than success ends it.\<close>

definition check :: "exn + TER \<times> tx_state \<Rightarrow> (tx_state \<Rightarrow> exn + TER \<times> tx_state) \<Rightarrow> exn + TER \<times> tx_state" where
  "check r f = bindE r (\<lambda>(terResult, st). if terResult \<noteq> tesSUCCESS then Inr (terResult, st) else f st)"

definition load_account :: "tx_state \<Rightarrow> tx_state" where
  "load_account st = (case mTxnAccount (fst st) of None \<Rightarrow> st | Some a \<Rightarrow>
     let balance = getFieldAmount (deref a (snd st)) sfBalance in
     ((fst st)\<lparr>mPriorBalance := balance, mSourceBalance := balance,
       mHasAuthKey := isFieldPresent (deref a (snd st)) sfRegularKey\<rparr>, snd st))"

definition apply_checks :: "transactor_class \<Rightarrow> Env \<Rightarrow> tx_state \<Rightarrow> exn + TER \<times> tx_state" where
  "apply_checks cls env st =
     check (vCheckSeq cls env st) (\<lambda>st.
     check (vPayFee cls env st) (\<lambda>st.
     check (vCheckSig cls env st) (\<lambda>st.
     vPrecheckAgainstLedger cls env st)))"

definition apply_effect :: "transactor_class \<Rightarrow> Env \<Rightarrow> tx_state \<Rightarrow> exn + TER \<times> tx_state" where
  "apply_effect cls env st =
     (if \<not> mEngineClosing (fst st) then Inr (tesSUCCESS, st)
      else bindE (case mTxnAccount (fst st) of None \<Rightarrow> Inr st
                  | Some a \<Rightarrow> bindE (entryModify (deref a (snd st)) (snd st)) (\<lambda>les. Inr (fst st, les))) (\<lambda>st.
        vDoApply cls env st))"

definition apply_tx :: "transactor_class \<Rightarrow> Env \<Rightarrow> tx_state \<Rightarrow> exn + TER \<times> tx_state" where
  "apply_tx cls env st =
     bindE (vPreCheck cls env (fst st)) (\<lambda>(terResult, tr).
     if terResult \<noteq> tesSUCCESS then Inr (terResult, (tr, snd st))
     else bindE (entryCache ltACCOUNT_ROOT (getAccountRootIndex (sha512Half env) (mTxnAccountID tr)) (snd st)) (\<lambda>(sle, les).
       bindE (calculateFee cls env (tr\<lparr>mTxnAccount := sle\<rparr>, les)) (\<lambda>st.
         if mTxnAccount (fst st) = None \<and> vMustHaveValidAccount cls then Inr (terNO_ACCOUNT, st)
         else check (apply_checks cls env (load_account st)) (\<lambda>st. apply_effect cls env st))))"

end
