(* ===== verification/Transactors.thy ===== *)
theory Transactors
  imports Transactor_Base
begin

text \<open>
  The transactors of \<open>src/ripple_app/transactors\<close>: one group of definitions per file, and the table
  of virtual methods of each class.
\<close>

definition tefBAD_ADD_AUTH :: TER where [ter_codes]: "tefBAD_ADD_AUTH = -197"
definition tecUNFUNDED_ADD :: TER where [ter_codes]: "tecUNFUNDED_ADD = 102"
definition CURRENCY_BAD :: uint160 where "CURRENCY_BAD = 0x5354520000000000"

definition amount_plus_u64 :: "STAmount \<Rightarrow> u64 \<Rightarrow> exn + STAmount" where
  "amount_plus_u64 a v = bindE (getSNValue a) (\<lambda>n. Inr (mkNativeS (s64 (n + sint v))))"

definition setFlag :: "u32 \<Rightarrow> SLE \<Rightarrow> SLE" where
  "setFlag f sle = setFieldU32 sfFlags (getFlags sle OR f) sle"

definition clearFlag :: "u32 \<Rightarrow> SLE \<Rightarrow> SLE" where
  "clearFlag f sle = (if isFieldPresent sle sfFlags then setFieldU32 sfFlags (getFlags sle AND NOT f) sle else sle)"

definition hasAccount :: "(Blob \<Rightarrow> uint256) \<Rightarrow> Ledger \<Rightarrow> uint160 \<Rightarrow> bool" where
  "hasAccount h l accountID \<longleftrightarrow> map_of (mAccountStateMap l) (getAccountRootIndex h accountID) \<noteq> None"

abbreviation quirk :: "Env \<Rightarrow> HistoricalQuirk \<Rightarrow> bool" where
  "quirk env q \<equiv> enactHistoricalQuirk (replaySeq env) q"

definition base_class :: "tx_method \<Rightarrow> transactor_class" where
  "base_class do_apply =
     \<lparr> vPreCheck = preCheck, vMustHaveValidAccount = True, vCalculateBaseFee = calculateBaseFee,
       vCheckSeq = checkSeq, vPayFee = payFee, vCheckSig = checkSig,
       vPrecheckAgainstLedger = precheckAgainstLedger, vDoApply = do_apply \<rparr>"

section \<open>AccountSet\<close>

text \<open>The flags of the account after the transaction, or the code that rejects it.\<close>

definition set_clear :: "bool \<Rightarrow> bool \<Rightarrow> u32 \<Rightarrow> u32 \<Rightarrow> u32 \<Rightarrow> u32" where
  "set_clear bSet bClear flag uFlagsIn uFlagsOut =
     (let uFlagsOut = (if bSet \<and> \<not> is_bit_set uFlagsIn flag then uFlagsOut OR flag else uFlagsOut)
      in if bClear \<and> is_bit_set uFlagsIn flag then uFlagsOut AND NOT flag else uFlagsOut)"

definition disable_master :: "Env \<Rightarrow> u32 \<Rightarrow> u32 \<Rightarrow> SLE \<Rightarrow> u32 \<Rightarrow> u32 \<Rightarrow> TER + u32" where
  "disable_master env uSetFlag uClearFlag acct uFlagsIn uFlagsOut =
     (if quirk env QuirkUseLsfDisableMaster then
        if uSetFlag = asfDisableMaster \<and> uClearFlag = asfDisableMaster then Inl temINVALID_FLAG
        else if uSetFlag = asfDisableMaster \<and> \<not> is_bit_set uFlagsIn lsfDisableMaster \<and> \<not> isFieldPresent acct sfRegularKey
        then Inl tecNO_REGULAR_KEY
        else Inr (set_clear (uSetFlag = asfDisableMaster) (uClearFlag = asfDisableMaster) lsfDisableMaster uFlagsIn uFlagsOut)
      else Inr uFlagsOut)"

text \<open>The optional fields, set one after the other in the source account's entry.\<close>

definition set_inflation_dest :: "Env \<Rightarrow> tx_state \<Rightarrow> exn + TER \<times> tx_state" where
  "set_inflation_dest env st = (let txn = mTxn (fst st) in
     if isFieldPresent txn sfInflationDest then
       (case getFieldAccount txn sfInflationDest of
          None \<Rightarrow> bindE (upd_account (makeFieldAbsent sfInflationDest) st) (\<lambda>st. Inr (tesSUCCESS, st))
        | Some dest \<Rightarrow>
            if \<not> hasAccount (sha512Half env) (mLedger (snd st)) dest then Inr (temDST_NEEDED, st)
            else bindE (upd_account (setFieldAccount sfInflationDest dest) st) (\<lambda>st. Inr (tesSUCCESS, st)))
     else Inr (tesSUCCESS, st))"

definition set_auth_key :: "tx_state \<Rightarrow> exn + TER \<times> tx_state" where
  "set_auth_key st = (let txn = mTxn (fst st) in
     if isFieldPresent txn sfSetAuthKey then
       bindE (upd_account (case getFieldAccount txn sfSetAuthKey of
                             None \<Rightarrow> makeFieldAbsent sfSetAuthKey | Some key \<Rightarrow> setFieldAccount sfSetAuthKey key) st)
         (\<lambda>st. Inr (tesSUCCESS, st))
     else Inr (tesSUCCESS, st))"

definition set_transfer_rate :: "tx_state \<Rightarrow> exn + TER \<times> tx_state" where
  "set_transfer_rate st = (let txn = mTxn (fst st); uRate = getFieldU32 txn sfTransferRate in
     if isFieldPresent txn sfTransferRate then
       if uRate = 0 \<or> uRate = QUALITY_ONE
       then bindE (upd_account (makeFieldAbsent sfTransferRate) st) (\<lambda>st. Inr (tesSUCCESS, st))
       else if uRate > QUALITY_ONE
       then bindE (upd_account (setFieldU32 sfTransferRate uRate) st) (\<lambda>st. Inr (tesSUCCESS, st))
       else Inr (temBAD_TRANSFER_RATE, st)
     else Inr (tesSUCCESS, st))"

definition sets_flag :: "SerializedTransaction \<Rightarrow> u32 \<Rightarrow> u32 \<Rightarrow> bool" where
  "sets_flag txn tf asf \<longleftrightarrow> is_bit_set (getFlags txn) tf \<or> getFieldU32 txn sfSetFlag = asf"

definition clears_flag :: "SerializedTransaction \<Rightarrow> u32 \<Rightarrow> u32 \<Rightarrow> bool" where
  "clears_flag txn tf asf \<longleftrightarrow> is_bit_set (getFlags txn) tf \<or> getFieldU32 txn sfClearFlag = asf"

text \<open>The flags once the owner directory is known to allow them.\<close>

definition account_flags :: "Env \<Rightarrow> SerializedTransaction \<Rightarrow> SLE \<Rightarrow> TER + u32" where
  "account_flags env txn acct = (let uFlagsIn = getFieldU32 acct sfFlags;
       bSetRequireDest = sets_flag txn tfRequireDestTag asfRequireDest; bClearRequireDest = clears_flag txn tfOptionalDestTag asfRequireDest;
       uFlagsOut = set_clear (sets_flag txn tfRequireAuth asfRequireAuth) (clears_flag txn tfOptionalAuth asfRequireAuth)
         lsfRequireAuth uFlagsIn uFlagsIn in
     if bSetRequireDest \<and> bClearRequireDest then Inl temINVALID_FLAG
     else disable_master env (getFieldU32 txn sfSetFlag) (getFieldU32 txn sfClearFlag) acct uFlagsIn
       (set_clear bSetRequireDest bClearRequireDest lsfRequireDestTag uFlagsIn uFlagsOut))"

definition set_account_fields :: "Env \<Rightarrow> u32 \<Rightarrow> u32 \<Rightarrow> tx_state \<Rightarrow> exn + TER \<times> tx_state" where
  "set_account_fields env uFlagsIn uFlagsOut st =
     check (set_inflation_dest env st) (\<lambda>st.
     check (set_auth_key st) (\<lambda>st.
     check (set_transfer_rate st) (\<lambda>st.
       bindE (if uFlagsIn \<noteq> uFlagsOut then upd_account (setFieldU32 sfFlags uFlagsOut) st else Inr st) (\<lambda>st.
         Inr (tesSUCCESS, st)))))"

definition AccountSet_doApply :: tx_method where
  "AccountSet_doApply env st = (let txn = mTxn (fst st);
       bSetRequireAuth = sets_flag txn tfRequireAuth asfRequireAuth; bClearRequireAuth = clears_flag txn tfOptionalAuth asfRequireAuth in
     bindE (txn_account st) (\<lambda>acct.
       if is_bit_set (getFlags txn) tfAccountSetMask then Inr (temINVALID_FLAG, st)
       else if bSetRequireAuth \<and> bClearRequireAuth then Inr (temINVALID_FLAG, st)
       else bindE (if bSetRequireAuth \<and> \<not> is_bit_set (getFieldU32 acct sfFlags) lsfRequireAuth
                   then dirIsEmpty (sha512Half env) (getOwnerDirIndex (sha512Half env) (mTxnAccountID (fst st))) (snd st)
                   else Inr (True, snd st)) (\<lambda>(ok, les).
         if \<not> ok then Inr (if is_bit_set (mTxnParams (fst st)) tapRETRY then terOWNERS else tecOWNERS, (fst st, les))
         else (case account_flags env txn acct of
                 Inl ter \<Rightarrow> Inr (ter, (fst st, les))
               | Inr uFlagsOut \<Rightarrow> set_account_fields env (getFieldU32 acct sfFlags) uFlagsOut (fst st, les)))))"

section \<open>RegularKeySet\<close>

definition RegularKeySet_calculateBaseFee :: "Env \<Rightarrow> tx_state \<Rightarrow> exn + u64" where
  "RegularKeySet_calculateBaseFee env st =
     (if quirk env QuirkUseLsfPasswordSpent then
        (case mTxnAccount (fst st) of
           None \<Rightarrow> calculateBaseFee env st
         | Some a \<Rightarrow>
             if \<not> is_bit_set (getFlags (deref a (snd st))) lsfPasswordSpent
             then bindE (signing_account env (fst st)) (\<lambda>signer.
               if signer = mTxnAccountID (fst st) then Inr 0 else calculateBaseFee env st)
             else calculateBaseFee env st)
      else calculateBaseFee env st)"

definition RegularKeySet_doApply :: tx_method where
  "RegularKeySet_doApply env st = (let txn = mTxn (fst st) in
     if is_bit_set (getFlags txn) tfUniversalMask then Inr (temINVALID_FLAG, st)
     else bindE (if quirk env QuirkUseLsfPasswordSpent \<and> signum (mFeeDue (fst st)) = 0
                 then upd_account (setFlag lsfPasswordSpent) st else Inr st) (\<lambda>st.
       if isFieldPresent txn sfRegularKey
       then bindE (upd_account (setFieldAccount sfRegularKey (getFieldAccount160 txn sfRegularKey)) st) (\<lambda>st. Inr (tesSUCCESS, st))
       else bindE (txn_account st) (\<lambda>acct.
         if isFlag acct lsfDisableMaster then Inr (tecMASTER_DISABLED, st)
         else bindE (upd_account (makeFieldAbsent sfRegularKey) st) (\<lambda>st. Inr (tesSUCCESS, st)))))"

section \<open>OfferCancel\<close>

text \<open>An operation on the entry set, as a step of a transactor.\<close>

definition on_les :: "(LedgerEntrySet \<Rightarrow> exn + 'a \<times> LedgerEntrySet) \<Rightarrow> tx_state \<Rightarrow> exn + 'a \<times> tx_state" where
  "on_les f st = bindE (f (snd st)) (\<lambda>(x, les). Inr (x, (fst st, les)))"

definition OfferCancel_doApply :: tx_method where
  "OfferCancel_doApply env st = (let txn = mTxn (fst st); uOfferSequence = getFieldU32 txn sfOfferSequence in
     bindE (txn_account st) (\<lambda>acct. let uAccountSequenceNext = getFieldU32 acct sfSequence in
       if is_bit_set (getFlags txn) tfUniversalMask then Inr (temINVALID_FLAG, st)
       else if uOfferSequence = 0 \<or> uAccountSequenceNext - 1 \<le> uOfferSequence then Inr (temBAD_SEQUENCE, st)
       else bindE (on_les (entryCache ltOFFER (getOfferIndex (sha512Half env) (mTxnAccountID (fst st)) uOfferSequence)) st) (\<lambda>(sleOffer, st).
         case sleOffer of
           Some sle \<Rightarrow> on_les (offerDelete_sle (sha512Half env) sle) st
         | None \<Rightarrow> Inr (tesSUCCESS, st))))"

section \<open>WalletAdd\<close>

definition WalletAdd_doApply :: tx_method where
  "WalletAdd_doApply env st = (let txn = mTxn (fst st); h = sha512Half env in
     if is_bit_set (getFlags txn) tfUniversalMask then Inr (temINVALID_FLAG, st)
     else let vucPubKey = getFieldVL txn sfPublicKey; vucSignature = getFieldVL txn sfSignature;
              uAuthKeyID = getFieldAccount160 txn sfRegularKey; uDstAccountID = hash160 env vucPubKey in
       bindE (verifySignature (signVerify env) vucPubKey (h (be_bytes 20 uAuthKeyID)) vucSignature) (\<lambda>good.
       if \<not> good then Inr (tefBAD_ADD_AUTH, st)
       else bindE (on_les (entryCache ltACCOUNT_ROOT (getAccountRootIndex h uDstAccountID)) st) (\<lambda>(sleDst, st).
       if sleDst \<noteq> None then Inr (tefCREATED, st)
       else bindE (txn_account st) (\<lambda>acct.
         let saDstAmount = getFieldAmount txn sfAmount; saPaid = getTransactionFee txn;
             saSrcBalance = getFieldAmount acct sfBalance;
             uReserve = getReserve h (config env) (mLedger (snd st)) (getFieldU32 acct sfOwnerCount) in
         bindE (amount_add saSrcBalance saPaid) (\<lambda>available.
         bindE (amount_plus_u64 saDstAmount uReserve) (\<lambda>needed.
         bindE (amount_less available needed) (\<lambda>below.
         if below then Inr (tecUNFUNDED_ADD, st)
         else bindE (amount_sub saSrcBalance saDstAmount) (\<lambda>left.
           bindE (upd_account (setFieldAmount sfBalance left) st) (\<lambda>st.
           bindE (on_les (entryCreate ltACCOUNT_ROOT (getAccountRootIndex h uDstAccountID)) st) (\<lambda>(sleDst, st).
             Inr (tesSUCCESS, (fst st, poke (setFieldAccount sfRegularKey uAuthKeyID (setFieldAmount sfBalance saDstAmount
               (setFieldU32 sfSequence 1 (setFieldAccount sfAccount uDstAccountID sleDst)))) (snd st)))))))))))))"

section \<open>Change\<close>

definition Change_preCheck :: "Env \<Rightarrow> Transactor \<Rightarrow> exn + TER \<times> Transactor" where
  "Change_preCheck env tr = bindE (getAccountID (getSourceAccount (mTxn tr))) (\<lambda>account.
     let tr = tr\<lparr>mTxnAccountID := account\<rparr> in
     Inr (if account \<noteq> 0 then temBAD_SRC_ACCOUNT
          else if is_bit_set (mTxnParams tr) tapOPEN_LEDGER then temINVALID else tesSUCCESS, tr))"

definition Change_checkSeq :: tx_method where
  "Change_checkSeq env st = (let txn = mTxn (fst st) in
     Inr (if getSequence txn \<noteq> 0 \<or> isFieldPresent txn sfPreviousTxnID then temBAD_SEQUENCE else tesSUCCESS, st))"

definition Change_payFee :: tx_method where
  "Change_payFee env st = Inr (if amount_neq (getTransactionFee (mTxn (fst st))) (mkNative 0 False) then temBAD_FEE else tesSUCCESS, st)"

definition Change_checkSig :: tx_method where
  "Change_checkSig env st = (let txn = mTxn (fst st) in
     Inr (if getFieldAccount160 txn sfAccount \<noteq> 0 then temBAD_SRC_ACCOUNT
          else if getSigningPubKey txn \<noteq> [] \<or> getFieldVL txn sfTxnSignature \<noteq> [] then temBAD_SIGNATURE
          else tesSUCCESS, st))"

definition cache_or_create :: "LedgerEntryType \<Rightarrow> uint256 \<Rightarrow> LedgerEntrySet \<Rightarrow> exn + SLE \<times> LedgerEntrySet" where
  "cache_or_create lt i les = bindE (entryCache lt i les) (\<lambda>(sle, les).
     case sle of None \<Rightarrow> entryCreate lt i les | Some sle \<Rightarrow> Inr (sle, les))"

definition applyAmendment :: tx_method where
  "applyAmendment env st = (let amendment = getFieldH256 (mTxn (fst st)) sfAmendment in
     bindE (on_les (cache_or_create ltAMENDMENTS (getLedgerAmendmentIndex (sha512Half env))) st) (\<lambda>(sle, st).
       let amendments = getFieldV256 sle sfAmendments in
       if amendment \<in> set amendments then Inr (tefALREADY, st)
       else bindE (entryModify (setFieldV256 sfAmendments (amendments @ [amendment]) sle) (snd st)) (\<lambda>les.
         Inr (tesSUCCESS, ((fst st)\<lparr>mAppEvents := mAppEvents (fst st) @ [AmendmentEnabled amendment] @
           (if amendmentSupported env amendment then [] else [AmendmentBlocked])\<rparr>, les)))))"

definition applyFee :: tx_method where
  "applyFee env st = (let txn = mTxn (fst st) in
     bindE (on_les (cache_or_create ltFEE_SETTINGS (getLedgerFeeIndex (sha512Half env))) st) (\<lambda>(sle, st).
       let sle = setFieldU64 sfBaseFee (getFieldU64 txn sfBaseFee) sle;
           sle = setFieldU32 sfReferenceFeeUnits (getFieldU32 txn sfReferenceFeeUnits) sle;
           sle = setFieldU32 sfReserveBase (getFieldU32 txn sfReserveBase) sle;
           sle = setFieldU32 sfReserveIncrement (getFieldU32 txn sfReserveIncrement) sle in
       bindE (entryModify sle (snd st)) (\<lambda>les. Inr (tesSUCCESS, (fst st, les)))))"

definition Change_doApply :: tx_method where
  "Change_doApply env st =
     (if mTxType (mTxn (fst st)) = ttAMENDMENT then applyAmendment env st
      else if mTxType (mTxn (fst st)) = ttFEE then applyFee env st
      else Inr (temUNKNOWN, st))"

section \<open>AccountMerge\<close>

text \<open>
  A trust line seen from one of its two accounts (\<open>RippleState.cpp\<close>).
\<close>

record RippleState =
  rsFlags :: u32
  mViewLowest :: bool
  mLowLimit :: STAmount
  mHighLimit :: STAmount
  mLowID :: uint160
  mHighID :: uint160
  mLowQualityIn :: u64
  mLowQualityOut :: u64
  mHighQualityIn :: u64
  mHighQualityOut :: u64
  mLineBalance :: STAmount

definition mkRippleState :: "SLE \<Rightarrow> RippleState" where
  "mkRippleState sle = (let mLowLimit = getFieldAmount sle sfLowLimit; mHighLimit = getFieldAmount sle sfHighLimit in
     \<lparr> rsFlags = getFieldU32 sle sfFlags, mViewLowest = True, mLowLimit = mLowLimit, mHighLimit = mHighLimit,
       mLowID = mIssuer mLowLimit, mHighID = mIssuer mHighLimit,
       mLowQualityIn = ucast (getFieldU32 sle sfLowQualityIn), mLowQualityOut = ucast (getFieldU32 sle sfLowQualityOut),
       mHighQualityIn = ucast (getFieldU32 sle sfHighQualityIn), mHighQualityOut = ucast (getFieldU32 sle sfHighQualityOut),
       mLineBalance = getFieldAmount sle sfBalance \<rparr>)"

definition setViewAccount :: "uint160 \<Rightarrow> RippleState \<Rightarrow> RippleState" where
  "setViewAccount accountID rs = (let bViewLowestNew = (mLowID rs = accountID) in
     if bViewLowestNew \<noteq> mViewLowest rs
     then rs\<lparr>mViewLowest := bViewLowestNew, mLineBalance := negate (mLineBalance rs)\<rparr> else rs)"

definition makeItem :: "uint160 \<Rightarrow> SLE option \<Rightarrow> RippleState option" where
  "makeItem accountID entry = (case entry of None \<Rightarrow> None
     | Some sle \<Rightarrow> if mType sle \<noteq> ltRIPPLE_STATE then None else Some (setViewAccount accountID (mkRippleState sle)))"

definition getAccountIDPeer :: "RippleState \<Rightarrow> uint160" where
  "getAccountIDPeer rs = (if \<not> mViewLowest rs then mLowID rs else mHighID rs)"

definition getAuthPeer :: "RippleState \<Rightarrow> bool" where
  "getAuthPeer rs = is_bit_set (rsFlags rs) (if \<not> mViewLowest rs then lsfLowAuth else lsfHighAuth)"

text \<open>
  \<open>Ledger::visitAccountItems\<close>: the entries of the account's owner directory, in order. The walk
  follows the links of the pages and would not end on a cycle; a walk that reads more pages than the
  ledger has entries has met one, and has no result here.
\<close>

fun visit_pages :: "nat \<Rightarrow> (Blob \<Rightarrow> uint256) \<Rightarrow> Ledger \<Rightarrow> uint256 \<Rightarrow> uint256 \<Rightarrow> SLE option list option" where
  "visit_pages 0 h l rootIndex currentIndex = None"
| "visit_pages (Suc k) h l rootIndex currentIndex =
     (case getSLE l currentIndex of
        None \<Rightarrow> Some []
      | Some ownerDir \<Rightarrow>
          if mType ownerDir \<noteq> ltDIR_NODE then Some []
          else let items = map (getSLE l) (getFieldV256 ownerDir sfIndexes); uNodeNext = getFieldU64 ownerDir sfIndexNext in
            if uNodeNext = 0 then Some items
            else map_option ((@) items) (visit_pages k h l rootIndex (getDirNodeIndex h rootIndex uNodeNext)))"

definition visitAccountItems :: "(Blob \<Rightarrow> uint256) \<Rightarrow> Ledger \<Rightarrow> uint160 \<Rightarrow> SLE option list option" where
  "visitAccountItems h l accountID =
     visit_pages (Suc (length (mAccountStateMap l))) h l (getOwnerDirIndex h accountID) (getOwnerDirIndex h accountID)"

text \<open>\<open>offerAdder\<close> and \<open>rippleStateAdder\<close>: the indexes of the entries of one type, the last one first.\<close>

fun add_items :: "LedgerEntryType \<Rightarrow> SLE option list \<Rightarrow> uint256 list \<Rightarrow> exn + uint256 list" where
  "add_items lt [] acc = Inr acc"
| "add_items lt (None # items) acc = Inl NullPointer"
| "add_items lt (Some sle # items) acc = add_items lt items (if mType sle = lt then mIndex sle # acc else acc)"

definition collect_items :: "LedgerEntryType \<Rightarrow> Env \<Rightarrow> tx_state \<Rightarrow> exn + uint256 list" where
  "collect_items lt env st =
     (case visitAccountItems (sha512Half env) (mLedger (snd st)) (mTxnAccountID (fst st)) of
        None \<Rightarrow> Inl (RuntimeError ''cycle in the owner directory'')
      | Some items \<Rightarrow> add_items lt items [])"

definition AccountMerge_precheckAgainstLedger :: tx_method where
  "AccountMerge_precheckAgainstLedger env st = (let tr = fst st; txn = mTxn tr; h = sha512Half env in
     if \<not> mSigMaster tr then Inr (temBAD_AUTH_MASTER, st)
     else if \<not> isFieldPresent txn sfDestination then Inr (temDST_NEEDED, st)
     else bindE (getAccountID (getFieldAccount txn sfDestination)) (\<lambda>uDestinationID.
       if uDestinationID = mTxnAccountID tr then Inr (temDST_IS_SRC, st)
       else if \<not> hasAccount h (mLedger (snd st)) uDestinationID then Inr (tecNO_DST, st)
       else bindE (on_les (\<lambda>les. bindE (entryCache ltACCOUNT_ROOT (getAccountRootIndex h uDestinationID) les) nonnull) st) (\<lambda>(sleDst, st).
         if is_bit_set (getFlags sleDst) lsfRequireDestTag \<and> \<not> isFieldPresent txn sfDestinationTag
         then Inr (tefDST_TAG_NEEDED, st) else Inr (tesSUCCESS, st))))"

text \<open>The balance of one line goes to the destination's line with the same issuer.\<close>

definition move_line :: "Env \<Rightarrow> uint160 \<Rightarrow> RippleState \<Rightarrow> LedgerEntrySet \<Rightarrow> exn + TER \<times> LedgerEntrySet" where
  "move_line env uDestinationID pLine les =
     (let saLineBalance = mLineBalance pLine; iouIssuerId = getAccountIDPeer pLine in
      bindE (entryCache ltRIPPLE_STATE (getRippleStateIndex (sha512Half env) uDestinationID iouIssuerId (mCurrency saLineBalance)) les) (\<lambda>(sleDst, les).
      case sleDst of None \<Rightarrow> Inr (terNO_AUTH, les) | Some sle \<Rightarrow>
        (case makeItem uDestinationID sleDst of None \<Rightarrow> Inl NullPointer | Some destTrustLine \<Rightarrow>
           if getAuthPeer pLine \<and> \<not> getAuthPeer destTrustLine then Inr (terNO_AUTH, les)
           else bindE (entryModify sle les) (\<lambda>les.
             let bHigh = (uDestinationID > iouIssuerId); destBalance = getFieldAmount sle sfBalance in
             bindE (if bHigh then amount_sub destBalance saLineBalance else amount_add destBalance saLineBalance) (\<lambda>finalBalance.
             let limit = getFieldAmount sle (if bHigh then sfHighLimit else sfLowLimit) in
             bindE (if bHigh then amount_less finalBalance (uminus_amount limit) else amount_greater finalBalance limit) (\<lambda>over.
             if over then Inr (terNO_AUTH, les)
             else Inr (tesSUCCESS, poke (setFieldAmount sfBalance finalBalance sle) les)))))))"

fun move_lines :: "Env \<Rightarrow> uint160 \<Rightarrow> uint160 \<Rightarrow> uint256 list \<Rightarrow> LedgerEntrySet \<Rightarrow> exn + TER \<times> LedgerEntrySet" where
  "move_lines env uAccountID uDestinationID [] les = Inr (tesSUCCESS, les)"
| "move_lines env uAccountID uDestinationID (itemIndex # rest) les =
     bindE (entryCache ltRIPPLE_STATE itemIndex les) (\<lambda>(sleLine, les).
     case (sleLine, makeItem uAccountID sleLine) of (Some sle, Some pLine) \<Rightarrow>
       if signum (mLineBalance pLine) < 0 then Inr (temBAD_AMOUNT, les)
       else bindE (if signum (mLineBalance pLine) > 0 then move_line env uDestinationID pLine les else Inr (tesSUCCESS, les)) (\<lambda>(terResult, les).
         if terResult \<noteq> tesSUCCESS then Inr (terResult, les)
         else let sle = deref sle les; a = getFirstOwner sle; b = getSecondOwner sle;
                  uHighAccountID = (if a > b then a else b); uLowAccountID = (if a < b then a else b) in
           bindE (trustDelete (sha512Half env) sle uLowAccountID uHighAccountID les) (\<lambda>(terResult, les).
             if terResult \<noteq> tesSUCCESS then Inr (tefINTERNAL, les)
             else move_lines env uAccountID uDestinationID rest les))
     | _ \<Rightarrow> Inl NullPointer)"

fun delete_offers :: "(Blob \<Rightarrow> uint256) \<Rightarrow> uint256 list \<Rightarrow> LedgerEntrySet \<Rightarrow> exn + TER \<times> LedgerEntrySet" where
  "delete_offers h [] les = Inr (tesSUCCESS, les)"
| "delete_offers h (offerIndex # rest) les =
     bindE (offerDelete h offerIndex les) (\<lambda>(terResult, les).
       if terResult \<noteq> tesSUCCESS then Inr (tefINTERNAL, les) else delete_offers h rest les)"

text \<open>\<open>mSourceBalance = zero\<close> clears the amount and keeps its currency and issuer.\<close>

definition merge_balance :: "SLE \<Rightarrow> tx_state \<Rightarrow> exn + tx_state" where
  "merge_balance sleDst st =
     (let saMoveBalance = mSourceBalance (fst st); 
        cleared = saMoveBalance\<lparr>mOffset := if mIsNative saMoveBalance then 0 else -100, mValue := 0, mIsNegative := False\<rparr> in
      bindE (upd_account (setFieldAmount sfBalance cleared) ((fst st)\<lparr>mSourceBalance := cleared\<rparr>, snd st)) (\<lambda>st.
      let sle = deref sleDst (snd st) in
      bindE (amount_add (getFieldAmount sle sfBalance) saMoveBalance) (\<lambda>saNew.
        Inr (fst st, poke (setFieldAmount sfBalance saNew sle) (snd st)))))"

definition AccountMerge_doApply :: tx_method where
  "AccountMerge_doApply env st = (let h = sha512Half env in
     bindE (getAccountID (getFieldAccount (mTxn (fst st)) sfDestination)) (\<lambda>uDestinationID.
     bindE (on_les (entryCache ltACCOUNT_ROOT (getAccountRootIndex h uDestinationID)) st) (\<lambda>(sleDst, st).
     bindE (collect_items ltRIPPLE_STATE env st) (\<lambda>rippleLinesList.
     check (on_les (move_lines env (mTxnAccountID (fst st)) uDestinationID rippleLinesList) st) (\<lambda>st.
     case sleDst of None \<Rightarrow> Inl NullPointer | Some sleDst \<Rightarrow>
     bindE (entryModify (deref sleDst (snd st)) (snd st)) (\<lambda>les.
     bindE (merge_balance sleDst (fst st, les)) (\<lambda>st.
     bindE (collect_items ltOFFER env st) (\<lambda>offersList.
     check (on_les (delete_offers h offersList) st) (\<lambda>st.
     bindE (txn_account st) (\<lambda>acct.
     bindE (entryDelete acct (snd st)) (\<lambda>les. Inr (tesSUCCESS, (fst st, les)))))))))))))"

section \<open>Inflation\<close>

definition INFLATION_FREQUENCY :: u32 where "INFLATION_FREQUENCY = 60 * 60 * 24 * 7"
definition INFLATION_RATE_TRILLIONTHS :: int where "INFLATION_RATE_TRILLIONTHS = 190721000"
definition TRILLION :: int where "TRILLION = 1000000000000"
definition INFLATION_WIN_MIN_PERCENT :: int where "INFLATION_WIN_MIN_PERCENT = 15000000000"
definition INFLATION_NUM_WINNERS :: nat where "INFLATION_NUM_WINNERS = 50"
definition INFLATION_START_TIME :: u32 where "INFLATION_START_TIME = 1403900503 - 946684800"

lemmas inflation_consts = INFLATION_FREQUENCY_def INFLATION_RATE_TRILLIONTHS_def TRILLION_def
  INFLATION_WIN_MIN_PERCENT_def INFLATION_NUM_WINNERS_def INFLATION_START_TIME_def

definition Inflation_checkSig :: tx_method where
  "Inflation_checkSig env st = Inr (tesSUCCESS, st)"

definition Inflation_payFee :: tx_method where
  "Inflation_payFee env st =
     (if signum (getTransactionFee (mTxn (fst st))) = 0 then Inr (tesSUCCESS, st)
      else if quirk env QuirkNonzeroInflationFees then payFee env st
      else Inr (temBAD_FEE, st))"

definition Inflation_precheckAgainstLedger :: tx_method where
  "Inflation_precheckAgainstLedger env st = (let seq = getFieldU32 (mTxn (fst st)) sfInflateSeq; l = mLedger (snd st) in
     Inr (if seq \<noteq> mInflationSeq l then telNOT_TIME
          else if mParentCloseTime l < INFLATION_START_TIME + seq * INFLATION_FREQUENCY then telNOT_TIME
          else tesSUCCESS, st))"

text \<open>
  The winners among the rows of the query, which come in decreasing order of votes: the first always
  wins, the others while their votes exceed the threshold. The result has the total of the winners'
  votes.
\<close>

fun more_winners :: "int \<Rightarrow> (uint160 \<times> int) list \<Rightarrow> (uint160 \<times> int) list" where
  "more_winners minBalance [] = []"
| "more_winners minBalance ((dest, votes) # rows) =
     (if votes > minBalance then (dest, votes) # more_winners minBalance rows else [])"

definition select_winners :: "Ledger \<Rightarrow> (uint160 \<times> int) list \<Rightarrow> (uint160 \<times> int) list \<times> int" where
  "select_winners l rows =
     (let minBalance = uint (mTotCoins l) * INFLATION_WIN_MIN_PERCENT div TRILLION in
      case rows of
        [] \<Rightarrow> ([], 0)
      | (dest, votes) # rest \<Rightarrow>
          let minBalance = (if votes \<le> minBalance then 0 else minBalance);
              winners = (dest, votes) # more_winners minBalance rest
          in (winners, sum_list (map snd winners)))"

definition coins_to_dole :: "Ledger \<Rightarrow> int" where
  "coins_to_dole l = uint (mTotCoins l) * INFLATION_RATE_TRILLIONTHS div TRILLION + uint (mFeePool l)"

text \<open>A share; the quotient is exact, and its conversion to 64 bits keeps the low bits.\<close>

definition dole_share :: "int \<Rightarrow> int \<Rightarrow> int \<Rightarrow> u64" where
  "dole_share biCoinsToDole votes totalVoted = word_of_int (biCoinsToDole * votes div totalVoted)"

definition dole_to :: "Env \<Rightarrow> uint160 \<Rightarrow> u64 \<Rightarrow> LedgerEntrySet \<Rightarrow> exn + LedgerEntrySet" where
  "dole_to env dest coinsDoled les =
     bindE (entryCache ltACCOUNT_ROOT (getAccountRootIndex (sha512Half env) dest) les) (\<lambda>(sle, les).
     case sle of None \<Rightarrow> Inr les | Some account \<Rightarrow>
       bindE (entryModify account les) (\<lambda>les.
       bindE (amount_plus_u64 (getFieldAmount account sfBalance) coinsDoled) (\<lambda>saNew.
       let les = poke (setFieldAmount sfBalance saNew account) les in
       Inr (les\<lparr>mLedger := inflateCoins coinsDoled (mLedger les)\<rparr>))))"

fun dole :: "Env \<Rightarrow> int \<Rightarrow> int \<Rightarrow> (uint160 \<times> int) list \<Rightarrow> LedgerEntrySet \<Rightarrow> exn + LedgerEntrySet" where
  "dole env biCoinsToDole totalVoted [] les = Inr les"
| "dole env biCoinsToDole totalVoted ((dest, votes) # winners) les =
     (if totalVoted = 0 then Inl (RuntimeError ''Division by zero'')
      else bindE (dole_to env dest (dole_share biCoinsToDole votes totalVoted) les) (\<lambda>les.
        dole env biCoinsToDole totalVoted winners les))"

definition Inflation_doApply :: tx_method where
  "Inflation_doApply env st =
     (if \<not> mEngineClosing (fst st) then Inr (tesSUCCESS, st)
      else let l = mLedger (snd st); (winners, totalVoted) = select_winners l (take INFLATION_NUM_WINNERS (inflationVotes env)) in
        bindE (dole env (coins_to_dole l) totalVoted winners (snd st)) (\<lambda>les.
          Inr (tesSUCCESS, (fst st, les\<lparr>mLedger := incrementInflationSeq (mLedger les)\<rparr>))))"

section \<open>Payment\<close>

definition MAX_PATH_SIZE :: nat where "MAX_PATH_SIZE = 6"
definition MAX_NUM_PATHS :: nat where "MAX_NUM_PATHS = 6"

text \<open>The first block of checks, on the transaction alone; success means it passes.\<close>

definition payment_checks :: "Transactor \<Rightarrow> STAmount \<Rightarrow> TER" where
  "payment_checks tr saMaxAmount =
     (let txn = mTxn tr; uTxFlags = getFlags txn; bPaths = isFieldPresent txn sfPaths; bMax = isFieldPresent txn sfSendMax;
          uDstAccountID = getFieldAccount160 txn sfDestination; saDstAmount = getFieldAmount txn sfAmount;
          uSrcCurrency = mCurrency saMaxAmount; uDstCurrency = mCurrency saDstAmount;
          bSTRDirect = (uSrcCurrency = 0 \<and> uDstCurrency = 0) in
      if \<not> isLegalNet saDstAmount \<or> \<not> isLegalNet saMaxAmount then temBAD_AMOUNT
      else if is_bit_set uTxFlags tfPaymentMask then temINVALID_FLAG
      else if uDstAccountID = 0 then temDST_NEEDED
      else if bMax \<and> signum saMaxAmount \<le> 0 then temBAD_AMOUNT
      else if signum saDstAmount \<le> 0 then temBAD_AMOUNT
      else if CURRENCY_BAD = uSrcCurrency \<or> CURRENCY_BAD = uDstCurrency then temBAD_CURRENCY
      else if mTxnAccountID tr = uDstAccountID \<and> uSrcCurrency = uDstCurrency \<and> \<not> bPaths then temREDUNDANT
      else if bMax \<and> amount_eq saMaxAmount saDstAmount \<and> mCurrency saMaxAmount = mCurrency saDstAmount then temREDUNDANT_SEND_MAX
      else if bSTRDirect \<and> bMax then temBAD_SEND_STR_MAX
      else if bSTRDirect \<and> bPaths then temBAD_SEND_STR_PATHS
      else if bSTRDirect \<and> is_bit_set uTxFlags tfLimitQuality then temBAD_SEND_STR_LIMIT
      else if bSTRDirect \<and> is_bit_set uTxFlags tfNoRippleDirect then temBAD_SEND_STR_NO_DIRECT
      else tesSUCCESS)"

definition send_max :: "Transactor \<Rightarrow> exn + STAmount" where
  "send_max tr = (let txn = mTxn tr; saDstAmount = getFieldAmount txn sfAmount in
     if isFieldPresent txn sfSendMax then Inr (getFieldAmount txn sfSendMax)
     else if mIsNative saDstAmount then Inr saDstAmount
     else mkAmount (mCurrency saDstAmount) (mTxnAccountID tr) (mValue saDstAmount) (mOffset saDstAmount) (signum saDstAmount < 0))"

text \<open>The destination account, created by a native payment that covers the reserve.\<close>

definition payment_destination :: "Env \<Rightarrow> tx_state \<Rightarrow> exn + (TER \<times> SLE option) \<times> tx_state" where
  "payment_destination env st = (let txn = mTxn (fst st); h = sha512Half env;
       uDstAccountID = getFieldAccount160 txn sfDestination; saDstAmount = getFieldAmount txn sfAmount;
       index = getAccountRootIndex h uDstAccountID in
     bindE (on_les (entryCache ltACCOUNT_ROOT index) st) (\<lambda>(sleDst, st).
     case sleDst of
       None \<Rightarrow>
         if \<not> mIsNative saDstAmount then Inr ((tecNO_DST, None), st)
         else bindE (getNValue saDstAmount) (\<lambda>v.
           if v < getReserve h (config env) (mLedger (snd st)) 0 then Inr ((tecNO_DST_INSUF_STR, None), st)
           else bindE (on_les (entryCreate ltACCOUNT_ROOT index) st) (\<lambda>(sle, st).
             let sle = setFieldU32 sfSequence 1 (setFieldAccount sfAccount uDstAccountID sle) in
             Inr ((tesSUCCESS, Some sle), (fst st, poke sle (snd st)))))
     | Some sle \<Rightarrow>
         if is_bit_set (getFlags sle) lsfRequireDestTag \<and> \<not> isFieldPresent txn sfDestinationTag
         then Inr ((tefDST_TAG_NEEDED, None), st)
         else bindE (entryModify sle (snd st)) (\<lambda>les. Inr ((tesSUCCESS, Some sle), (fst st, les)))))"

text \<open>
  A payment along paths. An exception of the path engine is caught and becomes a code of the class
  \<open>tef\<close>; the entry set it leaves is then dropped by the engine, so the model keeps the one before.
\<close>

definition too_many_paths :: "Env \<Rightarrow> STPathElement list list \<Rightarrow> bool" where
  "too_many_paths env spsPaths \<longleftrightarrow>
     length spsPaths > MAX_NUM_PATHS \<or>
     \<not> quirk env QuirkLongPaymentPaths \<and> (\<exists>path \<in> set spsPaths. length path > MAX_PATH_SIZE)"

definition ripple_payment :: "STAmount \<Rightarrow> tx_method" where
  "ripple_payment saMaxAmount env st = (let tr = fst st; txn = mTxn tr; uTxFlags = getFlags txn;
       spsPaths = getFieldPathSet txn sfPaths; saDstAmount = getFieldAmount txn sfAmount in
     if too_many_paths env spsPaths then Inr (telBAD_PATH_COUNT, st)
     else (case rippleCalc env saMaxAmount saDstAmount (getFieldAccount160 txn sfDestination) (mTxnAccountID tr) spsPaths
                  False (is_bit_set uTxFlags tfLimitQuality) (is_bit_set uTxFlags tfNoRippleDirect)
                  (is_bit_set (mTxnParams tr) tapOPEN_LEDGER) (snd st) of
             Inl _ \<Rightarrow> Inr (tefEXCEPTION, st)
           | Inr ((terResult, saDstAmountAct), les) \<Rightarrow>
               let terResult = (if isTerRetry terResult then tecPATH_DRY else terResult) in
               Inr (terResult, (tr, if tesSUCCESS = terResult \<and> amount_neq saDstAmountAct saDstAmount
                                    then setDeliveredAmount saDstAmountAct les else les))))"

definition direct_payment :: "SLE \<Rightarrow> tx_method" where
  "direct_payment sleDst env st = (let tr = fst st; txn = mTxn tr; saDstAmount = getFieldAmount txn sfAmount in
     bindE (txn_account st) (\<lambda>acct.
     let uReserve = getReserve (sha512Half env) (config env) (mLedger (snd st)) (getFieldU32 acct sfOwnerCount) in
     bindE (getNValue (getTransactionFee txn)) (\<lambda>fee.
     bindE (amount_plus_u64 saDstAmount (max uReserve fee)) (\<lambda>needed.
     bindE (amount_less (mPriorBalance tr) needed) (\<lambda>below.
     if below then Inr (tecUNFUNDED_PAYMENT, st)
     else bindE (amount_sub (mSourceBalance tr) saDstAmount) (\<lambda>left.
       bindE (upd_account (setFieldAmount sfBalance left) st) (\<lambda>st.
       let sle = deref sleDst (snd st) in
       bindE (amount_add (getFieldAmount sle sfBalance) saDstAmount) (\<lambda>saNew.
       let sle = setFieldAmount sfBalance saNew sle;
           sle = (if quirk env QuirkUseLsfPasswordSpent \<and> is_bit_set (getFlags sle) lsfPasswordSpent
                  then clearFlag lsfPasswordSpent sle else sle) in
       Inr (tesSUCCESS, (fst st, poke sle (snd st)))))))))))"

definition Payment_doApply :: tx_method where
  "Payment_doApply env st = (let tr = fst st; txn = mTxn tr in
     bindE (send_max tr) (\<lambda>saMaxAmount.
     if payment_checks tr saMaxAmount \<noteq> tesSUCCESS then Inr (payment_checks tr saMaxAmount, st)
     else bindE (payment_destination env st) (\<lambda>((ter, sleDst), st).
     case sleDst of
       None \<Rightarrow> Inr (ter, st)
     | Some sleDst \<Rightarrow>
         if isFieldPresent txn sfPaths \<or> isFieldPresent txn sfSendMax \<or> \<not> mIsNative (getFieldAmount txn sfAmount)
         then ripple_payment saMaxAmount env st
         else direct_payment sleDst env st)))"

section \<open>TrustSet\<close>

definition TrustSet_checkSig :: tx_method where
  "TrustSet_checkSig env st =
     bindE (txn_account st) (\<lambda>acct.
     if isFieldPresent acct sfSetAuthKey
     then bindE (signing_account env (fst st)) (\<lambda>signer.
       if signer = getFieldAccount160 acct sfSetAuthKey then Inr (tesSUCCESS, st) else checkSig env st)
     else checkSig env st)"

definition trust_checks :: "Transactor \<Rightarrow> SLE \<Rightarrow> TER" where
  "trust_checks tr acct = (let txn = mTxn tr; saLimitAmount = getFieldAmount txn sfLimitAmount; uTxFlags = getFlags txn in
     if \<not> isLegalNet saLimitAmount then temBAD_AMOUNT
     else if is_bit_set uTxFlags tfTrustSetMask then temINVALID_FLAG
     else if is_bit_set uTxFlags tfSetfAuth \<and> \<not> is_bit_set (getFieldU32 acct sfFlags) lsfRequireAuth then tefNO_AUTH_REQUIRED
     else if mIsNative saLimitAmount then temBAD_LIMIT
     else if signum saLimitAmount < 0 then temBAD_LIMIT
     else if mIssuer saLimitAmount = 0 \<or> mIssuer saLimitAmount = ACCOUNT_ONE then temDST_NEEDED
     else tesSUCCESS)"

definition quality_field :: "SerializedTransaction \<Rightarrow> sfield \<Rightarrow> u32" where
  "quality_field txn f = (if isFieldPresent txn f
     then (if QUALITY_ONE = getFieldU32 txn f then 0 else getFieldU32 txn f) else 0)"

text \<open>One quality of the line: the entry with it set or cleared, and the values of the two sides.\<close>

definition line_quality :: "bool \<Rightarrow> u32 \<Rightarrow> bool \<Rightarrow> sfield \<Rightarrow> sfield \<Rightarrow> SLE \<Rightarrow> SLE \<times> u32 \<times> u32" where
  "line_quality bQuality uQuality bHigh low high sle =
     (let mine = (if \<not> bHigh then low else high);
          sle' = (if \<not> bQuality then sle else if uQuality \<noteq> 0 then setFieldU32 mine uQuality sle else makeFieldAbsent mine sle);
          uLow = (if bQuality \<and> \<not> bHigh then uQuality else getFieldU32 sle' low);
          uHigh = (if bQuality \<and> bHigh then uQuality else getFieldU32 sle' high)
      in (sle', if QUALITY_ONE = uLow then 0 else uLow, if QUALITY_ONE = uHigh then 0 else uHigh))"

text \<open>Raising and lowering the owner count of one side, with the flag that records it.\<close>

definition line_reserve :: "(Blob \<Rightarrow> uint256) \<Rightarrow> uint160 \<Rightarrow> SLE \<Rightarrow> bool \<Rightarrow> bool \<Rightarrow> u32 \<Rightarrow> u32 \<Rightarrow> LedgerEntrySet \<Rightarrow>
    exn + u32 \<times> LedgerEntrySet" where
  "line_reserve h uAccountID sleAccount bReserveSet bReserved flag uFlagsOut les =
     (if bReserveSet \<and> \<not> bReserved then
        bindE (ownerCountAdjust h uAccountID 1 (Some (deref sleAccount les)) les) (\<lambda>les. Inr (uFlagsOut OR flag, les))
      else if \<not> bReserveSet \<and> bReserved then
        bindE (ownerCountAdjust h uAccountID (-1) (Some (deref sleAccount les)) les) (\<lambda>les. Inr (uFlagsOut AND NOT flag, les))
      else Inr (uFlagsOut, les))"

definition no_ripple_flags :: "u32 \<Rightarrow> bool \<Rightarrow> STAmount \<Rightarrow> u32 \<Rightarrow> u32" where
  "no_ripple_flags uTxFlags bHigh saMyBalance uFlagsIn =
     (let bSetNoRipple = is_bit_set uTxFlags tfSetNoRipple; bClearNoRipple = is_bit_set uTxFlags tfClearNoRipple;
          flag = (if bHigh then lsfHighNoRipple else lsfLowNoRipple) in
      if bSetNoRipple \<and> \<not> bClearNoRipple \<and> signum saMyBalance \<ge> 0 then uFlagsIn OR flag
      else if bClearNoRipple \<and> \<not> bSetNoRipple then uFlagsIn AND NOT flag
      else uFlagsIn)"

definition auth_flags :: "u32 \<Rightarrow> bool \<Rightarrow> u32 \<Rightarrow> u32" where
  "auth_flags uTxFlags bHigh uFlags =
     (let flag = (if bHigh then lsfHighAuth else lsfLowAuth);
          uFlags = (if is_bit_set uTxFlags tfSetfAuth then uFlags OR flag else uFlags)
      in if is_bit_set uTxFlags tfClearAuth then uFlags AND NOT flag else uFlags)"

text \<open>
  The existing line with its limit and qualities set: the entry, its flags before and after (without
  the reserve flags), and whether each side now needs a reserve.
\<close>

definition change_line :: "SerializedTransaction \<Rightarrow> bool \<Rightarrow> STAmount \<Rightarrow> SLE \<Rightarrow> SLE \<times> u32 \<times> u32 \<times> bool \<times> bool" where
  "change_line txn bHigh saLimitAllow sleLine =
     (let uTxFlags = getFlags txn;
          saLowBalance = getFieldAmount sleLine sfBalance;
          saHighBalance = uminus_amount saLowBalance;
          sle = setFieldAmount (if \<not> bHigh then sfLowLimit else sfHighLimit) saLimitAllow sleLine;
          saLowLimit = (if \<not> bHigh then saLimitAllow else getFieldAmount sle sfLowLimit);
          saHighLimit = (if bHigh then saLimitAllow else getFieldAmount sle sfHighLimit);
          (sle, uLowQualityIn, uHighQualityIn) = line_quality (isFieldPresent txn sfQualityIn) (quality_field txn sfQualityIn)
             bHigh sfLowQualityIn sfHighQualityIn sle;
          (sle, uLowQualityOut, uHighQualityOut) = line_quality (isFieldPresent txn sfQualityOut) (quality_field txn sfQualityOut)
             bHigh sfLowQualityOut sfHighQualityOut sle;
          uFlagsIn = getFieldU32 sle sfFlags;
          uFlagsOut = no_ripple_flags uTxFlags bHigh (if bHigh then saHighBalance else saLowBalance) uFlagsIn;
          bLowReserveSet = (uLowQualityIn \<noteq> 0 \<or> uLowQualityOut \<noteq> 0 \<or> is_bit_set uFlagsOut lsfLowNoRipple \<or>
             \<not> isZero saLowLimit \<or> signum saLowBalance > 0);
          bHighReserveSet = (uHighQualityIn \<noteq> 0 \<or> uHighQualityOut \<noteq> 0 \<or> is_bit_set uFlagsOut lsfHighNoRipple \<or>
             \<not> isZero saHighLimit \<or> signum saHighBalance > 0)
      in (sle, uFlagsIn, auth_flags uTxFlags bHigh uFlagsOut, bLowReserveSet, bHighReserveSet))"

text \<open>The line is written, deleted, or left when the account cannot afford a new reserve.\<close>

definition write_line :: "Env \<Rightarrow> u64 \<Rightarrow> bool \<Rightarrow> bool \<Rightarrow> uint160 \<Rightarrow> uint160 \<Rightarrow> SLE \<Rightarrow> tx_state \<Rightarrow> exn + TER \<times> tx_state" where
  "write_line env uReserveCreate bDelete bReserveIncrease uLowAccountID uHighAccountID sle st =
     (if bDelete then on_les (trustDelete (sha512Half env) sle uLowAccountID uHighAccountID) st
      else bindE (if bReserveIncrease then getNValue (mPriorBalance (fst st)) else Inr uReserveCreate) (\<lambda>v.
        if v < uReserveCreate then Inr (tecINSUF_RESERVE_LINE, st)
        else bindE (entryModify sle (snd st)) (\<lambda>les. Inr (tesSUCCESS, (fst st, les)))))"

definition modify_line :: "Env \<Rightarrow> u64 \<Rightarrow> STAmount \<Rightarrow> SLE \<Rightarrow> SLE \<Rightarrow> tx_state \<Rightarrow> exn + TER \<times> tx_state" where
  "modify_line env uReserveCreate saLimitAllow sleDst sleLine st =
     (let tr = fst st; h = sha512Half env; saLimitAmount = getFieldAmount (mTxn tr) sfLimitAmount;
          uDstAccountID = mIssuer saLimitAmount; bHigh = (mTxnAccountID tr > uDstAccountID);
          uLowAccountID = (if \<not> bHigh then mTxnAccountID tr else uDstAccountID);
          uHighAccountID = (if bHigh then mTxnAccountID tr else uDstAccountID) in
      case change_line (mTxn tr) bHigh saLimitAllow sleLine of (sle, uFlagsIn, uFlagsOut, bLowReserveSet, bHighReserveSet) \<Rightarrow>
      let bLowReserved = is_bit_set uFlagsIn lsfLowReserve; bHighReserved = is_bit_set uFlagsIn lsfHighReserve;
          bReserveIncrease = (bLowReserveSet \<and> \<not> bLowReserved \<and> \<not> bHigh \<or> bHighReserveSet \<and> \<not> bHighReserved \<and> bHigh) in
      case mTxnAccount tr of None \<Rightarrow> Inl NullPointer | Some sleMine \<Rightarrow>
      bindE (line_reserve h uLowAccountID (if \<not> bHigh then sleMine else sleDst) bLowReserveSet bLowReserved lsfLowReserve
               uFlagsOut (poke sle (snd st))) (\<lambda>(uFlagsOut, les).
      bindE (line_reserve h uHighAccountID (if bHigh then sleMine else sleDst) bHighReserveSet bHighReserved lsfHighReserve
               uFlagsOut les) (\<lambda>(uFlagsOut, les).
      let sle = (if uFlagsIn \<noteq> uFlagsOut then setFieldU32 sfFlags uFlagsOut (deref sle les) else deref sle les) in
      write_line env uReserveCreate ((\<not> bLowReserveSet \<and> \<not> bHighReserveSet) \<or> CURRENCY_BAD = mCurrency saLimitAmount)
        bReserveIncrease uLowAccountID uHighAccountID sle (tr, poke sle les))))"

definition create_line :: "Env \<Rightarrow> u64 \<Rightarrow> STAmount \<Rightarrow> tx_state \<Rightarrow> exn + TER \<times> tx_state" where
  "create_line env uReserveCreate saLimitAllow st =
     (let tr = fst st; txn = mTxn tr; h = sha512Half env; uTxFlags = getFlags txn;
          saLimitAmount = getFieldAmount txn sfLimitAmount; uDstAccountID = mIssuer saLimitAmount; uCurrencyID = mCurrency saLimitAmount;
          uQualityIn = quality_field txn sfQualityIn; uQualityOut = quality_field txn sfQualityOut in
      if isZero saLimitAmount \<and> (\<not> isFieldPresent txn sfQualityIn \<or> uQualityIn = 0) \<and>
         (\<not> isFieldPresent txn sfQualityOut \<or> uQualityOut = 0) \<and>
         \<not> is_bit_set uTxFlags tfSetfAuth \<and> \<not> is_bit_set uTxFlags tfClearAuth
      then Inr (tecNO_LINE_REDUNDANT, st)
      else bindE (getNValue (mPriorBalance tr)) (\<lambda>v.
        if v < uReserveCreate then Inr (tecNO_LINE_INSUF_RESERVE, st)
        else if CURRENCY_BAD = uCurrencyID then Inr (temBAD_CURRENCY, st)
        else on_les (trustCreate h (mTxnAccountID tr > uDstAccountID) (mTxnAccountID tr) uDstAccountID
               (getRippleStateIndex h (mTxnAccountID tr) uDstAccountID uCurrencyID) (mTxnAccount tr)
               (is_bit_set uTxFlags tfSetfAuth) (is_bit_set uTxFlags tfSetNoRipple \<and> \<not> is_bit_set uTxFlags tfClearNoRipple)
               (clear_amount uCurrencyID ACCOUNT_ONE) saLimitAllow uQualityIn uQualityOut) st))"

definition TrustSet_doApply :: tx_method where
  "TrustSet_doApply env st = (let tr = fst st; txn = mTxn tr; h = sha512Half env; saLimitAmount = getFieldAmount txn sfLimitAmount;
       uCurrencyID = mCurrency saLimitAmount; uDstAccountID = mIssuer saLimitAmount;
       index = getRippleStateIndex h (mTxnAccountID tr) uDstAccountID uCurrencyID in
     bindE (txn_account st) (\<lambda>acct.
     if trust_checks tr acct \<noteq> tesSUCCESS then Inr (trust_checks tr acct, st)
     else if mTxnAccountID tr = uDstAccountID then
       bindE (on_les (entryCache ltRIPPLE_STATE index) st) (\<lambda>(selDelete, st).
       case selDelete of
         Some sle \<Rightarrow> on_les (trustDelete h sle (mTxnAccountID tr) uDstAccountID) st
       | None \<Rightarrow> Inr (temDST_IS_SRC, st))
     else bindE (on_les (entryCache ltACCOUNT_ROOT (getAccountRootIndex h uDstAccountID)) st) (\<lambda>(sleDst, st).
       case sleDst of
         None \<Rightarrow> Inr (tecNO_DST, st)
       | Some sleDst \<Rightarrow>
           let uOwnerCount = getFieldU32 acct sfOwnerCount;
               uReserveCreate = (if uOwnerCount < 2 then 0 else getReserve h (config env) (mLedger (snd st)) (uOwnerCount + 1));
               saLimitAllow = saLimitAmount\<lparr>mIssuer := mTxnAccountID tr\<rparr> in
           bindE (on_les (entryCache ltRIPPLE_STATE index) st) (\<lambda>(sleRippleState, st).
           case sleRippleState of
             Some sleLine \<Rightarrow> modify_line env uReserveCreate saLimitAllow sleDst sleLine st
           | None \<Rightarrow> create_line env uReserveCreate saLimitAllow st))))"

section \<open>The classes\<close>

definition PaymentTransactor :: transactor_class where "PaymentTransactor = base_class Payment_doApply"
definition AccountSetTransactor :: transactor_class where "AccountSetTransactor = base_class AccountSet_doApply"
definition OfferCancelTransactor :: transactor_class where "OfferCancelTransactor = base_class OfferCancel_doApply"
definition WalletAddTransactor :: transactor_class where "WalletAddTransactor = base_class WalletAdd_doApply"

definition RegularKeySetTransactor :: transactor_class where
  "RegularKeySetTransactor = (base_class RegularKeySet_doApply)\<lparr>vCalculateBaseFee := RegularKeySet_calculateBaseFee\<rparr>"

definition TrustSetTransactor :: transactor_class where
  "TrustSetTransactor = (base_class TrustSet_doApply)\<lparr>vCheckSig := TrustSet_checkSig\<rparr>"

definition AccountMergeTransactor :: transactor_class where
  "AccountMergeTransactor = (base_class AccountMerge_doApply)\<lparr>vPrecheckAgainstLedger := AccountMerge_precheckAgainstLedger\<rparr>"

definition InflationTransactor :: transactor_class where
  "InflationTransactor = (base_class Inflation_doApply)\<lparr>vCheckSig := Inflation_checkSig,
     vPayFee := Inflation_payFee, vPrecheckAgainstLedger := Inflation_precheckAgainstLedger\<rparr>"

definition ChangeTransactor :: transactor_class where
  "ChangeTransactor = (base_class Change_doApply)\<lparr>vPreCheck := Change_preCheck, vMustHaveValidAccount := False,
     vCheckSeq := Change_checkSeq, vPayFee := Change_payFee, vCheckSig := Change_checkSig\<rparr>"

text \<open>The class of a transaction type. The class for creating offers is an argument.\<close>

definition makeTransactor :: "transactor_class \<Rightarrow> TxType \<Rightarrow> transactor_class option" where
  "makeTransactor OfferCreateTransactor t =
     (if t = ttPAYMENT then Some PaymentTransactor
      else if t = ttINFLATION then Some InflationTransactor
      else if t = ttACCOUNT_SET then Some AccountSetTransactor
      else if t = ttACCOUNT_MERGE then Some AccountMergeTransactor
      else if t = ttREGULAR_KEY_SET then Some RegularKeySetTransactor
      else if t = ttTRUST_SET then Some TrustSetTransactor
      else if t = ttOFFER_CREATE then Some OfferCreateTransactor
      else if t = ttOFFER_CANCEL then Some OfferCancelTransactor
      else if t = ttWALLET_ADD then Some WalletAddTransactor
      else if t = ttAMENDMENT \<or> t = ttFEE then Some ChangeTransactor
      else None)"

end
