(* ===== verification/Owner_Walk.thy ===== *)
theory Owner_Walk
  imports Transactors
begin

text \<open>
  The walk through the owner directory of an account, \<open>Ledger::visitAccountItems\<close>: the walk with a bound
  that the transactors use is the unbounded loop of the source.
\<close>

section \<open>The walk through an owner directory\<close>

text \<open>
  The loop of \<open>Ledger::visitAccountItems\<close> without a bound: \<open>page_walk h l r i xs\<close> when the loop, at page
  \<open>i\<close> of the directory \<open>r\<close>, ends after having visited \<open>xs\<close>.
\<close>

inductive page_walk :: "(Blob \<Rightarrow> uint256) \<Rightarrow> Ledger \<Rightarrow> uint256 \<Rightarrow> uint256 \<Rightarrow> SLE option list \<Rightarrow> bool" for h l r where
  walk_missing: "getSLE l i = None \<Longrightarrow> page_walk h l r i []"
| walk_other: "getSLE l i = Some d \<Longrightarrow> mType d \<noteq> ltDIR_NODE \<Longrightarrow> page_walk h l r i []"
| walk_last: "getSLE l i = Some d \<Longrightarrow> mType d = ltDIR_NODE \<Longrightarrow> getFieldU64 d sfIndexNext = 0 \<Longrightarrow>
    page_walk h l r i (map (getSLE l) (getFieldV256 d sfIndexes))"
| walk_next: "getSLE l i = Some d \<Longrightarrow> mType d = ltDIR_NODE \<Longrightarrow> getFieldU64 d sfIndexNext \<noteq> 0 \<Longrightarrow>
    page_walk h l r (getDirNodeIndex h r (getFieldU64 d sfIndexNext)) xs \<Longrightarrow>
    page_walk h l r i (map (getSLE l) (getFieldV256 d sfIndexes) @ xs)"

text \<open>One turn of the loop: where it goes next, if it goes on.\<close>

definition next_page :: "(Blob \<Rightarrow> uint256) \<Rightarrow> Ledger \<Rightarrow> uint256 \<Rightarrow> uint256 \<Rightarrow> uint256 option" where
  "next_page h l r i = (case getSLE l i of None \<Rightarrow> None | Some d \<Rightarrow>
     if mType d \<noteq> ltDIR_NODE \<or> getFieldU64 d sfIndexNext = 0 then None else Some (getDirNodeIndex h r (getFieldU64 d sfIndexNext)))"

definition page_items :: "Ledger \<Rightarrow> uint256 \<Rightarrow> SLE option list" where
  "page_items l i = (case getSLE l i of None \<Rightarrow> [] | Some d \<Rightarrow>
     if mType d \<noteq> ltDIR_NODE then [] else map (getSLE l) (getFieldV256 d sfIndexes))"

lemma visit_Suc: "visit_pages (Suc k) h l r i = (case next_page h l r i of None \<Rightarrow> Some (page_items l i)
    | Some j \<Rightarrow> map_option ((@) (page_items l i)) (visit_pages k h l r j))"
  by (simp add: next_page_def page_items_def Let_def split: option.split)

declare visit_pages.simps(2) [simp del]

lemma walk_iff: "page_walk h l r i xs \<longleftrightarrow> (case next_page h l r i of None \<Rightarrow> xs = page_items l i
    | Some j \<Rightarrow> \<exists>ys. page_walk h l r j ys \<and> xs = page_items l i @ ys)"
  by (subst page_walk.simps) (auto simp: next_page_def page_items_def split: option.split)

lemma visit_mono: "visit_pages k h l r i = Some xs \<Longrightarrow> k \<le> k' \<Longrightarrow> visit_pages k' h l r i = Some xs"
proof (induction k arbitrary: k' i xs)
  case (Suc k)
  obtain k2 where k2: "k' = Suc k2" "k \<le> k2" using Suc.prems(2) by (cases k') auto
  show ?case
  proof (cases "next_page h l r i")
    case (Some j)
    then obtain ys where "visit_pages k h l r j = Some ys" "xs = page_items l i @ ys" using Suc.prems(1) by (auto simp: visit_Suc)
    then show ?thesis using Suc.IH [OF _ k2(2)] Some by (simp add: k2(1) visit_Suc)
  qed (use Suc.prems(1) in \<open>simp add: k2(1) visit_Suc\<close>)
qed simp

lemma visit_walk: "visit_pages k h l r i = Some xs \<Longrightarrow> page_walk h l r i xs"
proof (induction k arbitrary: i xs)
  case (Suc k)
  show ?case
  proof (cases "next_page h l r i")
    case (Some j)
    then obtain ys where "visit_pages k h l r j = Some ys" "xs = page_items l i @ ys" using Suc.prems by (auto simp: visit_Suc)
    then show ?thesis using Suc.IH Some by (subst walk_iff) auto
  next
    case None
    then show ?thesis using Suc.prems by (subst walk_iff) (simp add: visit_Suc)
  qed
qed simp

lemma walk_visit: "page_walk h l r i xs \<Longrightarrow> \<exists>k. visit_pages k h l r i = Some xs"
proof (induction rule: page_walk.induct)
  case (walk_next i d xs)
  then obtain k where "visit_pages k h l r (getDirNodeIndex h r (getFieldU64 d sfIndexNext)) = Some xs" by blast
  then show ?case using walk_next(1-3) by (intro exI [of _ "Suc k"]) (simp add: visit_pages.simps(2))
qed (auto intro!: exI [of _ "Suc 0"] simp: visit_pages.simps(2))

text \<open>The number of pages a walk reads; a walk that ends reads no page twice.\<close>

definition walk_length :: "(Blob \<Rightarrow> uint256) \<Rightarrow> Ledger \<Rightarrow> uint256 \<Rightarrow> uint256 \<Rightarrow> nat" where
  "walk_length h l r i = (LEAST k. visit_pages k h l r i \<noteq> None)"

lemma walk_length_le: "visit_pages k h l r i \<noteq> None \<Longrightarrow> walk_length h l r i \<le> k"
  unfolding walk_length_def by (rule Least_le)

lemma walk_length_visit: "visit_pages k h l r i \<noteq> None \<Longrightarrow> visit_pages (walk_length h l r i) h l r i \<noteq> None"
  unfolding walk_length_def by (rule LeastI)

lemma walk_length_step:
  assumes "visit_pages k h l r i \<noteq> None" "1 < walk_length h l r i"
  obtains j where "i \<in> dom (getSLE l)" "visit_pages k h l r j \<noteq> None" "walk_length h l r i = Suc (walk_length h l r j)"
proof -
  obtain n where n: "walk_length h l r i = Suc (Suc n)" using assms(2) by (cases "walk_length h l r i"; cases "walk_length h l r i - 1") auto
  then have v: "visit_pages (Suc (Suc n)) h l r i \<noteq> None" using walk_length_visit [OF assms(1)] by simp
  have m: "visit_pages (Suc 0) h l r i = None" "visit_pages (Suc n) h l r i = None"
    by (rule ccontr, use walk_length_le [of "Suc 0" h l r i] n in simp, rule ccontr, use walk_length_le [of "Suc n" h l r i] n in simp)
  from m(1) obtain j where nx: "next_page h l r i = Some j" by (cases "next_page h l r i") (simp_all add: visit_Suc)
  have j: "visit_pages (Suc n) h l r j \<noteq> None" "visit_pages n h l r j = None"
    using v m(2) unfolding visit_Suc [of _ h l r i] nx by simp_all
  have d: "i \<in> dom (getSLE l)" using nx by (auto simp: next_page_def split: option.splits)
  have "walk_length h l r j = Suc n"
  proof (rule antisym)
    show "walk_length h l r j \<le> Suc n" by (rule walk_length_le [OF j(1)])
    have "\<not> walk_length h l r j \<le> n" using walk_length_visit [OF j(1)] j(2) visit_mono [of "walk_length h l r j" h l r j _ n] by fastforce
    then show "Suc n \<le> walk_length h l r j" by simp
  qed
  moreover have nk: "Suc n \<le> k" using walk_length_le [OF assms(1)] n by simp
  obtain ys where "visit_pages (Suc n) h l r j = Some ys" using j(1) by blast
  then have "visit_pages k h l r j = Some ys" using nk by (rule visit_mono)
  ultimately show thesis using that [OF d, of j] n by simp
qed

lemma walk_lengths_covered:
  assumes "visit_pages k h l r i \<noteq> None"
  shows "{2..walk_length h l r i} \<subseteq> walk_length h l r ` dom (getSLE l)"
  using assms
proof (induction "walk_length h l r i" arbitrary: i)
  case (Suc n)
  show ?case
  proof (cases "1 < walk_length h l r i")
    case True
    obtain j where j: "i \<in> dom (getSLE l)" "visit_pages k h l r j \<noteq> None" "walk_length h l r i = Suc (walk_length h l r j)"
      by (rule walk_length_step [OF Suc.prems True])
    have "{2..walk_length h l r i} \<subseteq> insert (walk_length h l r i) {2..walk_length h l r j}" using j(3) by auto
    moreover have "{2..walk_length h l r j} \<subseteq> walk_length h l r ` dom (getSLE l)" by (rule Suc.hyps(1)) (use Suc.hyps(2) j in simp_all)
    ultimately show ?thesis using j(1) by blast
  qed auto
qed auto

lemma walk_length_bound:
  assumes "visit_pages k h l r i \<noteq> None"
  shows "walk_length h l r i \<le> Suc (length (mAccountStateMap l))"
proof -
  have d: "dom (getSLE l) = fst ` set (mAccountStateMap l)" using dom_map_of_conv_image_fst [of "mAccountStateMap l"] by (simp add: getSLE_def dom_def)
  have "card {2..walk_length h l r i} \<le> card (walk_length h l r ` dom (getSLE l))"
    by (rule card_mono [OF _ walk_lengths_covered [OF assms]]) (simp add: d)
  also have "\<dots> \<le> card (set (mAccountStateMap l))" unfolding d by (rule order_trans [OF card_image_le card_image_le]) simp_all
  also have "\<dots> \<le> length (mAccountStateMap l)" by (rule card_length)
  finally show ?thesis by simp
qed


end
