(* ===== verification/Engine.thy ===== *)
theory Engine
  imports Transactors
begin

text \<open>
  The transaction engine, \<open>src/ripple_app/tx/TransactionEngine.cpp\<close>: a transaction is applied to an
  entry set over the ledger by its transactor; what comes of it is committed, reduced to its fee, or
  dropped.
\<close>

section \<open>The engine\<close>

text \<open>
  The members of the engine. \<open>mNodes\<close> holds the ledger while a transaction is applied; what it leaves
  there is the engine's ledger again afterwards. \<open>engEvents\<close> collects what the transactors told the
  rest of the process.
\<close>

record TransactionEngine =
  engLedger :: Ledger
  mNodes :: LedgerEntrySet
  mTxnSeq :: u32
  mClosingLedger :: bool
  engEvents :: "app_event list"

text \<open>\<open>TransactionCheck.cpp\<close>.\<close>

definition checkInvariants :: "TER \<Rightarrow> SerializedTransaction \<Rightarrow> u32 \<Rightarrow> bool" where
  "checkInvariants result txn params = True"

text \<open>A transaction that may only claim its fee is applied again to a fresh entry set.\<close>

definition claim_fee :: "Env \<Rightarrow> SerializedTransaction \<Rightarrow> TER \<Rightarrow> LedgerEntrySet \<Rightarrow> exn + (TER \<times> bool) \<times> LedgerEntrySet" where
  "claim_fee env txn terResult les =
     bindE (getAccountID (getSourceAccount txn)) (\<lambda>account.
     bindE (entryCache ltACCOUNT_ROOT (getAccountRootIndex (sha512Half env) account) (clear les)) (\<lambda>(sle, les).
     case sle of
       None \<Rightarrow> Inr ((terNO_ACCOUNT, False), les)
     | Some txnAcct \<Rightarrow>
         let t_seq = getSequence txn; a_seq = getFieldU32 txnAcct sfSequence in
         if a_seq < t_seq then Inr ((terPRE_SEQ, False), les)
         else if a_seq > t_seq then Inr ((tefPAST_SEQ, False), les)
         else let fee = getTransactionFee txn; balance = getFieldAmount txnAcct sfBalance in
           bindE (amount_less balance fee) (\<lambda>below.
             if below then Inr ((terINSUF_FEE_B, False), les)
             else bindE (amount_sub balance fee) (\<lambda>left.
               bindE (entryModify (setFieldU32 sfSequence (t_seq + 1) (setFieldAmount sfBalance left txnAcct)) les) (\<lambda>les.
                 Inr ((terResult, True), les))))))"

text \<open>The item a closed ledger stores: the transaction and its metadata (\<open>Ledger::addTransaction\<close>).\<close>

definition tx_meta_item :: "Serializer \<Rightarrow> Serializer \<Rightarrow> exn + Blob" where
  "tx_meta_item txn md = bindE (addVL (mData txn) \<lparr>mData = []\<rparr>) (\<lambda>(_, s). bindE (addVL (mData md) s) (\<lambda>(_, s). Inr (mData s)))"

definition record_open :: "uint256 \<Rightarrow> Serializer \<Rightarrow> TER \<Rightarrow> LedgerEntrySet \<Rightarrow> exn + (TER \<times> bool) \<times> LedgerEntrySet" where
  "record_open txID s terResult les = (let (added, l) = addTransaction txID (mData s) (mLedger les) in
     Inr (if added then (terResult, True) else (tefALREADY, False), les\<lparr>mLedger := l\<rparr>))"

definition record_closed :: "uint256 \<Rightarrow> SerializedTransaction \<Rightarrow> Serializer \<Rightarrow> Serializer \<Rightarrow> TER \<Rightarrow> LedgerEntrySet \<Rightarrow>
    exn + (TER \<times> bool) \<times> LedgerEntrySet" where
  "record_closed txID txn s m terResult les =
     bindE (tx_meta_item s m) (\<lambda>item. let (added, l) = addTransaction txID item (mLedger les) in
     if \<not> added then Inl (RuntimeError ''Duplicate transaction applied to closed ledger'')
     else bindE (getNValue (getTransactionFee txn)) (\<lambda>fee.
       Inr ((terResult, True), les\<lparr>mLedger := destroyCoins fee l\<rparr>)))"

definition commit :: "Env \<Rightarrow> uint256 \<Rightarrow> SerializedTransaction \<Rightarrow> u32 \<Rightarrow> TER \<Rightarrow> u32 \<Rightarrow> LedgerEntrySet \<Rightarrow>
    exn + (TER \<times> bool) \<times> LedgerEntrySet" where
  "commit env txID txn params terResult txnSeq les =
     bindE (calcRawMeta (sha512Half env) (replaySeq env) terResult txnSeq les) (\<lambda>(m, les).
     bindE (tx_add True txn \<lparr>mData = []\<rparr>) (\<lambda>s.
     bindE (if is_bit_set params tapOPEN_LEDGER then record_open txID s terResult les
            else record_closed txID txn s m terResult les) (\<lambda>((terResult, didApply), les).
       Inr ((terResult, didApply), if didApply then les\<lparr>mLedger := txnWrite les\<rparr> else les))))"

definition decide :: "Env \<Rightarrow> SerializedTransaction \<Rightarrow> u32 \<Rightarrow> TER \<Rightarrow> LedgerEntrySet \<Rightarrow> exn + (TER \<times> bool) \<times> LedgerEntrySet" where
  "decide env txn params terResult les =
     (if isTesSuccess terResult then Inr ((terResult, True), les)
      else if isTecClaim terResult \<and> \<not> is_bit_set params tapRETRY then claim_fee env txn terResult les
      else Inr ((terResult, False), les))"

definition finish :: "Env \<Rightarrow> uint256 \<Rightarrow> SerializedTransaction \<Rightarrow> u32 \<Rightarrow> u32 \<Rightarrow> (TER \<times> bool) \<times> LedgerEntrySet \<Rightarrow>
    exn + (TER \<times> bool) \<times> LedgerEntrySet \<times> u32" where
  "finish env txID txn params txnSeq r =
     (case r of ((terResult, didApply), les) \<Rightarrow>
        if \<not> didApply then Inr ((terResult, False), les, txnSeq)
        else if \<not> checkInvariants terResult txn params then Inr ((tefINTERNAL, False), les, txnSeq)
        else bindE (commit env txID txn params terResult txnSeq les) (\<lambda>(r, les). Inr (r, les, txnSeq + 1)))"

definition applyTransaction :: "transactor_class \<Rightarrow> Env \<Rightarrow> SerializedTransaction \<Rightarrow> u32 \<Rightarrow> TransactionEngine \<Rightarrow>
    exn + (TER \<times> bool) \<times> SerializedTransaction \<times> TransactionEngine" where
  "applyTransaction OfferCreateTransactor env txn params eng =
     bindE (getTransactionID (sha512Half env) txn) (\<lambda>txID.
     let les = init (engLedger eng) txID (mLedgerSeq (engLedger eng)) params (mNodes eng) in
     if txID = 0 then Inr ((temINVALID, False), txn, eng\<lparr>mNodes := les\<rparr>)
     else case makeTransactor OfferCreateTransactor (mTxType txn) of
       None \<Rightarrow> Inr ((temUNKNOWN, False), txn, eng\<lparr>mNodes := les\<rparr>)
     | Some cls \<Rightarrow>
         bindE (apply_tx cls env (newTransactor txn params (mClosingLedger eng), les)) (\<lambda>(terResult, (tr, les)).
         bindE (decide env txn params terResult les) (\<lambda>r.
         bindE (finish env txID txn params (mTxnSeq eng) r) (\<lambda>(r, les, txnSeq).
           Inr (r, mTxn tr, eng\<lparr>engLedger := mLedger les, mNodes := clear les, mTxnSeq := txnSeq,
             engEvents := engEvents eng @ mAppEvents tr\<rparr>)))))"

end
