(* ===== verification/Transactor_Frames.thy ===== *)
theory Transactor_Frames
  imports Transactors
begin

text \<open>
  What the operations of the transactors leave alone. A calculus of partial correctness (\<open>holds\<close>) carries
  two frame properties through every operation of the entry set, of directories, offers and trust
  lines, and then through every transactor: \<open>kept\<close>, the ledger below the entry set is the same, and
  \<open>quiet\<close>, moreover nothing is marked as changed. They are the contract of a class of transactors with
  the engine (\<open>transactor_contract\<close>), which every modelled class fulfils.
\<close>

section \<open>What the operations leave alone\<close>

text \<open>
  \<open>holds r Q\<close>: if the code returns, its result satisfies \<open>Q\<close>. \<open>kept les les'\<close>: the ledger below the entry
  set, its parameters and its metadata are the same.
\<close>

definition holds :: "exn + 'a \<Rightarrow> ('a \<Rightarrow> bool) \<Rightarrow> bool" where
  "holds r Q \<longleftrightarrow> (\<forall>x. r = Inr x \<longrightarrow> Q x)"

lemma holds_simps [simp]: "holds (Inr x) Q = Q x" "holds (Inl e) Q"
  "holds (bindE r f) Q = holds r (\<lambda>x. holds (f x) Q)"
  by (auto simp: holds_def exn_simps)

lemma holds_mono: "holds r P \<Longrightarrow> (\<And>x. P x \<Longrightarrow> Q x) \<Longrightarrow> holds r Q"
  by (auto simp: holds_def)

lemma holdsD: "holds r Q \<Longrightarrow> r = Inr x \<Longrightarrow> Q x"
  by (simp add: holds_def)

definition kept :: "LedgerEntrySet \<Rightarrow> LedgerEntrySet \<Rightarrow> bool" where
  "kept a b \<longleftrightarrow> mLedger b = mLedger a \<and> mSet b = mSet a \<and> mParams b = mParams a"

lemma kept_refl [simp]: "kept les les" by (simp add: kept_def)

lemma kept_trans: "kept a b \<Longrightarrow> kept b c \<Longrightarrow> kept a c" by (simp add: kept_def)

lemma kept_put [simp]: "kept a (put_entry i sle x les) = kept a les"
  by (simp add: kept_def put_entry_def)

lemma kept_poke [simp]: "kept a (poke sle les) = kept a les"
  by (simp add: kept_def poke_def split: option.split)

lemma kept_erase [simp]: "kept a (les\<lparr>mEntries := x\<rparr>) = kept a les"
  by (simp add: kept_def)

named_theorems frame \<open>operations that keep the ledger\<close>

lemma getEntry_kept: "getEntry i les = (r, les') \<Longrightarrow> kept a les' = kept a les"
  by (auto simp: getEntry_def split: option.splits if_splits)

lemma entryCache_kept [frame]: "kept a les \<Longrightarrow> holds (entryCache lt i les) (\<lambda>r. kept a (snd r))"
  by (auto simp: entryCache_def entryCache_sle_def Let_def getEntry_kept split: prod.split option.split)

lemma entryCreate_kept [frame]: "kept a les \<Longrightarrow> holds (entryCreate lt i les) (\<lambda>r. kept a (snd r))"
  by (auto simp: entryCreate_def entryCreate_sle_def Let_def split: option.split LedgerEntryAction.split)

lemma entryModify_kept [frame]: "kept a les \<Longrightarrow> holds (entryModify sle les) (kept a)"
  by (auto simp: entryModify_def split: option.split LedgerEntryAction.split)

lemma entryDelete_kept [frame]: "kept a les \<Longrightarrow> holds (entryDelete sle les) (kept a)"
  by (auto simp: entryDelete_def split: option.split LedgerEntryAction.split)

lemma nonnull_kept [frame]: "kept a (snd r) \<Longrightarrow> holds (nonnull r) (\<lambda>r. kept a (snd r))"
  by (auto simp: nonnull_def split: option.split)

text \<open>Sequencing: the frame of the first part, then of the rest.\<close>

lemma frame_step: "holds r (\<lambda>x. kept a (snd x)) \<Longrightarrow> (\<And>x les. kept a les \<Longrightarrow> Q (x, les)) \<Longrightarrow> holds r Q"
  by (auto simp: holds_def)

lemma frame_step1: "holds r (kept a) \<Longrightarrow> (\<And>les. kept a les \<Longrightarrow> Q les) \<Longrightarrow> holds r Q"
  by (rule holds_mono)

lemmas frame_rules = entryCache_kept [THEN frame_step] entryCreate_kept [THEN frame_step]
  entryModify_kept [THEN frame_step1] entryDelete_kept [THEN frame_step1] nonnull_kept [THEN frame_step]

lemma dirAdd_kept [frame]: "kept a les \<Longrightarrow> holds (dirAdd h rt i d les) (\<lambda>r. kept a (snd r))"
  by (auto simp: dirAdd_def Let_def split: option.split intro!: frame_rules)

lemma dirIsEmpty_kept [frame]: "kept a les \<Longrightarrow> holds (dirIsEmpty h rt les) (\<lambda>r. kept a (snd r))"
  by (auto simp: dirIsEmpty_def split: option.split intro!: frame_rules)

lemma drop_page_kept [frame]: "kept a les \<Longrightarrow> holds (drop_page h k n rt sle les) (\<lambda>r. kept a (snd r))"
  by (auto simp: drop_page_def Let_def split: option.split intro!: frame_rules)

lemma dirDelete_kept [frame]: "kept a les \<Longrightarrow> holds (dirDelete h k n rt i st so les) (\<lambda>r. kept a (snd r))"
proof (induction h k n rt i st so les rule: dirDelete.induct)
  case (1 h k n rt i st so les)
  show ?case
    by (subst dirDelete.simps)
      (auto simp: Let_def 1 split: option.split intro!: frame_rules drop_page_kept)
qed

lemma ownerCountAdjust_kept [frame]: "kept a les \<Longrightarrow> holds (ownerCountAdjust h o' n sle les) (kept a)"
  by (auto simp: ownerCountAdjust_def Let_def split: option.split intro!: frame_rules entryModify_kept)

lemma offerDelete_sle_kept [frame]: "kept a les \<Longrightarrow> holds (offerDelete_sle h sle les) (\<lambda>r. kept a (snd r))"
  by (auto simp: offerDelete_sle_def Let_def split: option.split
      intro!: frame_rules dirDelete_kept [THEN frame_step] ownerCountAdjust_kept [THEN frame_step1])

lemma offerDelete_kept [frame]: "kept a les \<Longrightarrow> holds (offerDelete h i les) (\<lambda>r. kept a (snd r))"
  by (auto simp: offerDelete_def split: option.split intro!: frame_rules offerDelete_sle_kept)

lemma trustDelete_kept [frame]: "kept a les \<Longrightarrow> holds (trustDelete h sle lo hi les) (\<lambda>r. kept a (snd r))"
  by (auto simp: trustDelete_def Let_def intro!: frame_rules dirDelete_kept [THEN frame_step])

lemma holds_pure: "(\<And>x. Q x) \<Longrightarrow> holds r Q"
  by (simp add: holds_def)

lemma trustCreate_kept [frame]: "kept a les \<Longrightarrow> holds (trustCreate h b s d i sle au nr sb sl qi qo les) (\<lambda>r. kept a (snd r))"
  by (auto simp: trustCreate_def Let_def intro!: frame_rules dirAdd_kept [THEN frame_step]
      ownerCountAdjust_kept [THEN frame_step1] holds_pure [of _ "mkAmount _ _ _ _ _"])

text \<open>
  \<open>quiet\<close>: moreover nothing in the entry set is marked as changed that was not before. The checks of a
  transactor are quiet: they write the new sequence number and balance into the cached entry, but
  leave it to \<open>apply\<close> to mark the entry as modified.
\<close>

definition quiet :: "LedgerEntrySet \<Rightarrow> LedgerEntrySet \<Rightarrow> bool" where
  "quiet a b \<longleftrightarrow> kept a b \<and> (hasChanges b \<longrightarrow> hasChanges a)"

lemma quiet_refl [simp]: "quiet les les" by (simp add: quiet_def)

lemma quiet_trans: "quiet a b \<Longrightarrow> quiet b c \<Longrightarrow> quiet a c" by (auto simp: quiet_def intro: kept_trans)

lemma hasChanges_put: "hasChanges (put_entry i sle x les) \<Longrightarrow> x = taaCACHED \<Longrightarrow> hasChanges les"
  using set_map_put [of i "\<lparr>mEntry = sle, mAction = x, mEntrySeq = mSeq les\<rparr>" "mEntries les"]
  by (auto simp: hasChanges_def put_entry_def)

lemma hasChanges_poke: "hasChanges (poke sle les) \<Longrightarrow> hasChanges les"
proof (cases "map_of (mEntries les) (mIndex sle)")
  case (Some e)
  assume "hasChanges (poke sle les)"
  then show ?thesis
    using Some set_map_put [of "mIndex sle" "e\<lparr>mEntry := sle\<rparr>" "mEntries les"] map_of_SomeD [OF Some]
    by (auto simp: hasChanges_def poke_def) force+
qed (simp add: poke_def)

lemma quiet_poke [simp]: "quiet a les \<Longrightarrow> quiet a (poke sle les)"
  by (auto simp: quiet_def dest: hasChanges_poke)

lemma getEntry_changes: "getEntry i les = (r, les') \<Longrightarrow> hasChanges les' \<Longrightarrow> hasChanges les"
proof -
  assume r: "getEntry i les = (r, les')" and c: "hasChanges les'"
  show ?thesis
  proof (cases "map_of (mEntries les) i")
    case (Some e)
    then have "mAction e = taaCACHED \<or> hasChanges les" using map_of_SomeD [OF Some] by (force simp: hasChanges_def)
    then show ?thesis using r c Some by (auto simp: getEntry_def dest: hasChanges_put split: if_splits)
  qed (use r c in \<open>simp add: getEntry_def\<close>)
qed

lemma entryCache_quiet: "quiet a les \<Longrightarrow> holds (entryCache lt i les) (\<lambda>r. quiet a (snd r))"
  by (auto simp: quiet_def entryCache_def entryCache_sle_def Let_def getEntry_kept
      dest: getEntry_changes hasChanges_put split: prod.split option.split)

lemma quiet_step: "holds r (\<lambda>x. quiet a (snd x)) \<Longrightarrow> (\<And>x les. quiet a les \<Longrightarrow> Q (x, les)) \<Longrightarrow> holds r Q"
  by (auto simp: holds_def)

text \<open>The same for the state of a transactor; what it knows of the engine stays.\<close>

definition quiet_st :: "tx_state \<Rightarrow> tx_state \<Rightarrow> bool" where
  "quiet_st a b \<longleftrightarrow> quiet (snd a) (snd b) \<and> mEngineClosing (fst b) = mEngineClosing (fst a)"

lemma quiet_st_refl [simp]: "quiet_st st st" by (simp add: quiet_st_def)

lemma quiet_st_pair: "quiet_st a (tr, les) \<longleftrightarrow> quiet (snd a) les \<and> mEngineClosing tr = mEngineClosing (fst a)"
  by (simp add: quiet_st_def)

lemma quiet_st_trans: "quiet_st a b \<Longrightarrow> quiet_st b c \<Longrightarrow> quiet_st a c"
  by (auto simp: quiet_st_def intro: quiet_trans)

lemma upd_account_quiet: "quiet_st a st \<Longrightarrow> holds (upd_account f st) (quiet_st a)"
  by (auto simp: upd_account_def txn_account_def quiet_st_def split: option.split)

lemma upd_account_step: "quiet_st a st \<Longrightarrow> (\<And>st. quiet_st a st \<Longrightarrow> Q st) \<Longrightarrow> holds (upd_account f st) Q"
  by (rule holds_mono [OF upd_account_quiet])

definition quiet_method :: "tx_method \<Rightarrow> bool" where
  "quiet_method m \<longleftrightarrow> (\<forall>env st. holds (m env st) (\<lambda>r. quiet_st st (snd r)))"

lemma quiet_methodD: "quiet_method m \<Longrightarrow> holds (m env st) (\<lambda>r. quiet_st st (snd r))"
  unfolding quiet_method_def by blast

lemma payFee_quiet: "quiet_method payFee"
  by (auto simp: quiet_method_def payFee_def Let_def intro!: holds_pure [of _ "amount_less _ _"] holds_pure [of _ "amount_sub _ _"]
      upd_account_step) (simp_all add: quiet_st_def)

lemma checkSeq_quiet: "quiet_method checkSeq"
  by (auto simp: quiet_method_def checkSeq_def Let_def intro!: holds_pure [of _ "txn_account _"] holds_pure [of _ "expected_seq _ _"]
      holds_pure [of _ "getTransactionID _ _"] upd_account_step upd_account_quiet)

lemma checkSig_quiet: "quiet_method checkSig"
  by (auto simp: quiet_method_def checkSig_def Let_def quiet_st_def intro!: holds_pure [of _ "txn_account _"] holds_pure [of _ "signing_account _ _"])

lemma TrustSet_checkSig_quiet: "quiet_method TrustSet_checkSig"
  using checkSig_quiet
  by (auto simp: quiet_method_def TrustSet_checkSig_def intro!: holds_pure [of _ "txn_account _"] holds_pure [of _ "signing_account _ _"])

lemma simple_quiet: "quiet_method precheckAgainstLedger" "quiet_method Change_checkSeq" "quiet_method Change_payFee"
  "quiet_method Change_checkSig" "quiet_method Inflation_checkSig" "quiet_method Inflation_precheckAgainstLedger"
  "quiet_method Inflation_payFee"
  using payFee_quiet
  by (auto simp: quiet_method_def precheckAgainstLedger_def Change_checkSeq_def Change_payFee_def Change_checkSig_def
      Inflation_checkSig_def Inflation_precheckAgainstLedger_def Inflation_payFee_def Let_def)

lemma on_les_holds: "holds (f (snd st)) (\<lambda>r. Q (fst r, (fst st, snd r))) \<Longrightarrow> holds (on_les f st) Q"
  by (auto simp: on_les_def case_prod_unfold)

lemma entryCache_nonnull_quiet:
  "quiet a les \<Longrightarrow> (\<And>x les. quiet a les \<Longrightarrow> Q (x, les)) \<Longrightarrow> holds (entryCache lt i les) (\<lambda>r. holds (nonnull r) Q)"
  by (rule quiet_step [OF entryCache_quiet]) (auto simp: nonnull_def split: option.split)

lemma AccountMerge_precheck_quiet: "quiet_method AccountMerge_precheckAgainstLedger"
  by (auto simp: quiet_method_def AccountMerge_precheckAgainstLedger_def Let_def
      intro!: holds_pure [of _ "getAccountID _"] on_les_holds entryCache_nonnull_quiet [OF quiet_refl])
    (auto simp: quiet_st_def)

text \<open>The effects: only a success may have touched the ledger below the entry set.\<close>

definition path_engine_ok :: "Env \<Rightarrow> bool" where
  "path_engine_ok env \<longleftrightarrow> (\<forall>mx amt dst src paths pp lq nd op les.
     holds (rippleCalc env mx amt dst src paths pp lq nd op les) (\<lambda>r. mLedger (snd r) = mLedger les))"

abbreviation kept_st :: "LedgerEntrySet \<Rightarrow> tx_state \<Rightarrow> bool" where
  "kept_st a st \<equiv> kept a (snd st)"

lemma holds_ifI: "holds r Q \<Longrightarrow> holds s Q \<Longrightarrow> holds (if b then r else s) Q"
  by simp

lemma upd_account_kept: "kept_st a st \<Longrightarrow> (\<And>st. kept_st a st \<Longrightarrow> Q st) \<Longrightarrow> holds (upd_account f st) Q"
  by (auto simp: upd_account_def txn_account_def split: option.split)

lemma on_les_kept: "holds (f (snd st)) (\<lambda>r. kept a (snd r)) \<Longrightarrow> (\<And>x st. kept_st a st \<Longrightarrow> Q (x, st)) \<Longrightarrow> holds (on_les f st) Q"
  by (rule on_les_holds) (auto simp: holds_def)

lemma check_kept: "holds r (\<lambda>r. kept_st a (snd r)) \<Longrightarrow> (\<And>ter st. kept_st a st \<Longrightarrow> Q (ter, st)) \<Longrightarrow>
    (\<And>st. kept_st a st \<Longrightarrow> holds (f st) Q) \<Longrightarrow> holds (check r f) Q"
  by (auto simp: check_def case_prod_unfold elim!: holds_mono)

lemmas kept_rules = frame_rules upd_account_kept
  on_les_kept [OF entryCache_kept] on_les_kept [OF entryCreate_kept]
  holds_pure [of _ "amount_add _ _"] holds_pure [of _ "amount_sub _ _"] holds_pure [of _ "amount_less _ _"]
  holds_pure [of _ "amount_greater _ _"] holds_pure [of _ "amount_plus_u64 _ _"] holds_pure [of _ "getNValue _"]
  holds_pure [of _ "txn_account _"] holds_pure [of _ "getAccountID _"]

lemma AccountSet_kept: "holds (AccountSet_doApply env st) (\<lambda>r. kept_st (snd st) (snd r))"
proof -
  have 1: "holds (set_inflation_dest env s) (\<lambda>r. kept_st a (snd r))" if "kept_st a s" for a s
    using that by (auto simp: set_inflation_dest_def Let_def split: option.split intro!: kept_rules)
  have 2: "holds (set_auth_key s) (\<lambda>r. kept_st a (snd r))" if "kept_st a s" for a s
    using that by (auto simp: set_auth_key_def Let_def intro!: kept_rules)
  have 3: "holds (set_transfer_rate s) (\<lambda>r. kept_st a (snd r))" if "kept_st a s" for a s
    using that by (auto simp: set_transfer_rate_def Let_def intro!: kept_rules)
  have 5: "holds (set_account_fields env x y s) (\<lambda>r. kept_st a (snd r))" if "kept_st a s" for a s x y
    using that by (auto simp: set_account_fields_def intro!: kept_rules check_kept [OF 1] check_kept [OF 2] check_kept [OF 3])
  show ?thesis
    by (auto simp: AccountSet_doApply_def Let_def split: sum.split intro!: kept_rules dirIsEmpty_kept [THEN frame_step] 5)
qed

lemma RegularKeySet_kept: "holds (RegularKeySet_doApply env st) (\<lambda>r. kept_st (snd st) (snd r))"
  by (auto simp: RegularKeySet_doApply_def Let_def intro!: kept_rules)

lemma OfferCancel_kept: "holds (OfferCancel_doApply env st) (\<lambda>r. kept_st (snd st) (snd r))"
  by (auto simp: OfferCancel_doApply_def Let_def split: option.split intro!: kept_rules on_les_kept [OF offerDelete_sle_kept])

lemma WalletAdd_kept: "holds (WalletAdd_doApply env st) (\<lambda>r. kept_st (snd st) (snd r))"
  by (auto simp: WalletAdd_doApply_def Let_def split: option.split intro!: kept_rules holds_pure [of _ "verifySignature _ _ _ _"])

lemma cache_or_create_kept: "kept a les \<Longrightarrow> holds (cache_or_create lt i les) (\<lambda>r. kept a (snd r))"
  by (auto simp: cache_or_create_def split: option.split intro!: frame_rules entryCreate_kept)

lemma Change_kept: "holds (Change_doApply env st) (\<lambda>r. kept_st (snd st) (snd r))"
  by (auto simp: Change_doApply_def applyAmendment_def applyFee_def Let_def intro!: kept_rules on_les_kept [OF cache_or_create_kept])

lemma move_line_kept: "kept a les \<Longrightarrow> holds (move_line env d l les) (\<lambda>r. kept a (snd r))"
  by (auto simp: move_line_def Let_def split: option.split intro!: kept_rules)

lemma move_lines_kept: "kept a les \<Longrightarrow> holds (move_lines env x d is les) (\<lambda>r. kept a (snd r))"
  by (induction "is" arbitrary: les)
    (auto simp: Let_def split: option.split intro!: kept_rules move_line_kept [THEN frame_step] trustDelete_kept [THEN frame_step])

lemma delete_offers_kept: "kept a les \<Longrightarrow> holds (delete_offers h is les) (\<lambda>r. kept a (snd r))"
  by (induction "is" arbitrary: les) (auto intro!: offerDelete_kept [THEN frame_step])

lemma merge_balance_kept: "kept_st a st \<Longrightarrow> holds (merge_balance sle st) (kept_st a)"
  by (auto simp: merge_balance_def Let_def intro!: kept_rules)

lemma AccountMerge_kept: "holds (AccountMerge_doApply env st) (\<lambda>r. kept_st (snd st) (snd r))"
  by (auto simp: AccountMerge_doApply_def Let_def split: option.split
      intro!: kept_rules holds_pure [of _ "collect_items _ _ _"] check_kept [OF on_les_kept [OF move_lines_kept]]
        check_kept [OF on_les_kept [OF delete_offers_kept]] holds_mono [OF merge_balance_kept])
    simp_all

lemma line_reserve_kept: "kept a les \<Longrightarrow> holds (line_reserve h x sle b c f g les) (\<lambda>r. kept a (snd r))"
  by (auto simp: line_reserve_def intro!: ownerCountAdjust_kept [THEN frame_step1])

lemma write_line_kept: "kept_st a st \<Longrightarrow> holds (write_line env r b c lo hi sle st) (\<lambda>r. kept_st a (snd r))"
  by (auto simp: write_line_def intro!: kept_rules on_les_kept [OF trustDelete_kept])

lemma modify_line_kept: "kept_st a st \<Longrightarrow> holds (modify_line env r l d s st) (\<lambda>r. kept_st a (snd r))"
  unfolding modify_line_def Let_def
  by (cases "mTxnAccount (fst st)")
    (auto split del: if_split split: prod.split intro!: line_reserve_kept [THEN frame_step] write_line_kept)

lemma create_line_kept: "kept_st a st \<Longrightarrow> holds (create_line env r l st) (\<lambda>r. kept_st a (snd r))"
  by (auto simp: create_line_def Let_def intro!: kept_rules on_les_kept [OF trustCreate_kept])

lemma TrustSet_kept: "holds (TrustSet_doApply env st) (\<lambda>r. kept_st (snd st) (snd r))"
  by (auto simp: TrustSet_doApply_def Let_def split: option.split
      intro!: kept_rules on_les_kept [OF trustDelete_kept] modify_line_kept create_line_kept)
    simp_all

lemma payment_destination_kept: "kept_st a st \<Longrightarrow> holds (payment_destination env st) (\<lambda>r. kept_st a (snd r))"
  by (auto simp: payment_destination_def Let_def split: option.split intro!: kept_rules)

lemma direct_payment_kept: "kept_st a st \<Longrightarrow> holds (direct_payment sle env st) (\<lambda>r. kept_st a (snd r))"
  by (auto simp: direct_payment_def Let_def intro!: kept_rules)

lemma ripple_payment_ledger:
  "path_engine_ok env \<Longrightarrow> kept_st a st \<Longrightarrow> holds (ripple_payment mx env st) (\<lambda>r. mLedger (snd (snd r)) = mLedger a)"
  by (auto simp: ripple_payment_def path_engine_ok_def holds_def Let_def kept_def setDeliveredAmount_def split: sum.split prod.split)

lemma st_step: "holds r (\<lambda>x. kept_st a (snd x)) \<Longrightarrow> (\<And>x st. kept_st a st \<Longrightarrow> Q (x, st)) \<Longrightarrow> holds r Q"
  by (auto simp: holds_def)

lemma kept_ledger: "kept a b \<Longrightarrow> mLedger b = mLedger a"
  by (simp add: kept_def)

lemma Payment_ledger: "path_engine_ok env \<Longrightarrow> holds (Payment_doApply env st) (\<lambda>r. mLedger (snd (snd r)) = mLedger (snd st))"
proof -
  assume p: "path_engine_ok env"
  have d: "holds (direct_payment sle env s) (\<lambda>r. mLedger (snd (snd r)) = mLedger (snd st))" if "kept_st (snd st) s" for sle s
    by (rule holds_mono [OF direct_payment_kept [OF that]]) (simp add: kept_def)
  show ?thesis unfolding Payment_doApply_def Let_def holds_simps
    by (rule holds_pure, rule holds_ifI, simp, simp only: holds_simps, rule payment_destination_kept [OF kept_refl, THEN st_step])
      (auto split: option.split intro!: kept_ledger ripple_payment_ledger [OF p] d)
qed

lemma check_rule: "holds r P \<Longrightarrow> (\<And>t s. P (t, s) \<Longrightarrow> Q (t, s)) \<Longrightarrow> (\<And>t s. P (t, s) \<Longrightarrow> holds (f s) Q) \<Longrightarrow> holds (check r f) Q"
  unfolding check_def holds_simps by (erule holds_mono) (auto split: prod.split)

text \<open>The same ledger, up to the fee schedule it caches on first use.\<close>

definition same_ledger :: "Env \<Rightarrow> Ledger \<Rightarrow> Ledger \<Rightarrow> bool" where
  "same_ledger env l l' \<longleftrightarrow> l' = l \<or> l' = fees_read env l"

text \<open>
  What \<open>apply\<close> leaves: on a code other than success, and always when the ledger is not being closed, the
  ledger is as before; when it is not being closed nothing is marked as changed either.
\<close>

definition settled :: "Env \<Rightarrow> bool \<Rightarrow> LedgerEntrySet \<Rightarrow> TER \<times> tx_state \<Rightarrow> bool" where
  "settled env closing les r \<longleftrightarrow>
     (fst r \<noteq> tesSUCCESS \<or> \<not> closing \<longrightarrow> same_ledger env (mLedger les) (mLedger (snd (snd r)))) \<and>
     (\<not> closing \<longrightarrow> mSet (snd (snd r)) = mSet les \<and> (hasChanges (snd (snd r)) \<longrightarrow> hasChanges les))"

lemma settled_refl: "settled env c les (t, tr, les)"
  by (simp add: settled_def same_ledger_def)

text \<open>
  What a class of transactors promises the engine: its checks are quiet, and only a success of its
  effect may have touched the ledger.
\<close>

locale transactor_contract =
  fixes cls :: transactor_class
  assumes pre: "holds (vPreCheck cls env tr) (\<lambda>r. mEngineClosing (snd r) = mEngineClosing tr)"
    and seq: "quiet_method (vCheckSeq cls)" and fee: "quiet_method (vPayFee cls)" and sig: "quiet_method (vCheckSig cls)"
    and against: "quiet_method (vPrecheckAgainstLedger cls)"
    and effect: "path_engine_ok env \<Longrightarrow>
      holds (vDoApply cls env st) (\<lambda>r. fst r \<noteq> tesSUCCESS \<longrightarrow> mLedger (snd (snd r)) = mLedger (snd st))"
begin

lemma check_quiet: "holds r (\<lambda>r. quiet_st a (snd r)) \<Longrightarrow> (\<And>st. quiet_st a st \<Longrightarrow> holds (f st) (\<lambda>r. quiet_st a (snd r))) \<Longrightarrow>
    holds (check r f) (\<lambda>r. quiet_st a (snd r))"
  by (auto simp: check_def case_prod_unfold elim!: holds_mono)

lemma quiet_after: "quiet_method m \<Longrightarrow> quiet_st a st \<Longrightarrow> holds (m env st) (\<lambda>r. quiet_st a (snd r))"
  by (rule holds_mono [OF quiet_methodD]) (auto intro: quiet_st_trans)

lemma checks_quiet: "quiet_st a st \<Longrightarrow> holds (apply_checks cls env st) (\<lambda>r. quiet_st a (snd r))"
  unfolding apply_checks_def by (intro check_quiet quiet_after seq fee sig against)

lemma load_account_quiet: "quiet_st a st \<Longrightarrow> quiet_st a (load_account st)"
  by (simp add: load_account_def Let_def quiet_st_def split: option.split)

lemma effect_ledger:
  "path_engine_ok env \<Longrightarrow> holds (apply_effect cls env st) (\<lambda>r.
     (if mEngineClosing (fst st) then fst r \<noteq> tesSUCCESS \<longrightarrow> mLedger (snd (snd r)) = mLedger (snd st) else r = (tesSUCCESS, st)))"
proof -
  assume p: "path_engine_ok env"
  have "holds (vDoApply cls env s) (\<lambda>r. fst r \<noteq> tesSUCCESS \<longrightarrow> mLedger (snd (snd r)) = mLedger (snd st))"
    if "kept_st (snd st) s" for s
    using effect [OF p, of s] kept_ledger [OF that] by simp
  then show ?thesis
    by (auto simp: apply_effect_def split: option.split intro!: frame_step1 [OF entryModify_kept [OF kept_refl [of "snd st"]]])
qed

lemma apply_tx_ledger:
  assumes p: "path_engine_ok env"
  shows "holds (apply_tx cls env (tr, les)) (settled env (mEngineClosing tr) les)"
proof -
  have fin: "holds (check (apply_checks cls env (load_account (tr3, les3))) (apply_effect cls env)) (settled env (mEngineClosing tr) les)"
    if l3: "mLedger les3 = fees_read env (mLedger les)" "mSet les3 = mSet les" "hasChanges les3 \<longrightarrow> hasChanges les"
      and c: "mEngineClosing tr3 = mEngineClosing tr" for tr3 les3
  proof -
    have "holds (apply_effect cls env s) (settled env (mEngineClosing tr) les)" if "quiet_st (tr3, les3) s" for s
      by (rule holds_mono [OF effect_ledger [OF p]])
        (use that l3 c in \<open>auto simp: settled_def same_ledger_def quiet_st_def quiet_def kept_def split: if_splits\<close>)
    moreover have "settled env (mEngineClosing tr) les (t, s)" if "quiet_st (tr3, les3) s" for t s
      using that l3 c by (auto simp: settled_def same_ledger_def quiet_st_def quiet_def kept_def)
    ultimately show ?thesis
      by (intro check_rule [OF checks_quiet [OF load_account_quiet [OF quiet_st_refl]]]) auto
  qed
  have cached: "holds (calculateFee cls env (tr2, les2)) (\<lambda>st. holds (if mTxnAccount (fst st) = None \<and> vMustHaveValidAccount cls
      then Inr (terNO_ACCOUNT, st) else check (apply_checks cls env (load_account st)) (apply_effect cls env)) (settled env (mEngineClosing tr) les))"
    if q: "quiet les les2" and c: "mEngineClosing tr2 = mEngineClosing tr" for tr2 les2
  proof -
    define st where "st base = (tr2\<lparr>mFeeDue := mkNative (ledgerScaleFeeLoad (sha512Half env) (config env) (feeTrack env) (mLedger les2) base
       (is_bit_set (mTxnParams tr2) tapADMIN)) False\<rparr>, les2\<lparr>mLedger := fees_read env (mLedger les2)\<rparr>)" for base
    have "holds (check (apply_checks cls env (load_account (st base))) (apply_effect cls env)) (settled env (mEngineClosing tr) les)" for base
      unfolding st_def by (rule fin) (use q c in \<open>auto simp: quiet_def kept_def hasChanges_def\<close>)
    moreover have "settled env (mEngineClosing tr) les (t, st base)" for t base
      using q by (auto simp: st_def settled_def same_ledger_def quiet_def kept_def hasChanges_def)
    ultimately show ?thesis unfolding calculateFee_def holds_simps fst_conv snd_conv st_def [symmetric]
      by - (rule holds_pure, simp)
  qed
  have go: "holds (case r of (t, tr) \<Rightarrow> if t \<noteq> tesSUCCESS then Inr (t, (tr, les))
      else bindE (entryCache ltACCOUNT_ROOT (getAccountRootIndex (sha512Half env) (mTxnAccountID tr)) les) (\<lambda>(sle, les).
        bindE (calculateFee cls env (tr\<lparr>mTxnAccount := sle\<rparr>, les)) (\<lambda>st. if mTxnAccount (fst st) = None \<and> vMustHaveValidAccount cls
          then Inr (terNO_ACCOUNT, st) else check (apply_checks cls env (load_account st)) (apply_effect cls env))))
      (settled env (mEngineClosing tr) les)" if c: "mEngineClosing (snd r) = mEngineClosing tr" for r
    by (cases r) (simp only: prod.case, rule holds_ifI, simp add: settled_refl, simp only: holds_simps,
        rule quiet_step [OF entryCache_quiet [OF quiet_refl]], simp only: prod.case holds_simps, rule cached, use c in simp_all)
  show ?thesis unfolding apply_tx_def holds_simps fst_conv snd_conv by (rule holds_mono [OF pre]) (rule go)
qed

end

lemma preCheck_closing: "holds (preCheck env tr) (\<lambda>r. mEngineClosing (snd r) = mEngineClosing tr)"
  "holds (Change_preCheck env tr) (\<lambda>r. mEngineClosing (snd r) = mEngineClosing tr)"
  by (auto simp: preCheck_def Change_preCheck_def Let_def intro!: holds_pure [of _ "getAccountID _"])

lemma kept_effect:
  "holds (m env st) (\<lambda>r. kept_st (snd st) (snd r)) \<Longrightarrow>
    holds (m env st) (\<lambda>r. fst r \<noteq> tesSUCCESS \<longrightarrow> mLedger (snd (snd r)) = mLedger (snd st))"
  by (erule holds_mono) (simp add: kept_def)

lemma Inflation_success: "holds (Inflation_doApply env st) (\<lambda>r. fst r = tesSUCCESS)"
  by (auto simp: Inflation_doApply_def Let_def case_prod_unfold intro!: holds_pure [of _ "dole _ _ _ _ _"])

lemmas class_defs = base_class_def PaymentTransactor_def AccountSetTransactor_def OfferCancelTransactor_def WalletAddTransactor_def
  RegularKeySetTransactor_def TrustSetTransactor_def AccountMergeTransactor_def InflationTransactor_def ChangeTransactor_def

lemmas class_quiet = preCheck_closing payFee_quiet checkSeq_quiet checkSig_quiet TrustSet_checkSig_quiet simple_quiet AccountMerge_precheck_quiet

interpretation payment: transactor_contract PaymentTransactor
  by unfold_locales (auto simp: class_defs class_quiet elim: holds_mono [OF Payment_ledger])

interpretation account_set: transactor_contract AccountSetTransactor
  by unfold_locales (auto simp: class_defs class_quiet intro!: kept_effect AccountSet_kept)

interpretation regular_key: transactor_contract RegularKeySetTransactor
  by unfold_locales (auto simp: class_defs class_quiet intro!: kept_effect RegularKeySet_kept)

interpretation offer_cancel: transactor_contract OfferCancelTransactor
  by unfold_locales (auto simp: class_defs class_quiet intro!: kept_effect OfferCancel_kept)

interpretation wallet_add: transactor_contract WalletAddTransactor
  by unfold_locales (auto simp: class_defs class_quiet intro!: kept_effect WalletAdd_kept)

interpretation trust_set: transactor_contract TrustSetTransactor
  by unfold_locales (auto simp: class_defs class_quiet intro!: kept_effect TrustSet_kept)

interpretation account_merge: transactor_contract AccountMergeTransactor
  by unfold_locales (auto simp: class_defs class_quiet intro!: kept_effect AccountMerge_kept)

interpretation inflation: transactor_contract InflationTransactor
  by unfold_locales (auto simp: class_defs class_quiet intro!: holds_mono [OF Inflation_success])

interpretation change: transactor_contract ChangeTransactor
  by unfold_locales (auto simp: class_defs class_quiet intro!: kept_effect Change_kept)

lemma makeTransactor_contract:
  "makeTransactor oc t = Some cls \<Longrightarrow> t \<noteq> ttOFFER_CREATE \<Longrightarrow> transactor_contract cls"
  by (auto simp: makeTransactor_def payment.transactor_contract_axioms account_set.transactor_contract_axioms
      regular_key.transactor_contract_axioms offer_cancel.transactor_contract_axioms wallet_add.transactor_contract_axioms
      trust_set.transactor_contract_axioms account_merge.transactor_contract_axioms inflation.transactor_contract_axioms
      change.transactor_contract_axioms split: if_splits)

end
