(* ===== verification/Engine_Laws.thy ===== *)
theory Engine_Laws
  imports Engine Transactor_Frames
begin

text \<open>
  The laws of the transaction engine: what it leaves of a transaction it does not apply, what it does to
  an open ledger, and what a transaction costs that fails.
\<close>

section \<open>Metadata of entry sets\<close>

text \<open>An entry set in which nothing is marked as changed yields no metadata and commits nothing.\<close>

lemma meta_loop_unchanged: "\<not> hasChanges les \<Longrightarrow> meta_loop h g is (les, []) = Inr (les, [])"
proof (induction "is")
  case (Cons i "is")
  have "meta_entry h g i (les, []) = Inr (les, [])"
  proof (cases "map_of (mEntries les) i")
    case (Some e)
    then have "mAction e = taaCACHED" using Cons.prems map_of_SomeD [OF Some] by (force simp: hasChanges_def)
    then show ?thesis by (simp add: meta_entry_def Some)
  qed (simp add: meta_entry_def)
  then show ?case using Cons by simp
qed simp

lemma calcRawMeta_unchanged:
  "\<not> hasChanges les \<Longrightarrow> holds (calcRawMeta h g t n les) (\<lambda>r. mLedger (snd r) = mLedger les \<and> \<not> hasChanges (snd r))"
  by (auto simp: calcRawMeta_def meta_loop_unchanged hasChanges_def intro!: holds_pure [of _ "meta_addRaw _ _ _ _"])

lemma txnWrite_unchanged:
  assumes "\<not> hasChanges les"
  shows "txnWrite les = mLedger les"
proof -
  have "fold txnWrite_entry es l = l" if "\<forall>p \<in> set es. mAction (snd p) = taaCACHED" for es l
    using that by (induction es arbitrary: l) (auto simp: txnWrite_entry_def)
  then show ?thesis using assms by (simp add: txnWrite_def hasChanges_def)
qed

section \<open>The parts of the engine\<close>

lemma fees_read_state [simp]: "mAccountStateMap (fees_read env l) = mAccountStateMap l" "mTransactionMap (fees_read env l) = mTransactionMap l"
  "mTotCoins (fees_read env l) = mTotCoins l" "mFeePool (fees_read env l) = mFeePool l" "mInflationSeq (fees_read env l) = mInflationSeq l"
  by (auto simp: fees_read_def updateFees_def Let_def split: option.splits)

lemma same_ledger_state:
  "same_ledger env l l' \<Longrightarrow> getSLE l' = getSLE l \<and> mTransactionMap l' = mTransactionMap l \<and> mTotCoins l' = mTotCoins l \<and>
     mAccountStateMap l' = mAccountStateMap l \<and> ledger_ok l' = ledger_ok l"
  by (auto simp: same_ledger_def getSLE_def ledger_ok_def)

lemma clear_simps [simp]: "mLedger (clear les) = mLedger les" "mEntries (clear les) = []" "mMetaNodes (mSet (clear les)) = []"
  by (simp_all add: clear_def meta_clear_def)

lemma clear_state: "ledger_ok (mLedger les) \<Longrightarrow> state_is (getSLE (mLedger les)) {} (mLedger les, mParams les) (clear les)"
  by (auto simp: state_is_def les_ok_def view_def clear_def fun_eq_iff)

text \<open>The source account of a transaction after its fee is paid and its sequence number used.\<close>

definition charged :: "SerializedTransaction \<Rightarrow> STAmount \<Rightarrow> SLE \<Rightarrow> SLE" where
  "charged txn left sle = setFieldU32 sfSequence (getSequence txn + 1) (setFieldAmount sfBalance left sle)"

definition claims :: "Env \<Rightarrow> SerializedTransaction \<Rightarrow> Ledger \<Rightarrow> (uint256 \<rightharpoonup> SLE) \<Rightarrow> bool" where
  "claims env txn l m \<longleftrightarrow> (\<exists>account sle left. getSourceAccount txn = Some account \<and>
     getSLE l (getAccountRootIndex (sha512Half env) account) = Some sle \<and> getFieldU32 sle sfSequence = getSequence txn \<and>
     amount_less (getFieldAmount sle sfBalance) (getTransactionFee txn) = Inr False \<and>
     amount_sub (getFieldAmount sle sfBalance) (getTransactionFee txn) = Inr left \<and>
     m = (getSLE l)(getAccountRootIndex (sha512Half env) account \<mapsto> charged txn left sle))"

lemma claim_fee_ledger: "holds (claim_fee env txn t les) (\<lambda>r. mLedger (snd r) = mLedger les \<and> mMetaNodes (mSet (snd r)) = [])"
proof -
  have k: "mLedger b = mLedger les \<and> mMetaNodes (mSet b) = []" if "kept (clear les) b" for b using that by (simp add: kept_def)
  have "holds (claim_fee env txn t les) (\<lambda>r. kept (clear les) (snd r))"
    by (auto simp: claim_fee_def Let_def split: option.split intro!: kept_rules)
  then show ?thesis by (rule holds_mono) (use k in blast)
qed

lemma getAccountID_Inr: "getAccountID a = Inr x \<Longrightarrow> a = Some x"
  by (simp add: getAccountID_def split: option.splits)

lemma claim_fee_view:
  assumes l: "ledger_ok (mLedger les)" and r: "claim_fee env txn t les = Inr ((t', True), les')"
  shows "t' = t \<and> les_ok les' \<and> mMetaNodes (mSet les') = [] \<and> mLedger les' = mLedger les \<and> claims env txn (mLedger les) (view les')"
proof -
  define i where "i a = getAccountRootIndex (sha512Half env) a" for a
  obtain a sle les1 left where a: "getSourceAccount txn = Some a" and c: "entryCache ltACCOUNT_ROOT (i a) (clear les) = Inr (Some sle, les1)"
    and s: "getFieldU32 sle sfSequence = getSequence txn" "amount_less (getFieldAmount sle sfBalance) (getTransactionFee txn) = Inr False"
      "amount_sub (getFieldAmount sle sfBalance) (getTransactionFee txn) = Inr left"
    and m: "entryModify (charged txn left sle) les1 = Inr les'" and t: "t' = t"
    using r by (auto simp: claim_fee_def charged_def i_def exn_simps Let_def split: option.splits if_splits dest!: getAccountID_Inr)
  have "i a \<noteq> 0" using c by (auto simp: entryCache_def)
  then have 1: "succeeds (entryCache ltACCOUNT_ROOT (i a) (clear les)) (\<lambda>r. fst r = getSLE (mLedger les) (i a) \<and>
      state_is (getSLE (mLedger les)) {} (mLedger les, mParams les) (snd r))"
    by (rule wp_entryCache [OF clear_state [OF l]]) simp
  then have g: "getSLE (mLedger les) (i a) = Some sle" and st: "state_is (getSLE (mLedger les)) {} (mLedger les, mParams les) les1"
    using c by simp_all
  have ix: "mIndex (charged txn left sle) = i a" using state_is_index [OF st g] by (simp add: charged_def)
  have "succeeds (entryModify (charged txn left sle) les1) (\<lambda>les'. les_ok les' \<and> view les' = (getSLE (mLedger les))(i a \<mapsto> charged txn left sle))"
    by (rule wp_entryModify [OF st ix]) (simp_all add: g state_is_def)
  then have "les_ok les'" "view les' = (getSLE (mLedger les))(i a \<mapsto> charged txn left sle)" using m by simp_all
  moreover have "mLedger les' = mLedger les \<and> mMetaNodes (mSet les') = []" using holdsD [OF claim_fee_ledger r] by simp
  ultimately show ?thesis using a g s t by (auto simp: claims_def i_def)
qed

text \<open>
  The commit in an open ledger: the transaction is added to the transaction tree, and what the entry
  set has marked as changed is written; a transaction that is already there changes nothing.
\<close>

lemma record_open_cases:
  "record_open txID s t les = Inr ((t', ok), les') \<Longrightarrow>
    (if hasTransaction (mLedger les) txID then \<not> ok \<and> t' = tefALREADY \<and> mLedger les' = mLedger les
     else ok \<and> t' = t \<and> les' = les\<lparr>mLedger := (mLedger les)\<lparr>mTransactionMap := map_put txID (mData s) (mTransactionMap (mLedger les))\<rparr>\<rparr>)"
  by (auto simp: record_open_def addTransaction_def split: if_splits)

lemma record_closed_cases:
  "record_closed txID txn s m t les = Inr ((t', ok), les') \<Longrightarrow> ok \<and> t' = t \<and> \<not> hasTransaction (mLedger les) txID \<and>
    (\<exists>item fee. tx_meta_item s m = Inr item \<and> getNValue (getTransactionFee txn) = Inr fee \<and>
      les' = les\<lparr>mLedger := destroyCoins fee ((mLedger les)\<lparr>mTransactionMap := map_put txID item (mTransactionMap (mLedger les))\<rparr>)\<rparr>)"
  by (auto simp: record_closed_def addTransaction_def exn_simps split: if_splits)

lemma commit_cases:
  assumes "commit env txID txn params t n les = Inr ((t', ok), les')"
  obtains m les1 s les2 where "calcRawMeta (sha512Half env) (replaySeq env) t n les = Inr (m, les1)"
    "tx_add True txn \<lparr>mData = []\<rparr> = Inr s" "les' = (if ok then les2\<lparr>mLedger := txnWrite les2\<rparr> else les2)"
    "(if is_bit_set params tapOPEN_LEDGER then record_open txID s t les1 else record_closed txID txn s m t les1) = Inr ((t', ok), les2)"
  using assms unfolding commit_def by (auto simp: exn_simps split del: if_split)

lemma commit_not_applied:
  assumes r: "commit env txID txn params t n les = Inr ((t', False), les')"
    and c: "\<not> hasChanges les \<or> les_ok les \<and> mMetaNodes (mSet les) = []"
  shows "is_bit_set params tapOPEN_LEDGER \<and> hasTransaction (mLedger les) txID \<and> mLedger les' = mLedger les"
proof -
  obtain m les1 s where m: "calcRawMeta (sha512Half env) (replaySeq env) t n les = Inr (m, les1)"
    and b: "(if is_bit_set params tapOPEN_LEDGER then record_open txID s t les1 else record_closed txID txn s m t les1) = Inr ((t', False), les')"
    by (rule commit_cases [OF r]) simp
  have "mLedger les1 = mLedger les" using c holdsD [OF calcRawMeta_unchanged m] calcRawMeta_threads [OF _ _ m] by auto
  then show ?thesis using b by (auto dest!: record_open_cases record_closed_cases split: if_splits)
qed

lemma commit_open_unchanged:
  assumes r: "commit env txID txn params t n les = Inr ((t', True), les')" and o: "is_bit_set params tapOPEN_LEDGER" and c: "\<not> hasChanges les"
  shows "t' = t \<and> \<not> hasTransaction (mLedger les) txID \<and> (\<exists>s. tx_add True txn \<lparr>mData = []\<rparr> = Inr s \<and>
    mLedger les' = (mLedger les)\<lparr>mTransactionMap := map_put txID (mData s) (mTransactionMap (mLedger les))\<rparr>)"
proof -
  obtain m les1 s les2 where m: "calcRawMeta (sha512Half env) (replaySeq env) t n les = Inr (m, les1)"
    and s: "tx_add True txn \<lparr>mData = []\<rparr> = Inr s" and w: "mLedger les' = txnWrite les2"
    and b: "record_open txID s t les1 = Inr ((t', True), les2)"
    by (rule commit_cases [OF r]) (use o in simp)
  have l: "mLedger les1 = mLedger les" "\<not> hasChanges les1" using holdsD [OF calcRawMeta_unchanged [OF c] m] by auto
  have b': "t' = t" "\<not> hasTransaction (mLedger les1) txID"
    "les2 = les1\<lparr>mLedger := (mLedger les1)\<lparr>mTransactionMap := map_put txID (mData s) (mTransactionMap (mLedger les1))\<rparr>\<rparr>"
    using record_open_cases [OF b] by (auto split: if_splits)
  have "\<not> hasChanges les2" using l by (simp add: b' hasChanges_def)
  then show ?thesis using s b' l w by (simp add: txnWrite_unchanged)
qed

lemma applyTransaction_cases:
  assumes "applyTransaction oc env txn params eng = Inr ((t, ok), txn', eng')"
  obtains (early) "\<not> ok" "engLedger eng' = engLedger eng"
  | (run) txID cls t1 tr les1 r les2 n where "getTransactionID (sha512Half env) txn = Inr txID"
    "makeTransactor oc (mTxType txn) = Some cls"
    "apply_tx cls env (newTransactor txn params (mClosingLedger eng),
       init (engLedger eng) txID (mLedgerSeq (engLedger eng)) params (mNodes eng)) = Inr (t1, (tr, les1))"
    "decide env txn params t1 les1 = Inr r" "finish env txID txn params (mTxnSeq eng) r = Inr ((t, ok), les2, n)"
    "engLedger eng' = mLedger les2"
proof -
  obtain txID where id: "getTransactionID (sha512Half env) txn = Inr txID"
    using assms by (cases "getTransactionID (sha512Half env) txn") (simp_all add: applyTransaction_def)
  define les0 where "les0 = init (engLedger eng) txID (mLedgerSeq (engLedger eng)) params (mNodes eng)"
  show thesis
  proof (cases "txID = 0 \<or> makeTransactor oc (mTxType txn) = None")
    case True
    then have "\<not> ok \<and> engLedger eng' = engLedger eng"
      using assms by (auto simp: applyTransaction_def id Let_def split: if_splits)
    then show thesis using early by blast
  next
    case False
    then obtain cls where c: "makeTransactor oc (mTxType txn) = Some cls" and nz: "txID \<noteq> 0" by auto
    obtain t1 tr les1 d les2 n where "apply_tx cls env (newTransactor txn params (mClosingLedger eng), les0) = Inr (t1, (tr, les1))"
      "decide env txn params t1 les1 = Inr d" "finish env txID txn params (mTxnSeq eng) d = Inr ((t, ok), les2, n)"
      "engLedger eng' = mLedger les2"
      using assms nz unfolding applyTransaction_def id bindE.simps Let_def c les0_def [symmetric] option.case
      by (simp add: bindE_eq_Inr case_prod_unfold) force
    then show thesis using run [OF id c] by (simp add: les0_def)
  qed
qed

lemma finish_cases:
  "finish env txID txn params n ((t, d), les) = Inr ((t', ok), les', n') \<Longrightarrow>
    if d then commit env txID txn params t n les = Inr ((t', ok), les') else \<not> ok \<and> t' = t \<and> les' = les"
  by (auto simp: finish_def checkInvariants_def exn_simps split: if_splits)

lemma commit_not_applied_open: "commit env txID txn params t n les = Inr ((t', False), les') \<Longrightarrow> is_bit_set params tapOPEN_LEDGER"
  by (erule commit_cases) (auto dest: record_closed_cases split: if_splits)

lemma newTransactor_closing [simp]: "mEngineClosing (newTransactor txn params c) = c"
  by (simp add: newTransactor_def)

lemma init_simps [simp]: "mLedger (init l i q p les) = l" "\<not> hasChanges (init l i q p les)" "mMetaNodes (mSet (init l i q p les)) = []"
  by (simp_all add: init_def hasChanges_def meta_init_def)

lemma settled_run:
  assumes "path_engine_ok env" "mTxType txn \<noteq> ttOFFER_CREATE" "makeTransactor oc (mTxType txn) = Some cls"
    "apply_tx cls env (newTransactor txn params closing, init l txID q params nodes) = Inr (t1, (tr, les1))"
  shows "settled env closing (init l txID q params nodes) (t1, (tr, les1))"
  using holdsD [OF transactor_contract.apply_tx_ledger [OF makeTransactor_contract [OF assms(3,2)] assms(1)] assms(4)] by simp

lemma rejected_run:
  assumes st: "settled env closing (init l txID q params nodes) (t1, (tr, les1))"
    and co: "closing \<longrightarrow> \<not> is_bit_set params tapOPEN_LEDGER" and ok: "ledger_ok l"
    and dd: "decide env txn params t1 les1 = Inr d" and ff: "finish env txID txn params n d = Inr ((ter, False), les2, n')"
  shows "same_ledger env l (mLedger les2)"
proof -
  obtain t2 o2 les where d: "d = ((t2, o2), les)" using prod.exhaust by metis
  have fin: "if o2 then commit env txID txn params t2 n les = Inr ((ter, False), les2) else les2 = les"
    using finish_cases ff d by (auto split: if_splits)
  show ?thesis
  proof (cases "isTesSuccess t1")
    case True
    then have c: "commit env txID txn params t1 n les1 = Inr ((ter, False), les2)"
      using dd d fin by (simp add: decide_def)
    show ?thesis
    proof (cases closing)
      case True
      then show ?thesis using commit_not_applied_open [OF c] co by simp
    qed (use st commit_not_applied [OF c] in \<open>simp add: settled_def\<close>)
  next
    case False
    then have sl: "same_ledger env l (mLedger les1)" using st by (simp add: settled_def isTesSuccess_def)
    show ?thesis
    proof (cases "isTecClaim t1 \<and> \<not> is_bit_set params tapRETRY")
      case True
      then have cf: "claim_fee env txn t1 les1 = Inr ((t2, o2), les)" using dd d \<open>\<not> isTesSuccess t1\<close> by (simp add: decide_def)
      have l: "mLedger les = mLedger les1" using holdsD [OF claim_fee_ledger cf] by simp
      have "o2 \<Longrightarrow> mLedger les2 = mLedger les"
        using commit_not_applied claim_fee_view cf fin same_ledger_state [OF sl] ok by (metis (full_types))
      then show ?thesis using sl l fin by (auto split: if_splits)
    qed (use sl dd d fin False in \<open>auto simp: decide_def split: if_splits\<close>)
  qed
qed

text \<open>
  C2. A transaction that is not applied leaves no trace. Whatever the type of a transaction (other than the
  creation of an offer) and whatever the state of the engine, when \<open>applyTransaction\<close> reports that it did
  not apply the transaction, the ledger is the ledger from before: no entry, no balance, no coin total
  and no transaction set has changed, only the cached fee schedule may have been read in. The engine is
  used as the server uses it: a ledger being closed is not processed as an open one.
\<close>

theorem rejected_leaves_ledger:
  assumes p: "path_engine_ok env" and ty: "mTxType txn \<noteq> ttOFFER_CREATE"
    and co: "mClosingLedger eng \<longrightarrow> \<not> is_bit_set params tapOPEN_LEDGER" and ok: "ledger_ok (engLedger eng)"
    and r: "applyTransaction oc env txn params eng = Inr ((ter, False), txn', eng')"
  shows "same_ledger env (engLedger eng) (engLedger eng')"
  using r
proof (cases rule: applyTransaction_cases)
  case early
  then show ?thesis by (simp add: same_ledger_def)
next
  case (run txID cls t1 tr les1 d les2 n)
  show ?thesis using rejected_run [OF settled_run [OF p ty run(2,3)] co ok run(4,5)] run(6) by simp
qed

lemma txnWrite_entry_frame: "mTotCoins (txnWrite_entry p l) = mTotCoins l" "mFeePool (txnWrite_entry p l) = mFeePool l"
  "mTransactionMap (txnWrite_entry p l) = mTransactionMap l" "mInflationSeq (txnWrite_entry p l) = mInflationSeq l"
  "in_order (mAccountStateMap l) \<Longrightarrow> in_order (mAccountStateMap (txnWrite_entry p l))"
  by (auto simp: txnWrite_entry_def writeBack_def delItem_def Let_def split: LedgerEntryAction.split)

lemma txnWrite_frame: "mTotCoins (txnWrite les) = mTotCoins (mLedger les)" "mFeePool (txnWrite les) = mFeePool (mLedger les)"
  "mTransactionMap (txnWrite les) = mTransactionMap (mLedger les)" "mInflationSeq (txnWrite les) = mInflationSeq (mLedger les)"
  "in_order (mAccountStateMap (mLedger les)) \<Longrightarrow> in_order (mAccountStateMap (txnWrite les))"
proof -
  have "mTotCoins (fold txnWrite_entry es l) = mTotCoins l \<and> mFeePool (fold txnWrite_entry es l) = mFeePool l \<and>
      mTransactionMap (fold txnWrite_entry es l) = mTransactionMap l \<and> mInflationSeq (fold txnWrite_entry es l) = mInflationSeq l \<and>
      (in_order (mAccountStateMap l) \<longrightarrow> in_order (mAccountStateMap (fold txnWrite_entry es l)))" for es l
    by (induction es arbitrary: l) (auto simp: txnWrite_entry_frame)
  then show "mTotCoins (txnWrite les) = mTotCoins (mLedger les)" "mFeePool (txnWrite les) = mFeePool (mLedger les)"
    "mTransactionMap (txnWrite les) = mTransactionMap (mLedger les)" "mInflationSeq (txnWrite les) = mInflationSeq (mLedger les)"
    "in_order (mAccountStateMap (mLedger les)) \<Longrightarrow> in_order (mAccountStateMap (txnWrite les))"
    by (simp_all add: txnWrite_def)
qed

lemma txnWrite_ledger_ok: "les_ok les \<Longrightarrow> ledger_ok (txnWrite les)"
  unfolding ledger_ok_def
  by (intro conjI allI impI txnWrite_frame(5)) (simp add: les_ok_def ledger_ok_def, simp add: txnWrite_view view_index)

text \<open>The view does not depend on the parts of the ledger besides its state.\<close>

lemma les_ledger:
  assumes "mAccountStateMap l = mAccountStateMap (mLedger les)"
  shows "les_ok (les\<lparr>mLedger := l\<rparr>) = les_ok les" "view (les\<lparr>mLedger := l\<rparr>) = view les"
proof -
  have g: "getSLE l = getSLE (mLedger les)" using assms by (simp add: getSLE_def fun_eq_iff)
  show "view (les\<lparr>mLedger := l\<rparr>) = view les" by (simp add: view_def fun_eq_iff g split: option.split)
  have "entry_ok l = entry_ok (mLedger les)" by (simp add: entry_ok_def fun_eq_iff g split: LedgerEntryAction.split)
  then show "les_ok (les\<lparr>mLedger := l\<rparr>) = les_ok les" using assms by (simp add: les_ok_def ledger_ok_def g)
qed

text \<open>What the commit of an entry set does to the ledger.\<close>

definition committed :: "uint256 \<Rightarrow> SerializedTransaction \<Rightarrow> bool \<Rightarrow> (uint256 \<rightharpoonup> SLE) \<Rightarrow> Ledger \<Rightarrow> Ledger \<Rightarrow> bool" where
  "committed txID txn isOpen m l l' \<longleftrightarrow> ledger_ok l' \<and> (\<forall>i. rel_option threaded (m i) (getSLE l' i)) \<and>
     \<not> hasTransaction l txID \<and> (\<exists>item. mTransactionMap l' = map_put txID item (mTransactionMap l)) \<and>
     (if isOpen then mTotCoins l' = mTotCoins l \<and> mFeePool l' = mFeePool l
      else \<exists>fee. getNValue (getTransactionFee txn) = Inr fee \<and> mTotCoins l' = mTotCoins l - fee \<and> mFeePool l' = mFeePool l + fee)"

lemma commit_applied:
  assumes r: "commit env txID txn params t n les = Inr ((t', True), les')" and ok: "les_ok les" and n: "mMetaNodes (mSet les) = []"
  shows "t' = t \<and> committed txID txn (is_bit_set params tapOPEN_LEDGER) (view les) (mLedger les) (mLedger les')"
proof -
  obtain m les1 s les2 where m: "calcRawMeta (sha512Half env) (replaySeq env) t n les = Inr (m, les1)" and w: "mLedger les' = txnWrite les2"
    and b: "(if is_bit_set params tapOPEN_LEDGER then record_open txID s t les1 else record_closed txID txn s m t les1) = Inr ((t', True), les2)"
    by (rule commit_cases [OF r]) simp
  have t: "les_ok les1" "mLedger les1 = mLedger les" "\<forall>i. rel_option threaded (view les i) (view les1 i)"
    using calcRawMeta_threads [OF ok n m] by auto
  obtain l item where l: "les2 = les1\<lparr>mLedger := l\<rparr>" "t' = t" "\<not> hasTransaction (mLedger les) txID"
    "mAccountStateMap l = mAccountStateMap (mLedger les1)" "mTransactionMap l = map_put txID item (mTransactionMap (mLedger les))"
    "if is_bit_set params tapOPEN_LEDGER then mTotCoins l = mTotCoins (mLedger les) \<and> mFeePool l = mFeePool (mLedger les)
     else \<exists>fee. getNValue (getTransactionFee txn) = Inr fee \<and> mTotCoins l = mTotCoins (mLedger les) - fee \<and> mFeePool l = mFeePool (mLedger les) + fee"
  proof (cases "is_bit_set params tapOPEN_LEDGER")
    case True
    then show ?thesis using that b t(2) record_open_cases [of txID s t les1 t' True les2] by (auto split: if_splits)
  next
    case False
    then show ?thesis using that b t(2) record_closed_cases [of txID txn s m t les1 t' True les2] by (auto simp: destroyCoins_def)
  qed
  have ok2: "les_ok les2" "view les2 = view les1" using les_ledger [OF l(4)] t(1) l(1) by simp_all
  show ?thesis unfolding committed_def w
    using txnWrite_ledger_ok [OF ok2(1)] txnWrite_view [OF ok2(1)] ok2(2) t l txnWrite_frame [of les2] by auto
qed

text \<open>The same for a transaction that is applied: it is committed with the code that is reported.\<close>

lemma commit_code: "commit env txID txn params t n les = Inr ((t', True), les') \<Longrightarrow> t' = t"
  by (erule commit_cases) (auto dest!: record_open_cases record_closed_cases split: if_splits)

lemma applied_cases:
  assumes "applyTransaction oc env txn params eng = Inr ((ter, True), txn', eng')"
  obtains txID cls t1 tr les1 les les2 where "getTransactionID (sha512Half env) txn = Inr txID"
    "makeTransactor oc (mTxType txn) = Some cls"
    "apply_tx cls env (newTransactor txn params (mClosingLedger eng),
       init (engLedger eng) txID (mLedgerSeq (engLedger eng)) params (mNodes eng)) = Inr (t1, (tr, les1))"
    "decide env txn params t1 les1 = Inr ((ter, True), les)" "commit env txID txn params ter (mTxnSeq eng) les = Inr ((ter, True), les2)"
    "engLedger eng' = mLedger les2"
  using assms
proof (cases rule: applyTransaction_cases)
  case (run txID cls t1 tr les1 d les2 n)
  obtain t2 o2 les where d: "d = ((t2, o2), les)" by (metis prod.exhaust)
  have c: "o2 \<and> commit env txID txn params t2 (mTxnSeq eng) les = Inr ((ter, True), les2)"
    using finish_cases [OF run(5) [unfolded d]] by (cases o2) simp_all
  then have "ter = t2" using commit_code by blast
  then show thesis using that [OF run(1-3)] run(4,6) d c by simp
qed simp

lemma decide_success: "decide env txn params t les = Inr ((ter, True), les') \<Longrightarrow>
    if isTesSuccess t then ter = t \<and> les' = les else isTecClaim t \<and> ter = t \<and> claim_fee env txn t les = Inr ((ter, True), les')"
  by (auto simp: decide_def claim_fee_def exn_simps Let_def split: if_splits option.splits)


lemma claimed_run:
  assumes st: "settled env closing (init l txID q params nodes) (t1, (tr, les1))" and ok: "ledger_ok l" and tec: "isTecClaim ter"
    and d: "decide env txn params t1 les1 = Inr ((ter, True), les)" and c: "commit env txID txn params ter n les = Inr ((ter, True), les2)"
  shows "\<exists>m. claims env txn l m \<and> committed txID txn (is_bit_set params tapOPEN_LEDGER) m l (mLedger les2)"
proof -
  have cf: "claim_fee env txn t1 les1 = Inr ((ter, True), les)" and sl: "same_ledger env l (mLedger les1)"
    using decide_success [OF d] tec st by (auto simp: settled_def isTesSuccess_def isTecClaim_def ter_codes split: if_splits)
  note l1 = same_ledger_state [OF sl]
  have v: "les_ok les" "mMetaNodes (mSet les) = []" "mLedger les = mLedger les1" "claims env txn (mLedger les1) (view les)"
    using claim_fee_view [OF _ cf] l1 ok by auto
  have "committed txID txn (is_bit_set params tapOPEN_LEDGER) (view les) (mLedger les) (mLedger les2)"
    using commit_applied [OF c v(1,2)] by simp
  then have "committed txID txn (is_bit_set params tapOPEN_LEDGER) (view les) l (mLedger les2)"
    using l1 v(3) sl by (auto simp: committed_def hasTransaction_def same_ledger_def)
  moreover have "claims env txn l (view les)" using v(4) l1 by (simp add: claims_def)
  ultimately show ?thesis by auto
qed


lemma tx_of_object_format: "tx_of_object fs = Inr txn \<Longrightarrow> tx_format (mTxType txn) \<noteq> None"
proof -
  assume r: "tx_of_object fs = Inr txn"
  obtain t els where t: "map_of fs sfTransactionType = Some (VU16 t)" "findByType (uint t) = Some els"
    using r by (auto simp: tx_of_object_def split: option.splits st_value.splits)
  then have "mTxType txn = uint t" using r by (auto simp: tx_of_object_def split: prod.splits bool.splits)
  then show ?thesis using t(2) by (auto simp: findByType_def)
qed

text \<open>
  C31. Every transaction that can be received has a transactor. The type of a transaction read from its
  bytes is one for which \<open>makeTransactor\<close> has a class, so the engine never answers \<open>temUNKNOWN\<close> to it; and
  it is never \<open>ttWALLET_ADD\<close>, whose class no received transaction reaches.
\<close>

theorem received_has_transactor:
  assumes "tx_construct sit = Inr (txn, sit')"
  shows "makeTransactor oc (mTxType txn) \<noteq> None \<and> mTxType txn \<noteq> ttWALLET_ADD"
proof -
  obtain fs where "tx_of_object fs = Inr txn"
    using assms unfolding tx_construct_def by (auto simp: exn_simps split: if_splits)
  then have "tx_format (mTxType txn) \<noteq> None" by (rule tx_of_object_format)
  then show ?thesis by (auto simp: tx_format_def makeTransactor_def tx_types split: if_splits)
qed

lemma sample_tx_read: "\<exists>s'. tx_construct (it_begin s') = Inr (sample_tx\<lparr>mSigGood := False\<rparr>, \<lparr>mSerializer = s', mPos = length (mData s')\<rparr>)"
proof -
  define els where "els = tx_elements (mTxType sample_tx)"
  have ty: "mTxType sample_tx = 1" by (simp add: sample_tx_def)
  obtain s' fs where s': "object_add True (template_data els sample_tx) \<lparr>mData = []\<rparr> = Inr s'"
    "object_set \<lparr>mSerializer = s', mPos = 0\<rparr> = Inr ((fs, False), \<lparr>mSerializer = s', mPos = length (mData s')\<rparr>)"
    "map_of fs = mFields sample_tx" "setType els fs = (True, template_data els sample_tx)"
    using template_roundtrip [OF tx_elements_distinct sample_tx_wire, of "\<lparr>mData = []\<rparr>"] by (auto simp: els_def)
  have "tx_add True sample_tx \<lparr>mData = []\<rparr> = Inr s'" using s'(1) by (simp add: tx_add_def tx_data_def els_def)
  note l = sample_tx_length [OF this]
  have e: "findByType 1 = Some els" by (simp add: els_def ty tx_elements_def findByType_def tx_format_def tx_types)
  have m: "map_of (template_data els sample_tx) = mFields sample_tx" unfolding els_def by (rule template_object [OF tx_elements_distinct sample_tx_wire])
  have f: "mFields sample_tx sfTransactionType = Some (VU16 1)" by (simp add: sample_tx_def)
  have "tx_construct (it_begin s') = Inr (sample_tx\<lparr>mSigGood := False\<rparr>, \<lparr>mSerializer = s', mPos = length (mData s')\<rparr>)"
    using l s'(2,4)
    by (simp add: tx_construct_def it_begin_def getBytesLeft_def txMinSizeBytes_def txMaxSizeBytes_def tx_of_object_def s'(3) f e m)
      (simp add: sample_tx_def)
  then show ?thesis ..
qed

theorem received_has_transactor_witness:
  "\<exists>s' sit. tx_construct (it_begin s') = Inr (sample_tx\<lparr>mSigGood := False\<rparr>, sit) \<and>
     makeTransactor OfferCancelTransactor (mTxType (sample_tx\<lparr>mSigGood := False\<rparr>)) \<noteq> None"
proof -
  obtain s' sit where "tx_construct (it_begin s') = Inr (sample_tx\<lparr>mSigGood := False\<rparr>, sit)" using sample_tx_read by blast
  then show ?thesis using received_has_transactor [of "it_begin s'" "sample_tx\<lparr>mSigGood := False\<rparr>" sit OfferCancelTransactor] by blast
qed

end
