(* ===== verification/Source_Account.thy ===== *)
theory Source_Account
  imports Engine_Laws
begin

text \<open>
  The source account of a transaction on its way through the checks of \<open>Transactor::apply\<close>: the sequence
  number is used, the fee is paid, and the entry is marked as modified when the effect of the transaction
  starts. The locale \<open>charging_class\<close> has the classes of transactions for which this holds.
\<close>

section \<open>The source account during the checks\<close>

text \<open>
  The checks write into the cached entry of the source account before it is marked as modified.
  \<open>draft m i cur f les\<close>: but for the entry at \<open>i\<close>, which is cached and reads \<open>cur\<close>, the set shows \<open>m\<close>.
\<close>

definition draft :: "(uint256 \<rightharpoonup> SLE) \<Rightarrow> uint256 \<Rightarrow> SLE \<Rightarrow> Ledger \<times> u32 \<Rightarrow> LedgerEntrySet \<Rightarrow> bool" where
  "draft m i cur f les \<longleftrightarrow> mIndex cur = i \<and> (\<exists>les0. state_is m {} f les0 \<and> hasEntry i les0 = taaCACHED \<and> les = poke cur les0)"

lemma map_put_again: "in_order xs \<Longrightarrow> map_of xs k = Some v \<Longrightarrow> map_put k v xs = xs"
  by (induction xs) (auto split: if_splits dest!: map_of_SomeD)

lemma map_put_twice: "in_order xs \<Longrightarrow> map_put k v (map_put k w xs) = map_put k v xs"
  by (induction xs) auto

lemma cached_entry: "hasEntry i les = taaCACHED \<Longrightarrow> \<exists>e. map_of (mEntries les) i = Some e \<and> mAction e = taaCACHED"
  by (auto simp: hasEntry_def split: option.splits)

lemma poke_poke: "les_ok les \<Longrightarrow> hasEntry i les = taaCACHED \<Longrightarrow> mIndex a = i \<Longrightarrow> mIndex b = i \<Longrightarrow> poke b (poke a les) = poke b les"
  using cached_entry [of i les] by (auto simp: poke_def map_put_twice les_okD(1))

lemma draft_intro:
  assumes "state_is m {} f les" "hasEntry i les = taaCACHED" "m i = Some sle"
  shows "draft m i sle f les"
proof -
  have ok: "les_ok les" "view les i = Some sle" using assms by (auto simp: state_is_def)
  obtain e where e: "map_of (mEntries les) i = Some e" "mAction e = taaCACHED" using cached_entry [OF assms(2)] by blast
  have s: "mEntry e = sle" "mIndex sle = i" using ok e view_index by (auto simp: view_def)
  have "e\<lparr>mEntry := sle\<rparr> = e" by (simp add: s(1) [symmetric])
  then have "poke sle les = les" using e s(2) map_put_again [OF les_okD(1) [OF ok(1)] e(1)] by (simp add: poke_def)
  then show ?thesis using assms s(2) by (auto simp: draft_def intro!: exI [of _ les])
qed

lemma draft_poke: "draft m i cur f les \<Longrightarrow> mIndex cur' = i \<Longrightarrow> draft m i cur' f (poke cur' les)"
  unfolding draft_def by (auto simp: state_is_def poke_poke)

lemma draft_view: "draft m i cur f les \<Longrightarrow> view les i = Some cur"
  unfolding draft_def by (auto simp: state_is_def poke_def view_def les_okD(1) dest!: cached_entry)

lemma draft_deref: "draft m i cur f les \<Longrightarrow> mIndex a = i \<Longrightarrow> deref a les = cur"
  by (simp add: deref_def draft_view)

lemma draft_ledger: "draft m i cur f les \<Longrightarrow> f = (mLedger les, mParams les)"
  by (auto simp: draft_def state_is_def poke_parts)

lemma state_is_ledger:
  "state_is m D (l, p) les \<Longrightarrow> mAccountStateMap l' = mAccountStateMap l \<Longrightarrow> state_is m D (l', p) (les\<lparr>mLedger := l'\<rparr>)"
  using les_ledger [of l' les] by (auto simp: state_is_def dirty_def hasEntry_def)

lemma draft_fees:
  assumes "draft m i cur (l, p) les" "mAccountStateMap l' = mAccountStateMap l"
  shows "draft m i cur (l', p) (les\<lparr>mLedger := l'\<rparr>)"
proof -
  obtain les0 where l0: "mIndex cur = i" "state_is m {} (l, p) les0" "hasEntry i les0 = taaCACHED" "les = poke cur les0"
    using assms(1) by (auto simp: draft_def)
  have "poke cur (les0\<lparr>mLedger := l'\<rparr>) = les\<lparr>mLedger := l'\<rparr>" by (simp add: l0(4) poke_def split: option.split)
  moreover have "state_is m {} (l', p) (les0\<lparr>mLedger := l'\<rparr>)" "hasEntry i (les0\<lparr>mLedger := l'\<rparr>) = taaCACHED"
    using state_is_ledger [OF l0(2) assms(2)] l0(3) by (simp_all add: hasEntry_def)
  ultimately show ?thesis using l0(1) unfolding draft_def by metis
qed

lemma draft_modify:
  assumes "draft m i cur f les" "m i \<noteq> None"
  shows "succeeds (entryModify cur les) (state_is (m(i \<mapsto> cur)) {i} f)"
proof -
  obtain les0 where l0: "mIndex cur = i" "state_is m {} f les0" "hasEntry i les0 = taaCACHED" "les = poke cur les0"
    using assms(1) by (auto simp: draft_def)
  have "les_ok les0" using l0(2) by (simp add: state_is_def)
  then have "entryModify cur les = entryModify cur les0"
    using cached_entry [OF l0(3)] l0(1) by (auto simp: entryModify_def l0(4) poke_def put_entry_def map_put_twice les_okD(1))
  then show ?thesis using wp_entryModify [OF l0(2,1) assms(2)] by simp
qed

lemma init_state: "ledger_ok l \<Longrightarrow> state_is (getSLE l) {} (l, p) (init l txID q p nodes)"
  using init_ok [of l txID q p nodes] by (auto simp: state_is_def init_def)

lemma cache_draft:
  assumes l: "ledger_ok l" and r: "entryCache lt i (init l txID q p nodes) = Inr (Some sle, les)"
  shows "getSLE l i = Some sle \<and> draft (getSLE l) i sle (l, p) les"
proof -
  have i: "i \<noteq> 0" using r by (auto simp: entryCache_def)
  have "succeeds (entryCache lt i (init l txID q p nodes)) (\<lambda>r. fst r = getSLE l i \<and> state_is (getSLE l) {} (l, p) (snd r))"
    by (rule wp_entryCache [OF init_state [OF l] i]) simp
  then have s: "getSLE l i = Some sle" "state_is (getSLE l) {} (l, p) les" using r by simp_all
  have "hasEntry i les = taaCACHED"
    using r i by (auto simp: entryCache_def getEntry_def init_def entryCache_sle_def hasEntry_def put_entry_def exn_simps split: option.splits)
      (use l s in \<open>auto simp: ledger_ok_def\<close>)
  then show ?thesis using draft_intro [OF s(2) _ s(1)] s(1) by blast
qed

text \<open>Two versions of an entry that differ in the fields of a set at most.\<close>

definition edited :: "sfield set \<Rightarrow> SLE \<Rightarrow> SLE \<Rightarrow> bool" where
  "edited F a b \<longleftrightarrow> mType b = mType a \<and> mIndex b = mIndex a \<and> (\<forall>f. f \<notin> F \<longrightarrow> mFields b f = mFields a f)"

lemma edited_refl [simp]: "edited F a a" by (simp add: edited_def)

lemma edited_trans: "edited F a b \<Longrightarrow> edited G b c \<Longrightarrow> edited (F \<union> G) a c" by (simp add: edited_def)

lemma edited_mono: "edited F a b \<Longrightarrow> F \<subseteq> G \<Longrightarrow> edited G a b" by (auto simp: edited_def)

lemma edited_set: "f \<in> F \<Longrightarrow> edited F a b \<Longrightarrow> edited F a (setFieldU32 f u b)" "f \<in> F \<Longrightarrow> edited F a b \<Longrightarrow> edited F a (setFieldAmount f v b)"
  "f \<in> F \<Longrightarrow> edited F a b \<Longrightarrow> edited F a (setFieldH256 f w b)" "f \<in> F \<Longrightarrow> edited F a b \<Longrightarrow> edited F a (setFieldAccount f y b)"
  "f \<in> F \<Longrightarrow> edited F a b \<Longrightarrow> edited F a (makeFieldAbsent f b)"
  by (auto simp: edited_def setFieldU32_def setFieldAmount_def setFieldH256_def setFieldAccount_def makeFieldAbsent_def)

lemma edited_get: "edited F a b \<Longrightarrow> f \<notin> F \<Longrightarrow> getFieldU32 b f = getFieldU32 a f" "edited F a b \<Longrightarrow> f \<notin> F \<Longrightarrow> getFieldAmount b f = getFieldAmount a f"
  by (auto simp: edited_def getFieldU32_def getFieldAmount_def)

lemma edited_index: "edited F a b \<Longrightarrow> mIndex b = mIndex a" by (simp add: edited_def)

lemma threaded_edited: "threaded a b = edited thread_fields a b"
  by (simp add: threaded_def edited_def)

text \<open>The transaction a transactor holds: the one it was given, perhaps marked as well signed.\<close>

definition same_txn :: "SerializedTransaction \<Rightarrow> SerializedTransaction \<Rightarrow> bool" where
  "same_txn t t' \<longleftrightarrow> t' = t \<or> t' = t\<lparr>mSigGood := True\<rparr>"

lemma same_txn_get: "same_txn t t' \<Longrightarrow> getSequence t' = getSequence t \<and> getTransactionFee t' = getTransactionFee t \<and>
    getFieldAmount t' f = getFieldAmount t f \<and> isFieldPresent t' f = isFieldPresent t f \<and> getSourceAccount t' = getSourceAccount t \<and>
    getFieldAccount160 t' f = getFieldAccount160 t f"
  by (auto simp: same_txn_def getSequence_def getTransactionFee_def getFieldAmount_def isFieldPresent_def getSourceAccount_def
      getFieldU32_def getFieldAccount_def getFieldAccount160_def)

lemma preCheck_success:
  assumes "preCheck env tr = Inr (tesSUCCESS, tr')"
  shows "getSourceAccount (mTxn tr) = Some (mTxnAccountID tr') \<and> mTxnParams tr' = mTxnParams tr \<and> mEngineClosing tr' = mEngineClosing tr \<and>
    same_txn (mTxn tr) (mTxn tr')"
  using assms by (auto simp: preCheck_def Let_def exn_simps same_txn_def ter_codes dest!: getAccountID_Inr split: if_splits)

text \<open>
  \<open>at_draft m i cur f st\<close>: the transactor's pointer to the source account is to the entry at \<open>i\<close>.
\<close>

definition at_draft :: "(uint256 \<rightharpoonup> SLE) \<Rightarrow> uint256 \<Rightarrow> SLE \<Rightarrow> Ledger \<times> u32 \<Rightarrow> tx_state \<Rightarrow> bool" where
  "at_draft m i cur f st \<longleftrightarrow> draft m i cur f (snd st) \<and> (\<exists>a. mTxnAccount (fst st) = Some a \<and> mIndex a = i)"

lemma txn_account_draft: "at_draft m i cur f st \<Longrightarrow> txn_account st = Inr cur"
  by (auto simp: at_draft_def txn_account_def draft_deref)

lemma upd_account_draft:
  "at_draft m i cur f st \<Longrightarrow> mIndex (g cur) = i \<Longrightarrow> \<exists>st'. upd_account g st = Inr st' \<and> fst st' = fst st \<and> at_draft m i (g cur) f st'"
  using txn_account_draft [of m i cur f st] by (auto simp: upd_account_def at_draft_def intro: draft_poke)

lemma at_draft_index: "at_draft m i cur f st \<Longrightarrow> mIndex cur = i"
  by (auto simp: at_draft_def draft_def)

lemma checkSeq_success:
  assumes d: "at_draft m i cur f st" and c: "mEngineClosing (fst st)" and r: "checkSeq env st = Inr (tesSUCCESS, st')"
  shows "fst st' = fst st \<and> getFieldU32 cur sfSequence = getSequence (mTxn (fst st)) \<and>
    (\<exists>cur'. at_draft m i cur' f st' \<and> edited {sfSequence, sfAccountTxnID} cur cur' \<and> getFieldU32 cur' sfSequence = getSequence (mTxn (fst st)) + 1)"
proof -
  define s where "s = getSequence (mTxn (fst st)) + 1"
  define cur1 where "cur1 = setFieldU32 sfSequence s cur"
  have e1: "edited {sfSequence, sfAccountTxnID} cur cur1" by (simp add: cur1_def edited_set)
  obtain st1 where st1: "upd_account (setFieldU32 sfSequence s) st = Inr st1" "fst st1 = fst st" "at_draft m i cur1 f st1"
    using upd_account_draft [OF d, of "setFieldU32 sfSequence s"] at_draft_index [OF d] e1 edited_index cur1_def by metis
  have q: "getFieldU32 cur sfSequence = getSequence (mTxn (fst st))" and
    k: "bindE (if isFieldPresent cur sfAccountTxnID then bindE (getTransactionID (sha512Half env) (mTxn (fst st)))
          (\<lambda>txID. upd_account (setFieldH256 sfAccountTxnID txID) st1) else Inr st1) (\<lambda>st. Inr (tesSUCCESS, st)) = Inr (tesSUCCESS, st')"
    using r c st1(1) by (auto simp: checkSeq_def Let_def txn_account_draft [OF d] expected_seq_def s_def exn_simps ter_codes split: if_splits)
  show ?thesis
  proof (cases "isFieldPresent cur sfAccountTxnID")
    case True
    then obtain txID where u: "upd_account (setFieldH256 sfAccountTxnID txID) st1 = Inr st'" using k by (auto simp: exn_simps)
    have "at_draft m i (setFieldH256 sfAccountTxnID txID cur1) f st' \<and> fst st' = fst st1"
      using upd_account_draft [OF st1(3), of "setFieldH256 sfAccountTxnID txID"] at_draft_index [OF st1(3)] u by (auto simp: setFieldH256_def)
    then show ?thesis using q st1(2) e1
      by (auto intro!: exI [of _ "setFieldH256 sfAccountTxnID txID cur1"] edited_set) (simp add: cur1_def s_def)
  next
    case False
    then show ?thesis using k q st1 e1 by (auto simp: s_def cur1_def intro!: exI [of _ cur1])
  qed
qed

lemma payFee_success:
  assumes d: "at_draft m i cur f st" and fee: "getTransactionFee (mTxn (fst st)) = mkNative v False"
    and b: "mSourceBalance (fst st) = mkNative x False" "getFieldAmount cur sfBalance = mkNative x False" "unat x < 2 ^ 63"
    and r: "payFee env st = Inr (tesSUCCESS, st')"
  shows "v \<le> x \<and> fst st' = (fst st)\<lparr>mSourceBalance := mkNative (x - v) False\<rparr> \<and>
    (\<exists>cur'. at_draft m i cur' f st' \<and> edited {sfBalance} cur cur' \<and> getFieldAmount cur' sfBalance = mkNative (x - v) False)"
proof (cases "v = 0")
  case True
  then have "st' = st" using r fee by (auto simp: payFee_def Let_def exn_simps ter_codes split: if_splits)
  moreover have "fst st = (fst st)\<lparr>mSourceBalance := mkNative x False\<rparr>" by (simp add: b(1) [symmetric])
  ultimately show ?thesis using True d b by (auto intro!: exI [of _ cur])
next
  case False
  define st1 where "st1 = ((fst st)\<lparr>mSourceBalance := mkNative (x - v) False\<rparr>, snd st)"
  have "\<not> x < v" and u: "upd_account (setFieldAmount sfBalance (mkNative (x - v) False)) st1 = Inr st'"
    using r fee False native_sub [OF _ b(3), of v]
    by (auto simp: payFee_def Let_def b(1) native_less exn_simps st1_def ter_codes split: if_splits)
  have d1: "at_draft m i cur f st1" using d by (simp add: at_draft_def st1_def)
  have "at_draft m i (setFieldAmount sfBalance (mkNative (x - v) False) cur) f st' \<and> fst st' = fst st1"
    using upd_account_draft [OF d1, of "setFieldAmount sfBalance (mkNative (x - v) False)"] at_draft_index [OF d] u
    by (auto simp: setFieldAmount_def)
  then show ?thesis using \<open>\<not> x < v\<close>
    by (auto simp: st1_def intro!: exI [of _ "setFieldAmount sfBalance (mkNative (x - v) False) cur"] edited_set)
qed

section \<open>Classes that charge their source account\<close>

text \<open>
  The state in which the effect of such a transaction starts: the source account has paid the fee and
  used its sequence number, its entry is marked as modified, and nothing else has changed.
\<close>

definition ready :: "Env \<Rightarrow> SerializedTransaction \<Rightarrow> u32 \<Rightarrow> Ledger \<Rightarrow> u64 \<Rightarrow> u64 \<Rightarrow> SLE \<Rightarrow> tx_state \<Rightarrow> bool" where
  "ready env txn params l fee x cur st \<longleftrightarrow>
     (let tr = fst st; i = getAccountRootIndex (sha512Half env) (mTxnAccountID tr) in
      getSourceAccount txn = Some (mTxnAccountID tr) \<and> same_txn txn (mTxn tr) \<and> mTxnParams tr = params \<and> mEngineClosing tr \<and>
      mMetaNodes (mSet (snd st)) = [] \<and> mPriorBalance tr = mkNative x False \<and> mSourceBalance tr = mkNative (x - fee) False \<and> fee \<le> x \<and>
      (\<exists>sle. getSLE l i = Some sle \<and> mTxnAccount tr = Some sle \<and> mIndex sle = i \<and> getFieldAmount sle sfBalance = mkNative x False \<and>
         getFieldU32 sle sfSequence = getSequence txn \<and> edited {sfSequence, sfAccountTxnID, sfBalance} sle cur) \<and>
      getFieldAmount cur sfBalance = mkNative (x - fee) False \<and> getFieldU32 cur sfSequence = getSequence txn + 1 \<and>
      state_is ((getSLE l)(i \<mapsto> cur)) {i} (fees_read env l, params) (snd st))"

locale charging_class = transactor_contract +
  assumes pre_is: "vPreCheck cls = preCheck" and must: "vMustHaveValidAccount cls" and seq_is: "vCheckSeq cls = checkSeq"
    and fee_is: "vPayFee cls env st = Inr (tesSUCCESS, st') \<Longrightarrow>
      payFee env st = Inr (tesSUCCESS, st') \<or> st' = st \<and> isZero (getTransactionFee (mTxn (fst st)))"
    and sig_is: "vCheckSig cls env st = Inr (t, st') \<Longrightarrow> \<exists>b. st' = ((fst st)\<lparr>mSigMaster := b\<rparr>, snd st)"
    and against_is: "vPrecheckAgainstLedger cls env st = Inr (t, st') \<Longrightarrow> st' = st"
begin

lemma fee_success:
  assumes d: "at_draft m i cur f st" and fee: "getTransactionFee (mTxn (fst st)) = mkNative v False"
    and b: "mSourceBalance (fst st) = mkNative x False" "getFieldAmount cur sfBalance = mkNative x False" "unat x < 2 ^ 63"
    and r: "vPayFee cls env st = Inr (tesSUCCESS, st')"
  shows "v \<le> x \<and> fst st' = (fst st)\<lparr>mSourceBalance := mkNative (x - v) False\<rparr> \<and>
    (\<exists>cur'. at_draft m i cur' f st' \<and> edited {sfBalance} cur cur' \<and> getFieldAmount cur' sfBalance = mkNative (x - v) False)"
proof (cases "payFee env st = Inr (tesSUCCESS, st')")
  case True
  then show ?thesis by (rule payFee_success [OF d fee b])
next
  case False
  then have "st' = st" "v = 0" using fee_is [OF r] fee by auto
  moreover have "fst st = (fst st)\<lparr>mSourceBalance := mkNative x False\<rparr>" by (simp add: b(1) [symmetric])
  ultimately show ?thesis using d b by (auto intro!: exI [of _ cur])
qed

lemma checks_success:
  assumes d: "at_draft m i sle f st" and c: "mEngineClosing (fst st)" and fee: "getTransactionFee (mTxn (fst st)) = mkNative v False"
    and b: "mSourceBalance (fst st) = mkNative x False" "getFieldAmount sle sfBalance = mkNative x False" "unat x < 2 ^ 63"
    and r: "apply_checks cls env st = Inr (tesSUCCESS, st')"
  shows "v \<le> x \<and> (\<exists>b. fst st' = (fst st)\<lparr>mSourceBalance := mkNative (x - v) False, mSigMaster := b\<rparr>) \<and>
    getFieldU32 sle sfSequence = getSequence (mTxn (fst st)) \<and>
    (\<exists>cur. at_draft m i cur f st' \<and> edited {sfSequence, sfAccountTxnID, sfBalance} sle cur \<and>
      getFieldAmount cur sfBalance = mkNative (x - v) False \<and> getFieldU32 cur sfSequence = getSequence (mTxn (fst st)) + 1)"
proof -
  obtain st1 st2 st3 where r1: "checkSeq env st = Inr (tesSUCCESS, st1)" and r2: "vPayFee cls env st1 = Inr (tesSUCCESS, st2)"
    and r3: "vCheckSig cls env st2 = Inr (tesSUCCESS, st3)" and r4: "vPrecheckAgainstLedger cls env st3 = Inr (tesSUCCESS, st')"
    using r by (auto simp: apply_checks_def check_def exn_simps seq_is split: if_splits)
  obtain cur1 where s1: "fst st1 = fst st" "getFieldU32 sle sfSequence = getSequence (mTxn (fst st))" "at_draft m i cur1 f st1"
    "edited {sfSequence, sfAccountTxnID} sle cur1" "getFieldU32 cur1 sfSequence = getSequence (mTxn (fst st)) + 1"
    using checkSeq_success [OF d c r1] by auto
  have b1: "mSourceBalance (fst st1) = mkNative x False" "getFieldAmount cur1 sfBalance = mkNative x False"
    using b s1(1) edited_get(2) [OF s1(4)] by simp_all
  obtain cur2 where s2: "v \<le> x" "fst st2 = (fst st)\<lparr>mSourceBalance := mkNative (x - v) False\<rparr>" "at_draft m i cur2 f st2"
    "edited {sfBalance} cur1 cur2" "getFieldAmount cur2 sfBalance = mkNative (x - v) False"
    using fee_success [OF s1(3) _ b1 b(3) r2] fee s1(1) by auto
  obtain q where s3: "st3 = ((fst st2)\<lparr>mSigMaster := q\<rparr>, snd st2)" using sig_is [OF r3] by blast
  have "at_draft m i cur2 f st'" using s2(3) against_is [OF r4] s3 by (simp add: at_draft_def)
  moreover have "edited {sfSequence, sfAccountTxnID, sfBalance} sle cur2" using edited_trans [OF s1(4) s2(4)] by (rule edited_mono) auto
  moreover have "getFieldU32 cur2 sfSequence = getSequence (mTxn (fst st)) + 1" using edited_get(1) [OF s2(4)] s1(5) by simp
  ultimately show ?thesis using s1 s2 s3 against_is [OF r4] by auto
qed

end

context charging_class
begin

lemma apply_parts:
  assumes "apply_tx cls env (tr0, les0) = Inr (tesSUCCESS, st')"
  obtains tr1 sle les1 base st3 where "preCheck env tr0 = Inr (tesSUCCESS, tr1)"
    "entryCache ltACCOUNT_ROOT (getAccountRootIndex (sha512Half env) (mTxnAccountID tr1)) les0 = Inr (Some sle, les1)"
    "apply_checks cls env (load_account (tr1\<lparr>mTxnAccount := Some sle, mFeeDue := base\<rparr>, les1\<lparr>mLedger := fees_read env (mLedger les1)\<rparr>)) =
       Inr (tesSUCCESS, st3)"
    "apply_effect cls env st3 = Inr (tesSUCCESS, st')"
proof -
  obtain tr1 so les1 where 1: "preCheck env tr0 = Inr (tesSUCCESS, tr1)"
    "entryCache ltACCOUNT_ROOT (getAccountRootIndex (sha512Half env) (mTxnAccountID tr1)) les0 = Inr (so, les1)"
    and r: "bindE (calculateFee cls env (tr1\<lparr>mTxnAccount := so\<rparr>, les1)) (\<lambda>st.
         if mTxnAccount (fst st) = None \<and> vMustHaveValidAccount cls then Inr (terNO_ACCOUNT, st)
         else check (apply_checks cls env (load_account st)) (apply_effect cls env)) = Inr (tesSUCCESS, st')"
    using assms unfolding apply_tx_def pre_is fst_conv snd_conv
    by (auto simp: bindE_eq_Inr split: if_splits)
  obtain base where c: "calculateFee cls env (tr1\<lparr>mTxnAccount := so\<rparr>, les1) =
      Inr (tr1\<lparr>mTxnAccount := so, mFeeDue := base\<rparr>, les1\<lparr>mLedger := fees_read env (mLedger les1)\<rparr>)"
    using r by (auto simp: bindE_eq_Inr calculateFee_def)
  obtain sle where s: "so = Some sle" using r [unfolded c] must by (cases so) (auto simp: ter_codes)
  then obtain st3 where "apply_checks cls env (load_account (tr1\<lparr>mTxnAccount := Some sle, mFeeDue := base\<rparr>, les1\<lparr>mLedger := fees_read env (mLedger les1)\<rparr>)) =
       Inr (tesSUCCESS, st3)" "apply_effect cls env st3 = Inr (tesSUCCESS, st')"
    using r [unfolded c] by (auto simp: check_def bindE_eq_Inr split: if_splits)
  then show thesis using that 1 s by blast
qed

lemma apply_ready:
  assumes l: "ledger_ok l" and fee: "getTransactionFee txn = mkNative fee False"
    and bal: "\<And>a sle. getSourceAccount txn = Some a \<Longrightarrow> getSLE l (getAccountRootIndex (sha512Half env) a) = Some sle \<Longrightarrow>
      \<exists>x. getFieldAmount sle sfBalance = mkNative x False \<and> unat x < 2 ^ 63"
    and r: "apply_tx cls env (newTransactor txn params True, init l txID q params nodes) = Inr (tesSUCCESS, st')"
  shows "\<exists>x cur st. ready env txn params l fee x cur st \<and> vDoApply cls env st = Inr (tesSUCCESS, st')"
proof -
  define tr0 where "tr0 = newTransactor txn params True"
  have t0: "mTxn tr0 = txn" "mTxnParams tr0 = params" "mEngineClosing tr0" by (simp_all add: tr0_def newTransactor_def)
  obtain tr1 sle les1 base st3 where p: "preCheck env tr0 = Inr (tesSUCCESS, tr1)"
    and c: "entryCache ltACCOUNT_ROOT (getAccountRootIndex (sha512Half env) (mTxnAccountID tr1)) (init l txID q params nodes) = Inr (Some sle, les1)"
    and k: "apply_checks cls env (load_account (tr1\<lparr>mTxnAccount := Some sle, mFeeDue := base\<rparr>, les1\<lparr>mLedger := fees_read env (mLedger les1)\<rparr>)) =
       Inr (tesSUCCESS, st3)" and e: "apply_effect cls env st3 = Inr (tesSUCCESS, st')"
    by (rule apply_parts [OF r [folded tr0_def]])
  define i where "i = getAccountRootIndex (sha512Half env) (mTxnAccountID tr1)"
  note t1 = preCheck_success [OF p, unfolded t0]
  have g: "getSLE l i = Some sle" and dr: "draft (getSLE l) i sle (l, params) les1" using cache_draft [OF l c] by (simp_all add: i_def)
  have l1: "mLedger les1 = l" "mMetaNodes (mSet les1) = []"
    using draft_ledger [OF dr] holdsD [OF entryCache_kept [OF kept_refl] c] by (simp_all add: kept_def)
  have dr2: "draft (getSLE l) i sle (fees_read env l, params) (les1\<lparr>mLedger := fees_read env l\<rparr>)"
    by (rule draft_fees [OF dr]) simp
  have ix: "mIndex sle = i" using l g by (simp add: ledger_ok_def)
  obtain x where x: "getFieldAmount sle sfBalance = mkNative x False" "unat x < 2 ^ 63"
    using bal t1 g unfolding i_def by blast
  define st2 where "st2 = load_account (tr1\<lparr>mTxnAccount := Some sle, mFeeDue := base\<rparr>, les1\<lparr>mLedger := fees_read env l\<rparr>)"
  obtain ak where st2: "st2 = (tr1\<lparr>mTxnAccount := Some sle, mFeeDue := base, mPriorBalance := mkNative x False, mSourceBalance := mkNative x False,
      mHasAuthKey := ak\<rparr>, les1\<lparr>mLedger := fees_read env l\<rparr>)"
    using draft_deref [OF dr2 ix] x by (simp add: st2_def load_account_def Let_def)
  have d2: "at_draft (getSLE l) i sle (fees_read env l, params) st2" using dr2 ix by (simp add: st2 at_draft_def)
  have tx: "getTransactionFee (mTxn (fst st2)) = mkNative fee False" "getSequence (mTxn (fst st2)) = getSequence txn"
    using same_txn_get [of txn "mTxn tr1"] t1 fee by (simp_all add: st2)
  have cl: "mEngineClosing (fst st2)" "mSourceBalance (fst st2) = mkNative x False" using t1 t0 by (simp_all add: st2)
  have k2: "apply_checks cls env st2 = Inr (tesSUCCESS, st3)" using k l1(1) by (simp add: st2_def)
  obtain b cur where s3: "fee \<le> x" "fst st3 = (fst st2)\<lparr>mSourceBalance := mkNative (x - fee) False, mSigMaster := b\<rparr>"
    "getFieldU32 sle sfSequence = getSequence txn" "at_draft (getSLE l) i cur (fees_read env l, params) st3"
    "edited {sfSequence, sfAccountTxnID, sfBalance} sle cur" "getFieldAmount cur sfBalance = mkNative (x - fee) False"
    "getFieldU32 cur sfSequence = getSequence txn + 1"
    using checks_success [OF d2 cl(1) tx(1) cl(2) x k2] tx(2) by auto
  have m3: "mSet (snd st3) = mSet les1" using holdsD [OF checks_quiet [OF quiet_st_refl] k2] by (simp add: quiet_st_def quiet_def kept_def st2)
  obtain les4 where m4: "entryModify cur (snd st3) = Inr les4" and v: "vDoApply cls env (fst st3, les4) = Inr (tesSUCCESS, st')"
    using e s3(2,4) ix cl(1) draft_deref by (auto simp: apply_effect_def st2 at_draft_def exn_simps)
  have "state_is ((getSLE l)(i \<mapsto> cur)) {i} (fees_read env l, params) les4"
    using draft_modify [of "getSLE l" i cur _ "snd st3"] s3(4) g m4 by (simp add: at_draft_def)
  moreover have "mSet les4 = mSet les1" using holdsD [OF entryModify_kept [OF kept_refl] m4] m3 by (simp add: kept_def)
  ultimately have "ready env txn params l fee x cur (fst st3, les4)"
    using s3 t1 t0 g ix x l1(2) by (auto simp: ready_def Let_def i_def [symmetric] st2)
  then show ?thesis using v by blast
qed

end

end
