(* ===== verification/Coin_Laws.thy ===== *)
theory Coin_Laws
  imports Source_Account
begin

text \<open>
  Conservation of coins: the native balances of a ledger add up to the total its header states, and the
  transactions of the engine keep it so. The locale \<open>coin_class\<close> has the classes of transactions whose
  effect keeps the sum.
\<close>

section \<open>Coins\<close>

text \<open>
  The native balance of an entry, the sum of the native balances of a state, and the invariant of a
  ledger: no balance is negative, and together they are the total the header states.
\<close>

definition native_balance :: "SLE \<Rightarrow> int" where
  "native_balance sle = (let a = getFieldAmount sle sfBalance in if mIsNative a then int (unat (mValue a)) else 0)"

definition solvent :: "SLE \<Rightarrow> bool" where
  "solvent sle \<longleftrightarrow> (let a = getFieldAmount sle sfBalance in mIsNative a \<longrightarrow> a = mkNative (mValue a) False)"

definition coins :: "(uint256 \<rightharpoonup> SLE) \<Rightarrow> int" where
  "coins m = (\<Sum>i \<in> dom m. native_balance (the (m i)))"

definition all_solvent :: "(uint256 \<rightharpoonup> SLE) \<Rightarrow> bool" where
  "all_solvent m \<longleftrightarrow> (\<forall>i sle. m i = Some sle \<longrightarrow> solvent sle)"

definition funded :: "Ledger \<Rightarrow> bool" where
  "funded l \<longleftrightarrow> ledger_ok l \<and> all_solvent (getSLE l) \<and> coins (getSLE l) = int (unat (mTotCoins l)) \<and> mTotCoins l \<le> cMaxNative"

text \<open>During a transaction: the fee is gone from the balances but not yet from the total.\<close>

definition balanced :: "u64 \<Rightarrow> LedgerEntrySet \<Rightarrow> bool" where
  "balanced fee les \<longleftrightarrow> les_ok les \<and> all_solvent (view les) \<and>
     coins (view les) + int (unat fee) = int (unat (mTotCoins (mLedger les))) \<and> mTotCoins (mLedger les) \<le> cMaxNative"

lemma native_balance_nonneg: "0 \<le> native_balance sle"
  by (simp add: native_balance_def Let_def)

lemma native_balance_native [simp]: "getFieldAmount sle sfBalance = mkNative x False \<Longrightarrow> native_balance sle = int (unat x)"
  by (simp add: native_balance_def)

lemma solvent_native [simp]: "getFieldAmount sle sfBalance = mkNative x False \<Longrightarrow> solvent sle"
  by (simp add: solvent_def)

lemma edited_balance: "edited F a b \<Longrightarrow> sfBalance \<notin> F \<Longrightarrow> native_balance b = native_balance a \<and> solvent b = solvent a"
  by (simp add: native_balance_def solvent_def edited_get(2))

lemma finite_ledger: "finite (dom (getSLE l))"
proof -
  have "dom (getSLE l) = dom (map_of (mAccountStateMap l))" by (auto simp: getSLE_def)
  then show ?thesis by (simp add: finite_dom_map_of)
qed

lemma finite_view: "finite (dom (view les))"
proof -
  have "dom (view les) \<subseteq> dom (map_of (mEntries les)) \<union> dom (getSLE (mLedger les))"
    by (auto simp: view_def split: option.splits)
  then show ?thesis using finite_ledger finite_dom_map_of finite_subset by blast
qed

lemma coins_upd:
  assumes "finite (dom m)"
  shows "coins (m(i \<mapsto> s)) = coins m - (case m i of None \<Rightarrow> 0 | Some t \<Rightarrow> native_balance t) + native_balance s"
proof -
  have "coins (m(i \<mapsto> s)) = native_balance s + (\<Sum>j \<in> dom m - {i}. native_balance (the ((m(i \<mapsto> s)) j)))"
    using assms by (simp add: coins_def sum.insert_remove)
  also have "(\<Sum>j \<in> dom m - {i}. native_balance (the ((m(i \<mapsto> s)) j))) = (\<Sum>j \<in> dom m - {i}. native_balance (the (m j)))"
    by (rule sum.cong) auto
  also have "\<dots> = coins m - (case m i of None \<Rightarrow> 0 | Some t \<Rightarrow> native_balance t)"
    using assms by (cases "m i") (auto simp: coins_def sum_diff1 domIff)
  finally show ?thesis by linarith
qed

lemma coins_member:
  assumes "finite (dom m)" "m i = Some s"
  shows "native_balance s \<le> coins m"
  unfolding coins_def using assms member_le_sum [of i "dom m" "\<lambda>i. native_balance (the (m i))"]
  by (simp add: native_balance_nonneg domI)

lemma coins_two:
  assumes "finite (dom m)" "m i = Some s" "m j = Some t" "i \<noteq> j"
  shows "native_balance s + native_balance t \<le> coins m"
proof -
  have "(\<Sum>k \<in> {i, j}. native_balance (the (m k))) \<le> coins m"
    unfolding coins_def by (rule sum_mono2) (use assms in \<open>auto simp: native_balance_nonneg\<close>)
  then show ?thesis using assms by simp
qed

lemma coins_rel:
  assumes "\<forall>i. rel_option threaded (m i) (m' i)"
  shows "coins m' = coins m \<and> (all_solvent m' = all_solvent m)"
proof -
  have e: "native_balance b = native_balance a \<and> solvent b = solvent a" if "threaded a b" for a b
    using that edited_balance [of thread_fields a b] by (auto simp: threaded_edited thread_fields_def)
  have n: "m' i = None \<longleftrightarrow> m i = None" for i using assms rel_option_None1 rel_option_None2 by metis
  have s: "threaded a b" if "m i = Some a" "m' i = Some b" for i a b using assms that by (metis option.rel_inject(2))
  have "dom m' = dom m" unfolding dom_def by (simp add: n)
  moreover have "native_balance (the (m' i)) = native_balance (the (m i))" if "i \<in> dom m" for i
    using that n [of i] s e by (cases "m i"; cases "m' i") auto
  ultimately have "coins m' = coins m" by (simp add: coins_def)
  moreover have "all_solvent m' = all_solvent m"
    unfolding all_solvent_def using n s e by (metis option.exhaust)
  ultimately show ?thesis by blast
qed

lemma all_solvent_upd: "all_solvent m \<Longrightarrow> solvent s \<Longrightarrow> all_solvent (m(i \<mapsto> s))"
  by (auto simp: all_solvent_def)

lemma funded_account: "funded l \<Longrightarrow> getSLE l i = Some sle \<Longrightarrow> mIsNative (getFieldAmount sle sfBalance) \<Longrightarrow>
    \<exists>x. getFieldAmount sle sfBalance = mkNative x False \<and> unat x \<le> unat (mTotCoins l) \<and> unat x < 2 ^ 63"
proof -
  assume f: "funded l" and g: "getSLE l i = Some sle" and n: "mIsNative (getFieldAmount sle sfBalance)"
  obtain x where x: "getFieldAmount sle sfBalance = mkNative x False"
    using f g n by (auto simp: funded_def all_solvent_def solvent_def Let_def)
  have "int (unat x) \<le> int (unat (mTotCoins l))" using coins_member [OF finite_ledger g] x f by (simp add: funded_def)
  moreover have "unat (mTotCoins l) < 2 ^ 63" using f by (simp add: funded_def amount_consts word_le_nat_alt)
  ultimately show ?thesis using x by auto
qed

lemma committed_funded:
  assumes c: "committed txID txn False m l l'" and fee: "getTransactionFee txn = mkNative fee False"
    and b: "all_solvent m" "coins m + int (unat fee) = int (unat (mTotCoins l))" "mTotCoins l \<le> cMaxNative" "finite (dom m)"
  shows "funded l'"
proof -
  have "getNValue (getTransactionFee txn) = Inr fee" by (simp add: fee getNValue_def)
  then have l': "ledger_ok l'" "\<forall>i. rel_option threaded (m i) (getSLE l' i)" "mTotCoins l' = mTotCoins l - fee"
    using c by (auto simp: committed_def)
  have "0 \<le> coins m" by (auto simp: coins_def intro: sum_nonneg native_balance_nonneg)
  then have "unat fee \<le> unat (mTotCoins l)" using b(2) by linarith
  then have t: "unat (mTotCoins l - fee) = unat (mTotCoins l) - unat fee" "fee \<le> mTotCoins l" by (simp_all add: unat_sub word_le_nat_alt)
  then have "mTotCoins l - fee \<le> cMaxNative" using b(3) by (auto simp: word_le_nat_alt)
  then show ?thesis using coins_rel [OF l'(2)] l' t b(1,2) \<open>unat fee \<le> unat (mTotCoins l)\<close>
    by (simp add: funded_def of_nat_diff)
qed

section \<open>Effects that keep the coins\<close>

definition at_state :: "(uint256 \<rightharpoonup> SLE) \<Rightarrow> uint256 set \<Rightarrow> Ledger \<times> u32 \<Rightarrow> uint256 \<Rightarrow> SLE \<Rightarrow> tx_state \<Rightarrow> bool" where
  "at_state m D f i cur st \<longleftrightarrow> state_is m D f (snd st) \<and> i \<in> D \<and> m i = Some cur \<and> (\<exists>a. mTxnAccount (fst st) = Some a \<and> mIndex a = i)"

lemma txn_account_state: "at_state m D f i cur st \<Longrightarrow> txn_account st = Inr cur"
  by (auto simp: at_state_def txn_account_def deref_state)

lemma at_state_index: "at_state m D f i cur st \<Longrightarrow> mIndex cur = i"
  by (auto simp: at_state_def dest: state_is_index)

lemma upd_account_state:
  assumes s: "at_state m D f i cur st" and g: "mIndex (g cur) = i" and q: "\<And>st'. fst st' = fst st \<Longrightarrow> at_state (m(i \<mapsto> g cur)) D f i (g cur) st' \<Longrightarrow> Q st'"
  shows "holds (upd_account g st) Q"
  using txn_account_state [OF s] state_is_poke [of m D f "snd st" "g cur"] s g q
  by (auto simp: upd_account_def at_state_def)

lemma entryCache_state:
  assumes "state_is m D f les" "\<And>les'. state_is m D f les' \<Longrightarrow> Q (if i = 0 then None else m i, les')"
  shows "holds (entryCache lt i les) Q"
proof (cases "i = 0")
  case False
  then have "succeeds (entryCache lt i les) Q" using wp_entryCache [OF assms(1) False, of Q lt] assms(2) by simp
  then show ?thesis by (auto simp: holds_def succeeds_iff)
qed (use assms in \<open>simp add: entryCache_def\<close>)

text \<open>
  Effects that only set fields of the source account other than its balance and its sequence number.
\<close>

definition tuned :: "(uint256 \<rightharpoonup> SLE) \<Rightarrow> Ledger \<times> u32 \<Rightarrow> uint256 \<Rightarrow> SLE \<Rightarrow> tx_state \<Rightarrow> bool" where
  "tuned m f i cur st \<longleftrightarrow> (\<exists>cur' D. at_state (m(i \<mapsto> cur')) D f i cur' st \<and> edited (UNIV - {sfBalance, sfSequence}) cur cur')"

lemma tuned_start: "at_state m D f i cur st \<Longrightarrow> tuned m f i cur st"
  unfolding tuned_def by (rule exI [of _ cur]) (auto simp: at_state_def fun_upd_idem)

lemma upd_account_tuned:
  assumes t: "tuned m f i cur st" and g: "\<And>s. edited (UNIV - {sfBalance, sfSequence}) s (g s)" and q: "\<And>st'. tuned m f i cur st' \<Longrightarrow> Q st'"
  shows "holds (upd_account g st) Q"
proof -
  obtain cur' D where s: "at_state (m(i \<mapsto> cur')) D f i cur' st" and e: "edited (UNIV - {sfBalance, sfSequence}) cur cur'"
    using t by (auto simp: tuned_def)
  have "edited (UNIV - {sfBalance, sfSequence}) cur (g cur')" using edited_trans [OF e g [of cur']] by simp
  moreover have "mIndex (g cur') = i" using at_state_index [OF s] edited_index [OF g [of cur']] by simp
  ultimately show ?thesis using q by (intro upd_account_state [OF s]) (auto simp: tuned_def)
qed

lemma field_edits [simp]:
  "f \<notin> {sfBalance, sfSequence} \<Longrightarrow> edited (UNIV - {sfBalance, sfSequence}) s (setFieldU32 f u s)"
  "f \<notin> {sfBalance, sfSequence} \<Longrightarrow> edited (UNIV - {sfBalance, sfSequence}) s (setFieldAccount f y s)"
  "f \<notin> {sfBalance, sfSequence} \<Longrightarrow> edited (UNIV - {sfBalance, sfSequence}) s (makeFieldAbsent f s)"
  by (simp_all add: edited_set)

lemma check_tuned: "holds r (\<lambda>r. tuned m f i cur (snd r)) \<Longrightarrow> (\<And>st. tuned m f i cur st \<Longrightarrow> holds (g st) (\<lambda>r. tuned m f i cur (snd r))) \<Longrightarrow>
    holds (check r g) (\<lambda>r. tuned m f i cur (snd r))"
  by (erule check_rule) simp_all

lemma dirIsEmpty_state: "state_is m D f les \<Longrightarrow> holds (dirIsEmpty h rt les) (\<lambda>r. state_is m D f (snd r))"
  by (auto simp: dirIsEmpty_def split: option.split intro!: entryCache_state)

lemma AccountSet_tuned: "tuned m f i cur st \<Longrightarrow> holds (AccountSet_doApply env st) (\<lambda>r. tuned m f i cur (snd r))"
proof -
  assume t: "tuned m f i cur st"
  have 1: "holds (set_inflation_dest env s) (\<lambda>r. tuned m f i cur (snd r))" if "tuned m f i cur s" for s
    using that by (auto simp: set_inflation_dest_def Let_def split: option.split intro!: upd_account_tuned)
  have 2: "holds (set_auth_key s) (\<lambda>r. tuned m f i cur (snd r))" if "tuned m f i cur s" for s
    using that by (auto simp: set_auth_key_def Let_def intro!: upd_account_tuned split: option.split)
  have 3: "holds (set_transfer_rate s) (\<lambda>r. tuned m f i cur (snd r))" if "tuned m f i cur s" for s
    using that by (auto simp: set_transfer_rate_def Let_def intro!: upd_account_tuned)
  have 5: "holds (set_account_fields env x y s) (\<lambda>r. tuned m f i cur (snd r))" if "tuned m f i cur s" for s x y
    using that by (auto simp: set_account_fields_def intro!: check_tuned 1 2 3 upd_account_tuned)
  have d: "holds (dirIsEmpty h rt (snd st)) (\<lambda>r. tuned m f i cur (fst st, snd r))" for h rt
  proof -
    obtain cur' D where s: "at_state (m(i \<mapsto> cur')) D f i cur' st" "edited (UNIV - {sfBalance, sfSequence}) cur cur'"
      using t by (auto simp: tuned_def)
    then have "state_is (m(i \<mapsto> cur')) D f (snd st)" by (simp add: at_state_def)
    then show ?thesis by (rule holds_mono [OF dirIsEmpty_state]) (use s in \<open>auto simp: tuned_def at_state_def\<close>)
  qed
  show ?thesis unfolding AccountSet_doApply_def Let_def
    by (auto split: sum.split simp: t intro!: holds_pure [of _ "txn_account _"] holds_mono [OF d] 5)
qed

lemma RegularKeySet_tuned: "tuned m f i cur st \<Longrightarrow> holds (RegularKeySet_doApply env st) (\<lambda>r. tuned m f i cur (snd r))"
  by (auto simp: RegularKeySet_doApply_def Let_def setFlag_def intro!: upd_account_tuned holds_pure [of _ "txn_account _"])

subsection \<open>Direct payments\<close>

lemma holdsI: "(\<And>x. r = Inr x \<Longrightarrow> Q x) \<Longrightarrow> holds r Q"
  by (simp add: holds_def)

lemma add_native_native: "amount_add a (mkNative v False) = Inr z \<Longrightarrow> mIsNative a"
  by (auto simp: amount_add_def throwComparable_def isComparable_def exn_simps split: if_splits)

lemma plus_u64_native:
  assumes "unat a + unat v < 2 ^ 63"
  shows "amount_plus_u64 (mkNative a False) v = Inr (mkNative (a + v) False)"
proof -
  have s: "sint a = int (unat a)" "sint v = int (unat v)" using assms by (simp_all add: sint_unat)
  have "s64 (int (unat a) + int (unat v)) = int (unat a + unat v)" using assms s64_id [of "int (unat a) + int (unat v)"] by simp
  moreover have "word_of_int (int (unat a + unat v)) = a + v" by (simp add: word_of_nat_unat)
  ultimately show ?thesis using s by (auto simp: amount_plus_u64_def getSNValue_def mkNativeS_def mkNativeN_False)
qed

text \<open>The balances of two accounts after a native amount goes from one to the other.\<close>

definition balanced_map :: "(uint256 \<rightharpoonup> SLE) \<Rightarrow> int \<Rightarrow> bool" where
  "balanced_map m c \<longleftrightarrow> finite (dom m) \<and> all_solvent m \<and> coins m = c"

lemma balanced_map_upd:
  "balanced_map m c \<Longrightarrow> m i = Some s \<Longrightarrow> native_balance s' = native_balance s + d \<Longrightarrow> solvent s' \<Longrightarrow> balanced_map (m(i \<mapsto> s')) (c + d)"
  by (simp add: balanced_map_def coins_upd all_solvent_upd)

lemma balanced_map_new: "balanced_map m c \<Longrightarrow> m i = None \<Longrightarrow> native_balance s' = 0 \<Longrightarrow> solvent s' \<Longrightarrow> balanced_map (m(i \<mapsto> s')) c"
  by (simp add: balanced_map_def coins_upd all_solvent_upd)

lemma transfer_coins:
  assumes b: "balanced_map m c" and c: "c \<le> int (unat cMaxNative)" and i: "m i = Some cur" "getFieldAmount cur sfBalance = mkNative z False"
    and v: "v \<le> z" and cur': "getFieldAmount cur' sfBalance = mkNative (z - v) False"
    and j: "(m(i \<mapsto> cur')) j = Some sd" and add: "amount_add (getFieldAmount sd sfBalance) (mkNative v False) = Inr y'"
    and sd': "getFieldAmount sd' sfBalance = y'"
  shows "balanced_map (m(i \<mapsto> cur', j \<mapsto> sd')) c"
proof -
  have fin: "finite (dom m)" and sol: "all_solvent m" and cm: "coins m = c" using b by (auto simp: balanced_map_def)
  have zv: "unat (z - v) = unat z - unat v" "unat v \<le> unat z" using v by (simp_all add: unat_sub word_le_nat_alt)
  have "native_balance cur' = native_balance cur + - int (unat v)" using i(2) cur' zv by simp
  then have b1: "balanced_map (m(i \<mapsto> cur')) (c - int (unat v))"
    using balanced_map_upd [OF b i(1), of cur' "- int (unat v)"] cur' by simp
  obtain y where y: "getFieldAmount sd sfBalance = mkNative y False"
    using add_native_native [OF add] b1 j by (auto simp: balanced_map_def all_solvent_def solvent_def Let_def split: if_splits)
  have "int (unat y) \<le> c - int (unat v)"
    using coins_member [where m = "m(i \<mapsto> cur')" and i = j and s = sd] j b1 y by (simp add: balanced_map_def)
  then have le: "unat y + unat v \<le> unat cMaxNative" using c by linarith
  then have "unat y + unat v < 2 ^ 63" "v \<le> cMaxNative" by (auto simp: amount_consts word_le_nat_alt)
  then have "y' = mkNative (y + v) False" using add y native_add_small by simp
  moreover have "unat (y + v) = unat y + unat v" using le by (simp add: unat_word_ariths amount_consts)
  ultimately have "native_balance sd' = native_balance sd + int (unat v)" "solvent sd'" using sd' y by simp_all
  then show ?thesis using balanced_map_upd [where m = "m(i \<mapsto> cur')" and i = j and s = sd and s' = sd' and d = "int (unat v)", OF b1 j] by simp
qed

lemma clearFlag_balance [simp]: "getFieldAmount (clearFlag fl s) sfBalance = getFieldAmount s sfBalance" "mIndex (clearFlag fl s) = mIndex s"
  by (simp_all add: clearFlag_def)

lemma direct_payment_coins:
  assumes s: "at_state m D f i cur st" and dst: "j \<in> D" "mIndex sleDst = j" "m j \<noteq> None"
    and b: "balanced_map m c" "c \<le> int (unat cMaxNative)"
    and bal: "getFieldAmount cur sfBalance = mkNative (x - fee) False" "mSourceBalance (fst st) = mkNative (x - fee) False"
      "mPriorBalance (fst st) = mkNative x False" "fee \<le> x" "x \<le> cMaxNative"
    and tx: "getFieldAmount (mTxn (fst st)) sfAmount = mkNative amt False" "amt \<le> cMaxNativeN" "getTransactionFee (mTxn (fst st)) = mkNative fee False"
    and res: "\<And>n. getReserve (sha512Half env) (config env) (mLedger (snd st)) n \<le> cMaxNative"
  shows "holds (direct_payment sleDst env st) (\<lambda>r. fst r = tesSUCCESS \<longrightarrow>
    (\<exists>m'. state_is m' D f (snd (snd r)) \<and> balanced_map m' c \<and> (\<exists>s'. m' i = Some s' \<and> getFieldU32 s' sfSequence = getFieldU32 cur sfSequence)))" (is "holds _ ?Q")
proof -
  define k where "k = max (getReserve (sha512Half env) (config env) (mLedger (snd st)) (getFieldU32 cur sfOwnerCount)) fee"
  have kb: "k \<le> cMaxNative" "fee \<le> k" using res bal(4,5) by (auto simp: k_def)
  have "unat amt + unat k < 2 ^ 63" using legal_small(1) [OF tx(2)] kb(1) by (auto simp: amount_consts word_le_nat_alt)
  note plus = plus_u64_native [OF this]
  have ak: "unat (amt + k) = unat amt + unat k" using \<open>unat amt + unat k < 2 ^ 63\<close> by (simp add: unat_word_ariths)
  show ?thesis
  proof (cases "x < amt + k")
    case True
    then show ?thesis
      by (simp add: direct_payment_def Let_def txn_account_state [OF s] tx getNValue_def k_def [symmetric] plus bal(3) native_less ter_codes)
  next
    case False
    have v: "amt \<le> x - fee"
    proof -
      have "unat amt + unat k \<le> unat x" using False ak by (simp add: word_le_nat_alt not_less)
      moreover have "unat fee \<le> unat k" "unat (x - fee) = unat x - unat fee" using kb(2) bal(4) by (simp_all add: word_le_nat_alt unat_sub)
      ultimately show ?thesis by (simp add: word_le_nat_alt)
    qed
    have xf: "unat (x - fee) < 2 ^ 63" using bal(4,5) by (auto simp: unat_sub word_le_nat_alt amount_consts)
    note sub = native_sub [OF v xf]
    define cur' where "cur' = setFieldAmount sfBalance (mkNative (x - fee - amt) False) cur"
    have ci: "mIndex cur' = i" using at_state_index [OF s] by (simp add: cur'_def setFieldAmount_def)
    define body where "body = (\<lambda>st1 :: tx_state. bindE (amount_add (getFieldAmount (deref sleDst (snd st1)) sfBalance) (mkNative amt False)) (\<lambda>saNew.
        let sle = setFieldAmount sfBalance saNew (deref sleDst (snd st1)) in
        Inr (tesSUCCESS, (fst st1, poke (if quirk env QuirkUseLsfPasswordSpent \<and> is_bit_set (getFlags sle) lsfPasswordSpent
          then clearFlag lsfPasswordSpent sle else sle) (snd st1)))))"
    have "holds (body st1) ?Q"
      if s1: "at_state (m(i \<mapsto> cur')) D f i cur' st1" for st1
    proof -
      obtain sd where sd: "(m(i \<mapsto> cur')) j = Some sd" using dst(3) by (cases "i = j") auto
      have st1: "state_is (m(i \<mapsto> cur')) D f (snd st1)" using s1 by (simp add: at_state_def)
      have de: "deref sleDst (snd st1) = sd" using deref_state [OF st1, of sleDst sd] sd dst(2) by simp
      have ix: "mIndex sd = j" using state_is_index [OF st1 sd] .
      show ?thesis unfolding body_def de
      proof (simp only: holds_simps, rule holdsI)
        fix y' assume add: "amount_add (getFieldAmount sd sfBalance) (mkNative amt False) = Inr y'"
        define sd' where "sd' = (if quirk env QuirkUseLsfPasswordSpent \<and> is_bit_set (getFlags (setFieldAmount sfBalance y' sd)) lsfPasswordSpent
          then clearFlag lsfPasswordSpent (setFieldAmount sfBalance y' sd) else setFieldAmount sfBalance y' sd)"
        have sd': "getFieldAmount sd' sfBalance = y'" "mIndex sd' = j" "getFieldU32 sd' sfSequence = getFieldU32 sd sfSequence"
          using ix by (simp_all add: sd'_def clearFlag_def)
        have "state_is (m(i \<mapsto> cur', j \<mapsto> sd')) D f (poke sd' (snd st1))" using state_is_poke [OF st1, of sd'] sd'(2) dst(1) by simp
        moreover have "balanced_map (m(i \<mapsto> cur', j \<mapsto> sd')) c"
          by (rule transfer_coins [OF b _ bal(1) v _ sd add sd'(1)]) (use s in \<open>simp_all add: at_state_def cur'_def\<close>)
        moreover have "\<exists>s'. (m(i \<mapsto> cur', j \<mapsto> sd')) i = Some s' \<and> getFieldU32 s' sfSequence = getFieldU32 cur sfSequence"
          using sd sd'(3) by (auto simp: cur'_def split: if_splits)
        ultimately show "holds (let sle = setFieldAmount sfBalance y' sd in
          Inr (tesSUCCESS, (fst st1, poke (if quirk env QuirkUseLsfPasswordSpent \<and> is_bit_set (getFlags sle) lsfPasswordSpent
            then clearFlag lsfPasswordSpent sle else sle) (snd st1)))) ?Q"
          unfolding Let_def sd'_def [symmetric] by (simp only: holds_simps snd_conv) blast
      qed
    qed
    moreover have "direct_payment sleDst env st = bindE (upd_account (setFieldAmount sfBalance (mkNative (x - fee - amt) False)) st) body"
      using False sub
      by (simp add: direct_payment_def txn_account_state [OF s] tx getNValue_def k_def [symmetric] plus bal native_less body_def Let_def)
    ultimately show ?thesis using ci by (simp only: holds_simps cur'_def) (rule upd_account_state [OF s], simp, simp)
  qed
qed

lemma new_account: "getFieldAmount (mkSLE ltACCOUNT_ROOT j) sfBalance = mkNative 0 False" "mIndex (mkSLE lt j) = j"
  by (simp_all add: mkSLE_def getFieldAmount_def elements_def)

lemma entryCreate_state:
  assumes "state_is m D f les" "m i = None" "\<And>les'. state_is (m(i \<mapsto> mkSLE lt i)) (insert i D) f les' \<Longrightarrow> Q (mkSLE lt i, les')"
  shows "holds (entryCreate lt i les) Q"
  using wp_entryCreate [OF assms(1,2), of lt Q] assms(3) by (auto simp: holds_def succeeds_iff)

lemma entryModify_state:
  assumes "state_is m D f les" "mIndex sle = i" "m i \<noteq> None" "\<And>les'. state_is (m(i \<mapsto> sle)) (insert i D) f les' \<Longrightarrow> Q les'"
  shows "holds (entryModify sle les) Q"
  using wp_entryModify [OF assms(1-3), of Q] assms(4) by (auto simp: holds_def succeeds_iff)

lemma payment_destination_coins:
  assumes s: "at_state m D f i cur st" and b: "balanced_map m c"
    and nz: "getAccountRootIndex (sha512Half env) (getFieldAccount160 (mTxn (fst st)) sfDestination) \<noteq> 0"
  shows "holds (payment_destination env st) (\<lambda>r. \<forall>sle. snd (fst r) = Some sle \<longrightarrow>
    (\<exists>m' D'. at_state m' D' f i cur (snd r) \<and> mIndex sle \<in> D' \<and> m' (mIndex sle) \<noteq> None \<and> balanced_map m' c \<and> fst (snd r) = fst st))"
    (is "holds _ ?Q")
proof -
  define j where "j = getAccountRootIndex (sha512Half env) (getFieldAccount160 (mTxn (fst st)) sfDestination)"
  have st: "state_is m D f (snd st)" "i \<in> D" "m i = Some cur" using s by (auto simp: at_state_def)
  have new: "?Q ((t, Some sle), (fst st, poke sle les))"
    if l: "state_is (m(j \<mapsto> mkSLE ltACCOUNT_ROOT j)) (insert j D) f les" and n: "m j = None"
      and e: "mIndex sle = j" "getFieldAmount sle sfBalance = mkNative 0 False" for t sle les
  proof -
    have "state_is (m(j \<mapsto> sle)) (insert j D) f (poke sle les)" using state_is_poke [OF l, of sle] e(1) by simp
    moreover have "i \<noteq> j" using st n by auto
    moreover have "balanced_map (m(j \<mapsto> sle)) c" by (rule balanced_map_new [OF b n]) (use e in simp_all)
    ultimately show ?thesis using s e st by (auto simp: at_state_def intro!: exI [of _ "m(j \<mapsto> sle)"] exI [of _ "insert j D"])
  qed
  have old: "?Q ((t, Some sle), (fst st, les))" if "state_is (m(j \<mapsto> sle)) (insert j D) f les" "m j = Some sle" "mIndex sle = j" for t sle les
    using that s b st by (auto simp: at_state_def fun_upd_idem intro!: exI [of _ m] exI [of _ "insert j D"])
  define Q where "Q = ?Q"
  have cr: "holds (on_les (entryCreate ltACCOUNT_ROOT j) (fst st, les)) (\<lambda>r. holds (case r of (sle, st) \<Rightarrow>
      Inr ((tesSUCCESS, Some (setFieldU32 sfSequence 1 (setFieldAccount sfAccount a sle))),
        (fst st, poke (setFieldU32 sfSequence 1 (setFieldAccount sfAccount a sle)) (snd st)))) Q)"
    if "state_is m D f les" "m j = None" for les a
    by (rule on_les_holds, simp only: fst_conv snd_conv, rule entryCreate_state [OF that])
      (use new [OF _ that(2)] new_account in \<open>simp add: Q_def\<close>)
  have mo: "holds (entryModify sle les) (\<lambda>les. Q ((tesSUCCESS, Some sle), (fst st, les)))" if "state_is m D f les" "m j = Some sle" for les sle
    by (rule entryModify_state [OF that(1) state_is_index [OF that]]) (use that old state_is_index [OF that] in \<open>simp_all add: Q_def\<close>)
  have no: "Q ((t, None), s)" for t s by (simp add: Q_def)
  show ?thesis
    unfolding payment_destination_def Let_def holds_simps j_def [symmetric] Q_def [symmetric]
    by (rule on_les_holds, rule entryCache_state [OF st(1)])
      (use nz in \<open>auto split: option.split simp: no j_def [symmetric] intro!: holds_pure [of _ "getNValue _"] cr mo\<close>)
qed

subsection \<open>The contract\<close>

text \<open>
  What the effect leaves: the balances of the set are the coins of the ledger less the fee, and the
  source account has used the transaction's sequence number.
\<close>

definition accounted :: "Env \<Rightarrow> SerializedTransaction \<Rightarrow> u64 \<Rightarrow> LedgerEntrySet \<Rightarrow> bool" where
  "accounted env txn fee les \<longleftrightarrow> balanced fee les \<and> mMetaNodes (mSet les) = [] \<and>
     (\<exists>a s. getSourceAccount txn = Some a \<and> view les (getAccountRootIndex (sha512Half env) a) = Some s \<and>
        getFieldU32 s sfSequence = getSequence txn + 1)"

locale coin_class = charging_class +
  fixes suits :: "Env \<Rightarrow> Ledger \<Rightarrow> SerializedTransaction \<Rightarrow> bool"
  assumes neutral: "suits env l txn \<Longrightarrow> funded l \<Longrightarrow> getTransactionFee txn = mkNative fee False \<Longrightarrow> ready env txn params l fee x cur st \<Longrightarrow>
    holds (vDoApply cls env st) (\<lambda>r. fst r = tesSUCCESS \<longrightarrow> accounted env txn fee (snd (snd r)))"

lemma mkNative_inj [simp]: "mkNative x False = mkNative y False \<longleftrightarrow> x = y"
  by (auto simp: mkNative_def)

lemma ready_state:
  assumes f: "funded l" and r: "ready env txn params l fee x cur st"
  defines "i \<equiv> getAccountRootIndex (sha512Half env) (mTxnAccountID (fst st))"
  shows "at_state ((getSLE l)(i \<mapsto> cur)) {i} (fees_read env l, params) i cur st"
    and "balanced_map ((getSLE l)(i \<mapsto> cur)) (int (unat (mTotCoins l)) - int (unat fee))" and "x \<le> cMaxNative"
proof -
  obtain sle where s: "getSLE l i = Some sle" "mTxnAccount (fst st) = Some sle" "mIndex sle = i" "getFieldAmount sle sfBalance = mkNative x False"
    using r by (auto simp: ready_def Let_def i_def)
  have le: "fee \<le> x" and cur: "getFieldAmount cur sfBalance = mkNative (x - fee) False"
    and st: "state_is ((getSLE l)(i \<mapsto> cur)) {i} (fees_read env l, params) (snd st)"
    using r by (auto simp: ready_def Let_def i_def)
  show "at_state ((getSLE l)(i \<mapsto> cur)) {i} (fees_read env l, params) i cur st" using st s by (simp add: at_state_def)
  have b: "balanced_map (getSLE l) (int (unat (mTotCoins l)))" using f finite_ledger by (simp add: funded_def balanced_map_def)
  have "unat (x - fee) = unat x - unat fee" "unat fee \<le> unat x" using le by (simp_all add: unat_sub word_le_nat_alt)
  then show "balanced_map ((getSLE l)(i \<mapsto> cur)) (int (unat (mTotCoins l)) - int (unat fee))"
    using balanced_map_upd [OF b s(1), of cur "- int (unat fee)"] s(4) cur by (simp add: of_nat_diff)
  show "x \<le> cMaxNative" using funded_account [OF f s(1)] s(4) f by (auto simp: funded_def word_le_nat_alt)
qed

lemma accounted_intro:
  assumes "state_is m D (l', p) les" "balanced_map m (int (unat (mTotCoins l')) - int (unat fee))" "mTotCoins l' \<le> cMaxNative"
    "mMetaNodes (mSet les) = []" "getSourceAccount txn = Some a" "m (getAccountRootIndex (sha512Half env) a) = Some s"
    "getFieldU32 s sfSequence = getSequence txn + 1"
  shows "accounted env txn fee les"
  using assms by (auto simp: accounted_def balanced_def balanced_map_def state_is_def)

lemma tuned_accounted:
  assumes f: "funded l" and r: "ready env txn params l fee x cur st"
    and t: "tuned ((getSLE l)(i \<mapsto> cur)) (fees_read env l, params) i cur st'" and i: "i = getAccountRootIndex (sha512Half env) (mTxnAccountID (fst st))"
    and n: "mMetaNodes (mSet (snd st')) = []"
  shows "accounted env txn fee (snd st')"
proof -
  obtain cur' D where a: "at_state ((getSLE l)(i \<mapsto> cur')) D (fees_read env l, params) i cur' st'"
    and e: "edited (UNIV - {sfBalance, sfSequence}) cur cur'" using t by (auto simp: tuned_def)
  note rs = ready_state [OF f r, folded i]
  have "native_balance cur' = native_balance cur \<and> solvent cur' = solvent cur"
    using e by (simp add: native_balance_def solvent_def edited_get(2))
  moreover have "solvent cur" using rs(2) unfolding balanced_map_def all_solvent_def by (metis fun_upd_same)
  ultimately have b: "balanced_map ((getSLE l)(i \<mapsto> cur')) (int (unat (mTotCoins l)) - int (unat fee))"
    using balanced_map_upd [where m = "(getSLE l)(i \<mapsto> cur)" and i = i and s = cur and s' = cur' and d = 0, OF rs(2)] by simp
  show ?thesis
    by (rule accounted_intro [OF _ _ _ n, where m = "(getSLE l)(i \<mapsto> cur')" and l' = "fees_read env l" and p = params])
      (use a b f r edited_get(1) [OF e, of sfSequence] in \<open>auto simp: at_state_def funded_def ready_def Let_def i\<close>)
qed

text \<open>A direct payment in the native currency, and reserves that a 64-bit sum can hold.\<close>

definition native_payment :: "Env \<Rightarrow> Ledger \<Rightarrow> SerializedTransaction \<Rightarrow> bool" where
  "native_payment env l txn \<longleftrightarrow> \<not> isFieldPresent txn sfPaths \<and> \<not> isFieldPresent txn sfSendMax \<and>
     (\<exists>amt. getFieldAmount txn sfAmount = mkNative amt False) \<and>
     getAccountRootIndex (sha512Half env) (getFieldAccount160 txn sfDestination) \<noteq> 0 \<and>
     (\<forall>n. getReserve (sha512Half env) (config env) (fees_read env l) n \<le> cMaxNative)"

lemma direct_accounted:
  assumes p: "native_payment env l txn" and f: "funded l" and fee: "getTransactionFee txn = mkNative fee False"
    and r: "ready env txn params l fee x cur st" and amt: "getFieldAmount txn sfAmount = mkNative amt False" "amt \<le> cMaxNativeN"
    and k: "kept_st (snd st) s" and fs: "fst s = fst st" and i: "i = getAccountRootIndex (sha512Half env) (mTxnAccountID (fst st))"
    and a: "at_state m' D' (fees_read env l, params) i cur s" "mIndex sle \<in> D'" "m' (mIndex sle) \<noteq> None"
      "balanced_map m' (int (unat (mTotCoins l)) - int (unat fee))"
  shows "holds (direct_payment sle env s) (\<lambda>r. fst r = tesSUCCESS \<longrightarrow> accounted env txn fee (snd (snd r)))"
proof (rule holdsI, rule impI)
  fix y assume y: "direct_payment sle env s = Inr y" and t: "fst y = tesSUCCESS"
  have "same_txn txn (mTxn (fst st))" using r by (simp add: ready_def Let_def)
  note g = same_txn_get [OF this]
  have "mLedger (snd s) = fees_read env l" using a(1) by (auto simp: at_state_def state_is_def)
  then have res: "getReserve (sha512Half env) (config env) (mLedger (snd s)) n \<le> cMaxNative" for n using p by (simp add: native_payment_def)
  have c: "holds (direct_payment sle env s) (\<lambda>r. fst r = tesSUCCESS \<longrightarrow> (\<exists>m'. state_is m' D' (fees_read env l, params) (snd (snd r)) \<and>
      balanced_map m' (int (unat (mTotCoins l)) - int (unat fee)) \<and> (\<exists>s'. m' i = Some s' \<and> getFieldU32 s' sfSequence = getFieldU32 cur sfSequence)))"
    by (rule direct_payment_coins [OF a(1,2) refl a(3,4), where x = x and fee = fee and amt = amt])
      (use r f fs g amt fee ready_state(3) [OF f r] res in \<open>auto simp: ready_def Let_def funded_def word_le_nat_alt\<close>)
  have n: "mMetaNodes (mSet (snd (snd y))) = []"
    using holdsD [OF direct_payment_kept [OF k] y] r by (simp add: kept_def ready_def Let_def)
  have b: "getSourceAccount txn = Some (mTxnAccountID (fst st))" "getFieldU32 cur sfSequence = getSequence txn + 1" "mTotCoins (fees_read env l) \<le> cMaxNative"
    using r f by (simp_all add: ready_def Let_def funded_def)
  obtain m2 s2 where "state_is m2 D' (fees_read env l, params) (snd (snd y))" "balanced_map m2 (int (unat (mTotCoins l)) - int (unat fee))"
    "m2 i = Some s2" "getFieldU32 s2 sfSequence = getFieldU32 cur sfSequence" using holdsD [OF c y] t by blast
  then show "accounted env txn fee (snd (snd y))"
    using accounted_intro [OF _ _ b(3) n b(1), of m2 D' params fee env s2] b(2) by (simp add: i)
qed

lemma destination_code: "holds (payment_destination env st) (\<lambda>r. snd (fst r) = None \<longrightarrow> fst (fst r) \<noteq> tesSUCCESS)"
  by (auto simp: payment_destination_def Let_def ter_codes split: option.split
      intro!: on_les_holds holds_pure [of _ "entryCache _ _ _"] holds_pure [of _ "getNValue _"] holds_pure [of _ "entryCreate _ _ _"] holds_pure [of _ "entryModify _ _"])

lemma Payment_accounted:
  assumes p: "native_payment env l txn" and f: "funded l" and fee: "getTransactionFee txn = mkNative fee False"
    and r: "ready env txn params l fee x cur st"
  shows "holds (Payment_doApply env st) (\<lambda>r. fst r = tesSUCCESS \<longrightarrow> accounted env txn fee (snd (snd r)))"
proof -
  define i where "i = getAccountRootIndex (sha512Half env) (mTxnAccountID (fst st))"
  note rs = ready_state [OF f r, folded i_def]
  have tx: "same_txn txn (mTxn (fst st))" using r by (simp add: ready_def Let_def)
  note g = same_txn_get [OF tx]
  obtain amt where amt: "getFieldAmount txn sfAmount = mkNative amt False" using p by (auto simp: native_payment_def)
  have sm: "send_max (fst st) = Inr (mkNative amt False)" using p g amt by (simp add: send_max_def native_payment_def)
  define Q where "Q = (\<lambda>r :: TER \<times> tx_state. fst r = tesSUCCESS \<longrightarrow> accounted env txn fee (snd (snd r)))"
  have "holds (Payment_doApply env st) Q"
  proof (cases "payment_checks (fst st) (mkNative amt False) = tesSUCCESS")
    case True
    then have "isLegalNet (mkNative amt False)" using g amt by (auto simp: payment_checks_def Let_def ter_codes split: if_splits)
    then have al: "amt \<le> cMaxNativeN" by (auto simp: isLegalNet_def)
    have kk: "holds (payment_destination env st) (\<lambda>r. kept_st (snd st) (snd r))" by (rule payment_destination_kept) simp
    have dc: "holds (payment_destination env st) (\<lambda>r. \<forall>sle. snd (fst r) = Some sle \<longrightarrow>
      (\<exists>m' D'. at_state m' D' (fees_read env l, params) i cur (snd r) \<and> mIndex sle \<in> D' \<and> m' (mIndex sle) \<noteq> None \<and>
         balanced_map m' (int (unat (mTotCoins l)) - int (unat fee)) \<and> fst (snd r) = fst st))"
      by (rule payment_destination_coins [OF rs(1,2)]) (use p g in \<open>simp add: native_payment_def\<close>)
    have "holds (case sleDst of None \<Rightarrow> Inr (ter, s) | Some sle \<Rightarrow> direct_payment sle env s) Q"
      if e: "payment_destination env st = Inr ((ter, sleDst), s)" for ter sleDst s
    proof (cases sleDst)
      case None
      then show ?thesis using holdsD [OF destination_code e] by (simp add: Q_def)
    next
      case (Some sle)
      then obtain m' D' where "at_state m' D' (fees_read env l, params) i cur s" "mIndex sle \<in> D'" "m' (mIndex sle) \<noteq> None"
        "balanced_map m' (int (unat (mTotCoins l)) - int (unat fee))" "fst s = fst st" using holdsD [OF dc e] by auto
      then show ?thesis using direct_accounted [OF p f fee r amt al, of s i m' D' sle] holdsD [OF kk e] by (simp add: Some Q_def i_def)
    qed
    moreover have nr: "(isFieldPresent (mTxn (fst st)) sfPaths \<or> isFieldPresent (mTxn (fst st)) sfSendMax \<or>
        \<not> mIsNative (getFieldAmount (mTxn (fst st)) sfAmount)) = False" using p g amt by (simp add: native_payment_def)
    ultimately show ?thesis unfolding Payment_doApply_def Let_def sm bindE.simps nr if_False
      by (simp add: True holds_def [of "payment_destination env st"])
  qed (simp add: Payment_doApply_def Let_def sm Q_def)
  then show ?thesis by (simp add: Q_def)
qed

subsection \<open>Inflation\<close>

definition shares :: "int \<Rightarrow> int \<Rightarrow> (uint160 \<times> int) list \<Rightarrow> int" where
  "shares C T ws = sum_list (map (\<lambda>w. uint (dole_share C (snd w) T)) ws)"

lemma share_sum:
  fixes T C :: int
  assumes "0 < T" "\<forall>v \<in> set vs. 0 \<le> v" "0 \<le> C"
  shows "sum_list (map (\<lambda>v. C * v div T) vs) * T \<le> C * sum_list vs"
  using assms(2)
proof (induction vs)
  case (Cons v vs)
  have "C * v div T * T \<le> C * v" using assms(1) pos_mod_sign [of T "C * v"] div_mult_mod_eq [of "C * v" T] by linarith
  then show ?case using Cons by (simp add: algebra_simps)
qed simp

lemma shares_bound:
  assumes v: "\<forall>w \<in> set ws. 0 \<le> snd w" and T: "T = sum_list (map snd ws)" "0 < T" and C: "0 \<le> C"
  shows "shares C T ws \<le> C"
proof -
  have "uint (dole_share C v T) \<le> C * v div T" if "0 \<le> v" for v
  proof -
    have "0 \<le> C * v div T" using that C T(2) by (simp add: pos_imp_zdiv_nonneg_iff)
    then show ?thesis by (simp add: dole_share_def uint_word_of_int zmod_le_nonneg_dividend)
  qed
  then have "shares C T ws \<le> sum_list (map (\<lambda>v. C * v div T) (map snd ws))"
    unfolding shares_def using v by (induction ws) fastforce+
  moreover have "sum_list (map (\<lambda>v. C * v div T) (map snd ws)) * T \<le> C * T"
    using share_sum [OF T(2), of "map snd ws" C] v C T(1) by auto
  ultimately show ?thesis using T(2) by (meson mult_le_cancel_right_pos order_trans)
qed

text \<open>Doling out coins raises the balances and the total by the same amount.\<close>

definition doled :: "uint256 \<Rightarrow> (uint256 \<rightharpoonup> SLE) \<Rightarrow> (uint256 \<rightharpoonup> SLE) \<Rightarrow> bool" where
  "doled i m m' \<longleftrightarrow> (\<forall>s. m i = Some s \<longrightarrow> (\<exists>s'. m' i = Some s' \<and> getFieldU32 s' sfSequence = getFieldU32 s sfSequence))"

lemma doled_refl [simp]: "doled i m m" by (simp add: doled_def)

lemma doled_trans: "doled i a b \<Longrightarrow> doled i b c \<Longrightarrow> doled i a c" by (fastforce simp: doled_def)

definition dole_state :: "int \<Rightarrow> uint256 \<Rightarrow> (uint256 \<rightharpoonup> SLE) \<Rightarrow> u32 \<Rightarrow> int \<Rightarrow> TransactionMetaSet \<Rightarrow> LedgerEntrySet \<Rightarrow> bool" where
  "dole_state k i m0 p bound ms les \<longleftrightarrow> (\<exists>m D l. state_is m D (l, p) les \<and> balanced_map m (uint (mTotCoins l) - k) \<and>
     uint (mTotCoins l) \<le> bound \<and> doled i m0 m \<and> mSet les = ms)"

lemma mSet_ledger: "mSet (les\<lparr>mLedger := l\<rparr>) = mSet les" by simp

lemma dole_to_coins:
  assumes s: "dole_state k i m0 p bound ms les" and k: "0 \<le> k" and b: "bound + uint c \<le> uint cMaxNative"
  shows "holds (dole_to env dest c les) (dole_state k i m0 p (bound + uint c) ms)"
proof -
  obtain m D l where st: "state_is m D (l, p) les" and bm: "balanced_map m (uint (mTotCoins l) - k)" and lb: "uint (mTotCoins l) \<le> bound"
    and d: "doled i m0 m" and ms: "mSet les = ms" using s by (auto simp: dole_state_def)
  define j where "j = getAccountRootIndex (sha512Half env) dest"
  show ?thesis
  proof (rule holdsI)
    fix les' assume r: "dole_to env dest c les = Inr les'"
    obtain so les1 where c1: "entryCache ltACCOUNT_ROOT j les = Inr (so, les1)" using r by (auto simp: dole_to_def j_def exn_simps)
    have st1: "state_is m D (l, p) les1" and so: "so = (if j = 0 then None else m j)"
      using holdsD [OF entryCache_state [OF st, of "\<lambda>r. state_is m D (l, p) (snd r) \<and> fst r = (if j = 0 then None else m j)" j ltACCOUNT_ROOT] c1] by auto
    have ms1: "mSet les1 = ms" using holdsD [OF entryCache_kept [OF kept_refl] c1] ms by (simp add: kept_def)
    show "dole_state k i m0 p (bound + uint c) ms les'"
    proof (cases so)
      case None
      then have "les' = les1" using r c1 by (simp add: dole_to_def j_def)
      then show ?thesis using st1 bm lb d ms1 uint_nonnegative [of c] unfolding dole_state_def by (metis add_increasing2)
    next
      case (Some acct)
      obtain les2 y' where e: "entryModify acct les1 = Inr les2" and y': "amount_plus_u64 (getFieldAmount acct sfBalance) c = Inr y'"
        and les': "les' = (poke (setFieldAmount sfBalance y' acct) les2)\<lparr>mLedger := inflateCoins c (mLedger les2)\<rparr>"
        using r c1 Some by (auto simp: dole_to_def j_def exn_simps Let_def poke_parts)
      have mj: "m j = Some acct" using so Some by (auto split: if_splits)
      note ix = state_is_index [OF st1 mj]
      have st2: "state_is (m(j \<mapsto> acct)) (insert j D) (l, p) les2"
        using holdsD [OF entryModify_state [OF st1 ix, of "state_is (m(j \<mapsto> acct)) (insert j D) (l, p)"] e] mj by simp
      then have l2: "mLedger les2 = l" by (simp add: state_is_def)
      define acct' where "acct' = setFieldAmount sfBalance y' acct"
      have "mIsNative (getFieldAmount acct sfBalance)" using y' by (auto simp: amount_plus_u64_def getSNValue_def exn_simps split: if_splits)
      then obtain y where y: "getFieldAmount acct sfBalance = mkNative y False"
        using bm mj by (auto simp: balanced_map_def all_solvent_def solvent_def Let_def)
      have "uint y \<le> uint (mTotCoins l) - k" using coins_member [of m j acct] mj bm y by (simp add: balanced_map_def uint_nat)
      then have le: "uint y + uint c \<le> uint cMaxNative" "uint (mTotCoins l) + uint c \<le> uint cMaxNative" using k lb b by linarith+
      then have "unat y + unat c < 2 ^ 63" by (simp add: amount_consts uint_nat)
      then have y2: "y' = mkNative (y + c) False" using plus_u64_native y' y by simp
      have "uint (y + c) = uint y + uint c" and tc: "uint (mTotCoins l + c) = uint (mTotCoins l) + uint c"
        using le by (auto simp: amount_consts uint_word_ariths mod_pos_pos_trivial)
      then have nb: "native_balance acct' = native_balance acct + uint c" "solvent acct'" using y y2 by (simp_all add: acct'_def uint_nat)
      have st3: "state_is (m(j \<mapsto> acct')) (insert j D) (l, p) (poke acct' les2)"
        using state_is_poke [OF st2, of acct'] ix by (simp add: acct'_def setFieldAmount_def)
      have "state_is (m(j \<mapsto> acct')) (insert j D) (inflateCoins c l, p) les'"
        using state_is_ledger [OF st3, of "inflateCoins c l"] by (simp add: les' acct'_def l2 inflateCoins_def)
      moreover have "balanced_map (m(j \<mapsto> acct')) (uint (mTotCoins (inflateCoins c l)) - k)"
        using balanced_map_upd [OF bm mj nb] tc by (simp add: inflateCoins_def algebra_simps)
      moreover have "doled i m0 (m(j \<mapsto> acct'))"
        by (rule doled_trans [OF d]) (use mj in \<open>auto simp: doled_def acct'_def\<close>)
      moreover have "mSet les' = ms" using holdsD [OF entryModify_kept [OF kept_refl] e] ms1 by (simp add: les' kept_def poke_parts)
      ultimately show ?thesis using lb tc by (auto simp: dole_state_def inflateCoins_def intro!: exI)
    qed
  qed
qed

lemma dole_coins:
  assumes "dole_state k i m0 p bound ms les" "0 \<le> k" "bound + shares C T ws \<le> uint cMaxNative"
  shows "holds (dole env C T ws les) (dole_state k i m0 p (bound + shares C T ws) ms)"
  using assms
proof (induction ws arbitrary: bound les)
  case (Cons w ws)
  obtain d v where w: "w = (d, v)" by (rule prod.exhaust)
  define c where "c = dole_share C v T"
  have s: "shares C T (w # ws) = uint c + shares C T ws" "0 \<le> shares C T ws"
    by (auto simp: shares_def w c_def intro!: sum_list_nonneg)
  have "holds (dole_to env d c les) (dole_state k i m0 p (bound + uint c) ms)"
    by (rule dole_to_coins [OF Cons.prems(1,2)]) (use Cons.prems(3) s in linarith)
  then have "holds (dole_to env d c les) (\<lambda>les. holds (dole env C T ws les) (dole_state k i m0 p (bound + uint c + shares C T ws) ms))"
    by (rule holds_mono) (rule Cons.IH, use Cons.prems s in \<open>auto simp: add.assoc\<close>)
  then show ?case by (simp add: w c_def [symmetric] s(1) [unfolded w] add.assoc)
qed (simp add: shares_def)

text \<open>
  Inflation the arithmetic can hold: no negative votes, and the total with the coins to be doled out is
  within the range of native amounts.
\<close>

definition inflation_ok :: "Env \<Rightarrow> Ledger \<Rightarrow> bool" where
  "inflation_ok env l \<longleftrightarrow> (\<forall>w \<in> set (inflationVotes env). 0 \<le> snd w) \<and> uint (mTotCoins l) + coins_to_dole l \<le> uint cMaxNative"

lemma more_winners_subset: "set (more_winners b rows) \<subseteq> set rows"
  by (induction b rows rule: more_winners.induct) auto

lemma select_winners_total:
  assumes "select_winners l rows = (ws, T)"
  shows "T = sum_list (map snd ws) \<and> set ws \<subseteq> set rows"
proof (cases rows)
  case (Cons r rest)
  obtain d v where r: "r = (d, v)" by (rule prod.exhaust)
  define b where "b = (if v \<le> uint (mTotCoins l) * INFLATION_WIN_MIN_PERCENT div TRILLION then 0 else uint (mTotCoins l) * INFLATION_WIN_MIN_PERCENT div TRILLION)"
  have "ws = (d, v) # more_winners b rest" "T = sum_list (map snd ws)" using assms by (auto simp: select_winners_def Cons r Let_def b_def)
  then show ?thesis using more_winners_subset [of b rest] by (auto simp: Cons r)
qed (use assms in \<open>simp add: select_winners_def\<close>)

lemma coins_to_dole_nonneg: "0 \<le> coins_to_dole l"
  by (simp add: coins_to_dole_def inflation_consts pos_imp_zdiv_nonneg_iff)

lemma selected_shares:
  assumes v: "\<forall>w \<in> set rows. 0 \<le> snd w" and s: "select_winners l rows = (ws, T)" and T: "T \<noteq> 0 \<or> ws = []" and C: "0 \<le> C"
  shows "shares C T ws \<le> C"
proof (cases "ws = []")
  case False
  have w: "\<forall>w \<in> set ws. 0 \<le> snd w" and t: "T = sum_list (map snd ws)" using v select_winners_total [OF s] by auto
  have "0 \<le> T" using w unfolding t by (auto intro!: sum_list_nonneg)
  then show ?thesis using shares_bound [OF w t _ C] T False by auto
qed (simp add: shares_def C)

lemma Inflation_accounted:
  assumes k: "inflation_ok env l" and f: "funded l" and r: "ready env txn params l fee x cur st"
  shows "holds (Inflation_doApply env st) (\<lambda>r. fst r = tesSUCCESS \<longrightarrow> accounted env txn fee (snd (snd r)))"
proof (rule holdsI, rule impI)
  fix y assume y: "Inflation_doApply env st = Inr y"
  define i where "i = getAccountRootIndex (sha512Half env) (mTxnAccountID (fst st))"
  note rs = ready_state [OF f r, folded i_def]
  have st: "state_is ((getSLE l)(i \<mapsto> cur)) {i} (fees_read env l, params) (snd st)" using rs(1) by (simp add: at_state_def)
  then have l0: "mLedger (snd st) = fees_read env l" by (simp add: state_is_def)
  define C where "C = coins_to_dole l"
  have C: "coins_to_dole (fees_read env l) = C" "0 \<le> C" using coins_to_dole_nonneg by (simp_all add: C_def coins_to_dole_def)
  obtain ws T where sw: "select_winners (fees_read env l) (take INFLATION_NUM_WINNERS (inflationVotes env)) = (ws, T)" by (rule prod.exhaust)
  obtain les where d: "dole env C T ws (snd st) = Inr les"
    and y2: "y = (tesSUCCESS, (fst st, les\<lparr>mLedger := incrementInflationSeq (mLedger les)\<rparr>))"
    using y r sw C(1) l0 by (auto simp: Inflation_doApply_def ready_def Let_def exn_simps)
  have "T \<noteq> 0 \<or> ws = []" using d by (cases ws) (auto split: if_splits)
  then have sb: "shares C T ws \<le> C" using selected_shares [OF _ sw _ C(2)] k by (auto simp: inflation_ok_def dest: in_set_takeD)
  have s0: "dole_state (uint fee) i ((getSLE l)(i \<mapsto> cur)) params (uint (mTotCoins l)) (mSet (snd st)) (snd st)"
    unfolding dole_state_def by (intro exI [of _ "(getSLE l)(i \<mapsto> cur)"] exI [of _ "{i}"] exI [of _ "fees_read env l"])
      (use st rs(2) in \<open>simp add: uint_nat\<close>)
  have "dole_state (uint fee) i ((getSLE l)(i \<mapsto> cur)) params (uint (mTotCoins l) + shares C T ws) (mSet (snd st)) les"
    using holdsD [OF dole_coins [OF s0] d] k sb by (simp add: inflation_ok_def C_def)
  then obtain m D l' where m: "state_is m D (l', params) les" "balanced_map m (uint (mTotCoins l') - uint fee)"
    "uint (mTotCoins l') \<le> uint (mTotCoins l) + shares C T ws" "doled i ((getSLE l)(i \<mapsto> cur)) m" "mSet les = mSet (snd st)"
    by (auto simp: dole_state_def)
  obtain s' where s': "m i = Some s'" "getFieldU32 s' sfSequence = getFieldU32 cur sfSequence" using m(4) by (auto simp: doled_def)
  have "mTotCoins l' \<le> cMaxNative" using m(3) sb k by (simp add: inflation_ok_def C_def word_le_def)
  then show "accounted env txn fee (snd (snd y))"
    using accounted_intro [of m D "incrementInflationSeq l'" params "snd (snd y)" fee txn "mTxnAccountID (fst st)" env s']
      state_is_ledger [OF m(1), of "incrementInflationSeq l'"] m r s'
    by (simp add: y2 incrementInflationSeq_def ready_def Let_def i_def uint_nat state_is_def)
qed

lemma checkSig_master: "checkSig env st = Inr (t, st') \<Longrightarrow> \<exists>b. st' = ((fst st)\<lparr>mSigMaster := b\<rparr>, snd st)"
proof -
  assume r: "checkSig env st = Inr (t, st')"
  have "fst st = (fst st)\<lparr>mSigMaster := mSigMaster (fst st)\<rparr>" by simp
  then have "\<exists>b. st = ((fst st)\<lparr>mSigMaster := b\<rparr>, snd st)" by (metis prod.collapse)
  then show ?thesis using r by (auto simp: checkSig_def Let_def exn_simps split: if_splits)
qed

lemma kept_meta: "holds r (\<lambda>r. kept_st s (snd r)) \<Longrightarrow> r = Inr y \<Longrightarrow> mMetaNodes (mSet s) = [] \<Longrightarrow> mMetaNodes (mSet (snd (snd y))) = []"
  by (auto simp: kept_def)

lemma tuned_effect:
  assumes k: "holds r (\<lambda>r. kept_st (snd st) (snd r))"
    and t: "\<And>m f i. tuned m f i cur st \<Longrightarrow> holds r (\<lambda>r. tuned m f i cur (snd r))"
    and f: "funded l" and rd: "ready env txn params l fee x cur st"
  shows "holds r (\<lambda>r. fst r = tesSUCCESS \<longrightarrow> accounted env txn fee (snd (snd r)))"
proof (rule holdsI, rule impI)
  fix y assume y: "r = Inr y"
  note s = ready_state(1) [OF f rd, THEN tuned_start]
  show "accounted env txn fee (snd (snd y))"
    by (rule tuned_accounted [OF f rd holdsD [OF t [OF s] y] refl]) (use kept_meta [OF k y] rd in \<open>simp add: ready_def Let_def\<close>)
qed

lemmas class_simps = class_defs precheckAgainstLedger_def Inflation_precheckAgainstLedger_def Inflation_checkSig_def Inflation_payFee_def

lemma same_master: "\<exists>b. st = ((fst st)\<lparr>mSigMaster := b\<rparr>, snd st)"
  by (rule exI [of _ "mSigMaster (fst st)"]) simp

interpretation payment_coins: coin_class PaymentTransactor native_payment
  by unfold_locales (auto simp: class_simps checkSig_master intro: Payment_accounted)

interpretation account_set_coins: coin_class AccountSetTransactor "\<lambda>_ _ _. True"
  by unfold_locales (auto simp: class_simps checkSig_master intro!: tuned_effect AccountSet_kept AccountSet_tuned)

interpretation regular_key_coins: coin_class RegularKeySetTransactor "\<lambda>_ _ _. True"
  by unfold_locales (auto simp: class_simps checkSig_master intro!: tuned_effect RegularKeySet_kept RegularKeySet_tuned)

lemma signum_zero: "signum a = 0 \<longleftrightarrow> isZero a"
  by (auto simp: signum_def isZero_def split: if_splits)

interpretation inflation_coins: coin_class InflationTransactor "\<lambda>env l _. inflation_ok env l"
  by unfold_locales (auto simp: class_simps same_master signum_zero Let_def ter_codes intro: Inflation_accounted [unfolded ter_codes] split: if_splits)

section \<open>The engine keeps the coins\<close>

text \<open>The transactions the conservation laws speak of, and the source account they need.\<close>

definition conserving :: "Env \<Rightarrow> Ledger \<Rightarrow> SerializedTransaction \<Rightarrow> bool" where
  "conserving env l txn \<longleftrightarrow> mTxType txn = ttACCOUNT_SET \<or> mTxType txn = ttREGULAR_KEY_SET \<or>
     mTxType txn = ttPAYMENT \<and> native_payment env l txn \<or> mTxType txn = ttINFLATION \<and> inflation_ok env l"

definition native_source :: "Env \<Rightarrow> Ledger \<Rightarrow> SerializedTransaction \<Rightarrow> bool" where
  "native_source env l txn \<longleftrightarrow> (\<forall>a sle. getSourceAccount txn = Some a \<longrightarrow>
     getSLE l (getAccountRootIndex (sha512Half env) a) = Some sle \<longrightarrow> mIsNative (getFieldAmount sle sfBalance))"

lemma conserving_class:
  assumes "makeTransactor oc (mTxType txn) = Some cls" "conserving env l txn"
  shows "mTxType txn \<noteq> ttOFFER_CREATE \<and> (\<exists>suits. coin_class cls suits \<and> suits env l txn)"
  using assms payment_coins.coin_class_axioms account_set_coins.coin_class_axioms regular_key_coins.coin_class_axioms
    inflation_coins.coin_class_axioms
  by (auto simp: conserving_def makeTransactor_def tx_types split: if_splits)

context coin_class
begin

lemma applied_accounted:
  assumes s: "suits env l txn" and f: "funded l" and n: "native_source env l txn" and fee: "getTransactionFee txn = mkNative fee False"
    and r: "apply_tx cls env (newTransactor txn params True, init l txID q params nodes) = Inr (tesSUCCESS, st')"
  shows "accounted env txn fee (snd st') \<and> (\<exists>a sle. getSourceAccount txn = Some a \<and>
    getSLE l (getAccountRootIndex (sha512Half env) a) = Some sle \<and> getFieldU32 sle sfSequence = getSequence txn)"
proof -
  have "\<exists>x. getFieldAmount sle sfBalance = mkNative x False \<and> unat x < 2 ^ 63"
    if "getSourceAccount txn = Some a" "getSLE l (getAccountRootIndex (sha512Half env) a) = Some sle" for a sle
    using funded_account [OF f that(2)] n that by (auto simp: native_source_def)
  then obtain x cur st where rd: "ready env txn params l fee x cur st" and v: "vDoApply cls env st = Inr (tesSUCCESS, st')"
    using apply_ready [OF _ fee _ r] f unfolding funded_def by blast
  show ?thesis using holdsD [OF neutral [OF s f fee rd] v] rd by (auto simp: ready_def Let_def)
qed

end

lemma claims_funded:
  assumes c: "claims env txn l m" and f: "funded l" and n: "native_source env l txn" and fee: "getTransactionFee txn = mkNative fee False"
  shows "all_solvent m \<and> coins m + int (unat fee) = int (unat (mTotCoins l)) \<and> finite (dom m)"
proof -
  obtain a sle left where a: "getSourceAccount txn = Some a" and g: "getSLE l (getAccountRootIndex (sha512Half env) a) = Some sle"
    and le: "amount_less (getFieldAmount sle sfBalance) (getTransactionFee txn) = Inr False"
    and l: "amount_sub (getFieldAmount sle sfBalance) (getTransactionFee txn) = Inr left"
    and m: "m = (getSLE l)(getAccountRootIndex (sha512Half env) a \<mapsto> charged txn left sle)" using c by (auto simp: claims_def)
  have "mIsNative (getFieldAmount sle sfBalance)" using n a g by (simp add: native_source_def)
  then obtain x where x: "getFieldAmount sle sfBalance = mkNative x False" "unat x < 2 ^ 63" using funded_account [OF f g] by auto
  have fx: "fee \<le> x" using le by (simp add: x fee native_less)
  have left: "getFieldAmount (charged txn left sle) sfBalance = mkNative (x - fee) False"
    using l native_sub [OF _ x(2), of fee] fx by (simp add: charged_def x fee)
  have b: "balanced_map (getSLE l) (int (unat (mTotCoins l)))" using f finite_ledger by (simp add: funded_def balanced_map_def)
  have "unat (x - fee) = unat x - unat fee" "unat fee \<le> unat x" using fx by (simp_all add: unat_sub word_le_nat_alt)
  then have "balanced_map m (int (unat (mTotCoins l)) - int (unat fee))"
    using balanced_map_upd [OF b g, of "charged txn left sle" "- int (unat fee)"] x left by (simp add: m of_nat_diff)
  then show ?thesis by (auto simp: balanced_map_def)
qed

lemma committed_sequence:
  assumes "committed txID txn isOpen m l l'" "m i = Some s"
  shows "\<exists>s'. getSLE l' i = Some s' \<and> getFieldU32 s' sfSequence = getFieldU32 s sfSequence"
proof -
  have "rel_option threaded (m i) (getSLE l' i)" using assms(1) by (simp add: committed_def)
  then obtain s' where s': "getSLE l' i = Some s'" "threaded s s'" using assms(2) by (metis option.rel_cases option.distinct(1) option.inject)
  then show ?thesis using edited_get(1) [of thread_fields s s' sfSequence] by (simp add: threaded_edited thread_fields_def)
qed

text \<open>The source account of a transaction has a given sequence number.\<close>

definition at_sequence :: "Env \<Rightarrow> SerializedTransaction \<Rightarrow> Ledger \<Rightarrow> u32 \<Rightarrow> bool" where
  "at_sequence env txn l n \<longleftrightarrow> (\<exists>a sle. getSourceAccount txn = Some a \<and>
     getSLE l (getAccountRootIndex (sha512Half env) a) = Some sle \<and> getFieldU32 sle sfSequence = n)"

lemma applied_run:
  assumes p: "path_engine_ok env" and f: "funded (engLedger eng)" and cl: "mClosingLedger eng" and op: "\<not> is_bit_set params tapOPEN_LEDGER"
    and c: "conserving env (engLedger eng) txn" and n: "native_source env (engLedger eng) txn" and fee: "getTransactionFee txn = mkNative fee False"
    and r: "applyTransaction oc env txn params eng = Inr ((ter, True), txn', eng')"
  shows "funded (engLedger eng') \<and> at_sequence env txn (engLedger eng) (getSequence txn) \<and> at_sequence env txn (engLedger eng') (getSequence txn + 1)"
proof -
  obtain txID cls t1 tr les1 les les2 where run: "getTransactionID (sha512Half env) txn = Inr txID" "makeTransactor oc (mTxType txn) = Some cls"
    "apply_tx cls env (newTransactor txn params (mClosingLedger eng),
       init (engLedger eng) txID (mLedgerSeq (engLedger eng)) params (mNodes eng)) = Inr (t1, (tr, les1))"
    and d: "decide env txn params t1 les1 = Inr ((ter, True), les)"
    and cm: "commit env txID txn params ter (mTxnSeq eng) les = Inr ((ter, True), les2)" "engLedger eng' = mLedger les2"
    by (rule applied_cases [OF r])
  obtain suits where ty: "mTxType txn \<noteq> ttOFFER_CREATE" and cc: "coin_class cls suits" "suits env (engLedger eng) txn"
    using conserving_class [OF run(2) c] by blast
  have ok: "ledger_ok (engLedger eng)" "mTotCoins (engLedger eng) \<le> cMaxNative" using f by (simp_all add: funded_def)
  have ct: "mClosingLedger eng = True" using cl by simp
  show ?thesis
  proof (cases "isTesSuccess t1")
    case True
    then have t: "t1 = tesSUCCESS" "ter = tesSUCCESS" "les = les1" using decide_success [OF d] by (simp_all add: isTesSuccess_def)
    have a: "accounted env txn fee les1" and s: "at_sequence env txn (engLedger eng) (getSequence txn)"
      using coin_class.applied_accounted [OF cc f n fee run(3) [unfolded ct t]] by (auto simp: at_sequence_def)
    have b: "balanced fee les1" "mMetaNodes (mSet les1) = []" using a by (simp_all add: accounted_def)
    have k: "committed txID txn False (view les1) (mLedger les1) (engLedger eng')"
      using commit_applied [OF cm(1)] b op cm(2) t by (simp add: balanced_def)
    obtain src s1 where v: "getSourceAccount txn = Some src" "view les1 (getAccountRootIndex (sha512Half env) src) = Some s1"
      "getFieldU32 s1 sfSequence = getSequence txn + 1" using a by (auto simp: accounted_def)
    then have "at_sequence env txn (engLedger eng') (getSequence txn + 1)" using committed_sequence [OF k v(2)] by (auto simp: at_sequence_def)
    moreover have "funded (engLedger eng')" using committed_funded [OF k fee] b(1) finite_view by (simp add: balanced_def)
    ultimately show ?thesis using s by blast
  next
    case False
    then have "isTecClaim ter" using decide_success [OF d] by simp
    then obtain m where m: "claims env txn (engLedger eng) m" and k: "committed txID txn False m (engLedger eng) (engLedger eng')"
      using claimed_run [OF settled_run [OF p ty run(2,3)] ok(1) _ d cm(1)] op cm(2) by auto
    have "funded (engLedger eng')" using committed_funded [OF k fee] claims_funded [OF m f n fee] ok(2) by blast
    moreover obtain a sle left where cd: "getSourceAccount txn = Some a" "getSLE (engLedger eng) (getAccountRootIndex (sha512Half env) a) = Some sle"
      "getFieldU32 sle sfSequence = getSequence txn" "m (getAccountRootIndex (sha512Half env) a) = Some (charged txn left sle)"
      using m by (auto simp: claims_def)
    moreover have "getFieldU32 (charged txn left sle) sfSequence = getSequence txn + 1" by (simp add: charged_def)
    ultimately show ?thesis using committed_sequence [OF k cd(4)] by (auto simp: at_sequence_def)
  qed
qed



lemma select_winners_length: "length (fst (select_winners l rows)) \<le> length rows"
proof -
  have "length (more_winners b rs) \<le> length rs" for b rs by (induction b rs rule: more_winners.induct) auto
  then show ?thesis by (cases rows) (simp_all add: select_winners_def Let_def case_prod_unfold)
qed

text \<open>
  C23. Inflation stays within its rate. When the votes are not negative, the shares the winners receive add
  up to at most the coins to be doled out, the rate of the total for one period and the pool of fees, and no
  more than 50 accounts receive one. The shares are computed with exact quotients that are cut to 64
  bits; the sum is that of the values after the cut.
\<close>

theorem inflation_within_rate:
  assumes "\<forall>w \<in> set rows. 0 \<le> snd w" "select_winners l (take INFLATION_NUM_WINNERS rows) = (winners, totalVoted)"
    "0 < totalVoted"
  shows "sum_list (map (\<lambda>w. uint (dole_share (coins_to_dole l) (snd w) totalVoted)) winners) \<le> coins_to_dole l \<and> length winners \<le> 50"
proof -
  have "shares (coins_to_dole l) totalVoted winners \<le> coins_to_dole l"
    using assms by (intro selected_shares [OF _ assms(2)]) (auto dest: in_set_takeD intro: coins_to_dole_nonneg)
  moreover have "length winners \<le> length (take INFLATION_NUM_WINNERS rows)"
    using select_winners_length [of l "take INFLATION_NUM_WINNERS rows"] by (simp only: assms(2) fst_conv)
  ultimately show ?thesis by (simp add: shares_def inflation_consts)
qed

theorem inflation_within_rate_witness:
  "uint (dole_share (coins_to_dole sample_ledger) 600 1000) + uint (dole_share (coins_to_dole sample_ledger) 400 1000) \<le> coins_to_dole sample_ledger"
proof -
  show ?thesis using inflation_within_rate [of "[(5, 600), (6, 400)]" sample_ledger "[(5, 600), (6, 400)]" 1000]
    by (simp add: select_winners_def sample_ledger_def inflation_consts)
qed

end
