(* ===== verification/Engine_Samples.thy ===== *)
theory Engine_Samples
  imports Coin_Laws
begin

text \<open>
  The engine at work: a ledger with one account, a transaction that is applied and a payment that
  cannot be funded, evaluated from the first check to the commit. The laws of the engine are applied to
  them.
\<close>

section \<open>The sample transactions\<close>

definition sample_env :: Env where
  "sample_env = \<lparr>sha512Half = (\<lambda>_. 1), hash160 = (\<lambda>_. 2), signVerify = (\<lambda>_ _ _. True),
     config = \<lparr>FEE_DEFAULT = 10, FEE_ACCOUNT_RESERVE = 100, FEE_OWNER_RESERVE = 50\<rparr>,
     feeTrack = \<lparr>mLocalTxnLoadFee = 256, mRemoteTxnLoadFee = 256, mClusterTxnLoadFee = 256, raiseCount = 0\<rparr>,
     replaySeq = 0, inflationVotes = [], amendmentSupported = (\<lambda>_. True), rippleCalc = (\<lambda>_ _ _ _ _ _ _ _ _ _. Inl NullPointer)\<rparr>"

definition sample_account :: SLE where
  "sample_account = setFieldU32 sfSequence 7 (setFieldAmount sfBalance (mkNative 1000 False) (mkSLE ltACCOUNT_ROOT 1))"

definition sample_state :: Ledger where
  "sample_state = sample_ledger\<lparr>mTotCoins := 1000, mAccountStateMap := [(1, sample_account)]\<rparr>"

definition sample_engine :: "bool \<Rightarrow> TransactionEngine" where
  "sample_engine closing = \<lparr>engLedger = sample_state, mNodes = sample_les, mTxnSeq = 0, mClosingLedger = closing, engEvents = []\<rparr>"

definition sample_set :: SerializedTransaction where
  "sample_set = \<lparr>mFields = [sfTransactionType \<mapsto> VU16 3, sfAccount \<mapsto> VAccount (be_bytes 20 (2 :: uint160)), sfSequence \<mapsto> VU32 7,
     sfFee \<mapsto> VAmount (mkNative 10 False), sfSigningPubKey \<mapsto> VBlob []],
     mTxType = 3, mSigGood = True, mSigBad = False\<rparr>"

definition sample_payment :: SerializedTransaction where
  "sample_payment = \<lparr>mFields = [sfTransactionType \<mapsto> VU16 0, sfAccount \<mapsto> VAccount (be_bytes 20 (2 :: uint160)), sfSequence \<mapsto> VU32 7,
     sfFee \<mapsto> VAmount (mkNative 10 False), sfSigningPubKey \<mapsto> VBlob [], sfDestination \<mapsto> VAccount (be_bytes 20 (3 :: uint160)),
     sfAmount \<mapsto> VAmount (mkNative 5000 False)],
     mTxType = 0, mSigGood = True, mSigBad = False\<rparr>"

text \<open>What the checks of the samples read of a transaction.\<close>

definition sampled :: "SerializedTransaction \<Rightarrow> bool" where
  "sampled txn \<longleftrightarrow> getSourceAccount txn = Some 2 \<and> getSequence txn = 7 \<and> getTransactionFee txn = mkNative 10 False \<and> mSigGood txn \<and>
     \<not> isFieldPresent txn sfPreviousTxnID \<and> \<not> isFieldPresent txn sfAccountTxnID \<and> \<not> isFieldPresent txn sfLastLedgerSequence \<and>
     getSigningPubKey txn = [] \<and> getTransactionID (\<lambda>_. 1) txn = Inr 1"

lemma sampled_sets: "sampled sample_set" "sampled sample_payment"
  by code_simp+

lemmas sample_defs = sample_env_def sample_state_def sample_engine_def sample_les_def sample_ledger_def init_def

definition held :: "u32 \<Rightarrow> LedgerEntryAction \<Rightarrow> SLE \<Rightarrow> LedgerEntrySet" where
  "held p act sle = (init sample_state 1 2 p sample_les)\<lparr>mEntries := [(1, \<lparr>mEntry = sle, mAction = act, mEntrySeq = 0\<rparr>)]\<rparr>"

lemma sample_account_index [simp]: "mIndex sample_account = 1"
  by (simp add: sample_account_def mkSLE_def)

lemma sample_cached: "entryCache ltACCOUNT_ROOT 1 (init sample_state 1 2 p sample_les) = Inr (Some sample_account, held p taaCACHED sample_account)"
  by (simp add: entryCache_def getEntry_def sample_defs getSLE_def entryCache_sle_def put_entry_def held_def)

lemma held_simps: "mLedger (held p act s) = sample_state" "poke t (held p act s) = (if mIndex t = 1 then held p act t else held p act s)"
  "mIndex a = 1 \<Longrightarrow> act \<noteq> taaDELETE \<Longrightarrow> deref a (held p act s) = s" "(held p act s)\<lparr>mLedger := sample_state\<rparr> = held p act s"
  "mIndex a = 1 \<Longrightarrow> entryModify a (held p taaCACHED s) = Inr (held p taaMODIFY a)"
  by (simp_all add: held_def sample_defs poke_def deref_def view_def entryModify_def put_entry_def)

lemma sample_fees: "fees_read sample_env sample_state = sample_state"
  by (simp add: fees_read_def sample_defs)

lemma sample_account_fields: "getFieldU32 sample_account sfSequence = 7" "getFieldAmount sample_account sfBalance = mkNative 1000 False"
  "\<not> isFieldPresent sample_account sfAccountTxnID" "\<not> isFieldPresent sample_account sfRegularKey" "getFieldU32 sample_account sfFlags = 0"
  "getFlags sample_account = 0"
  by code_simp+

definition paid_account :: SLE where
  "paid_account = setFieldAmount sfBalance (mkNative 990 False) (setFieldU32 sfSequence 8 sample_account)"

lemma sample_env_simps: "sha512Half sample_env = (\<lambda>_. 1)" "hash160 sample_env = (\<lambda>_. 2)" "FEE_DEFAULT (config sample_env) = 10"
  by (simp_all add: sample_env_def)

lemma sample_less: "amount_less (mkNative 1000 False) (mkNative 10 False) = Inr False" "amount_less (mkNative 10 False) (mkNative 10 False) = Inr False"
  "amount_sub (mkNative 1000 False) (mkNative 10 False) = Inr (mkNative 990 False)" "isLegalNet (mkNative 10 False)" "\<not> signum (mkNative 10 False) < 0"
  "\<not> isZero (mkNative 10 False)"
  by code_simp+

lemma sample_load: "ledgerScaleFeeLoad (\<lambda>_. 1) (config sample_env) (feeTrack sample_env) sample_state 10 (is_bit_set p tapADMIN) = 10"
  by (cases "is_bit_set p tapADMIN"; simp only:; code_simp)

lemma sample_preCheck: "sampled txn \<Longrightarrow> preCheck sample_env (newTransactor txn p c) =
    Inr (tesSUCCESS, (newTransactor txn p c)\<lparr>mTxnAccountID := 2, mSigningPubKey := Some []\<rparr>)"
  by (simp add: preCheck_def newTransactor_def sampled_def getAccountID_def)

lemma sample_expected: "expected_seq (tr, held p act s) 7 = Inr 7"
  by (simp add: expected_seq_def held_simps sample_state_def sample_ledger_def)

definition checked_tr :: "SerializedTransaction \<Rightarrow> u32 \<Rightarrow> bool \<Rightarrow> STAmount \<Rightarrow> bool \<Rightarrow> Transactor" where
  "checked_tr txn p c left master = \<lparr>mTxn = txn, mTxnParams = p, mEngineClosing = c, mTxnAccountID = 2, mFeeDue = mkNative 10 False,
     mPriorBalance = mkNative 1000 False, mSourceBalance = left, mTxnAccount = Some sample_account, mHasAuthKey = False, mSigMaster = master,
     mSigningPubKey = Some [], mAppEvents = []\<rparr>"

lemma set_index [simp]: "mIndex (setFieldU32 f u s) = mIndex s" "mIndex (setFieldAmount f a s) = mIndex s"
  by (simp_all add: setFieldU32_def setFieldAmount_def)

lemma paid_account_fields: "getFieldU32 paid_account sfSequence = 8" "getFieldAmount paid_account sfBalance = mkNative 990 False"
  "\<not> isFlag paid_account lsfDisableMaster" "getFieldU32 paid_account sfFlags = 0" "mIndex paid_account = 1"
  by code_simp+

lemmas sample_facts = held_simps sample_account_fields paid_account_fields sample_expected sample_less sample_env_simps

lemma sample_checks:
  assumes "sampled txn"
  shows "apply_checks (base_class eff) sample_env (checked_tr txn p c (mkNative 1000 False) False, held p taaCACHED sample_account) =
   Inr (tesSUCCESS, checked_tr txn p c (mkNative 990 False) True, held p taaCACHED paid_account)"
proof -
  have 1: "checkSeq sample_env (checked_tr txn p c (mkNative 1000 False) False, held p taaCACHED sample_account) =
      Inr (tesSUCCESS, checked_tr txn p c (mkNative 1000 False) False, held p taaCACHED (setFieldU32 sfSequence 8 sample_account))"
    using assms by (simp add: checkSeq_def Let_def txn_account_def upd_account_def checked_tr_def sample_facts sampled_def)
  have 2: "payFee sample_env (checked_tr txn p c (mkNative 1000 False) False, held p taaCACHED (setFieldU32 sfSequence 8 sample_account)) =
      Inr (tesSUCCESS, checked_tr txn p c (mkNative 990 False) False, held p taaCACHED paid_account)"
    using assms by (simp add: payFee_def Let_def txn_account_def upd_account_def checked_tr_def sample_facts paid_account_def sampled_def)
  have 3: "checkSig sample_env (checked_tr txn p c (mkNative 990 False) False, held p taaCACHED paid_account) =
      Inr (tesSUCCESS, checked_tr txn p c (mkNative 990 False) True, held p taaCACHED paid_account)"
    by (simp add: checkSig_def Let_def signing_account_def getAccountID_def txn_account_def checked_tr_def sample_facts)
  show ?thesis by (simp add: apply_checks_def check_def base_class_def 1 2 3 precheckAgainstLedger_def)
qed

lemma sample_apply:
  assumes s: "sampled txn"
  shows "apply_tx (base_class eff) sample_env (newTransactor txn p c, init sample_state 1 2 p sample_les) =
   (if c then eff sample_env (checked_tr txn p True (mkNative 990 False) True, held p taaMODIFY paid_account)
    else Inr (tesSUCCESS, checked_tr txn p False (mkNative 990 False) True, held p taaCACHED paid_account))"
proof -
  define tr where "tr = (newTransactor txn p c)\<lparr>mTxnAccountID := 2, mSigningPubKey := Some [], mTxnAccount := Some sample_account\<rparr>"
  have 1: "calculateFee (base_class eff) sample_env (tr, held p taaCACHED sample_account) = Inr (tr\<lparr>mFeeDue := mkNative 10 False\<rparr>, held p taaCACHED sample_account)"
    by (simp add: calculateFee_def base_class_def calculateBaseFee_def sample_facts sample_load sample_fees newTransactor_def tr_def)
  have 2: "load_account (tr\<lparr>mFeeDue := mkNative 10 False\<rparr>, held p taaCACHED sample_account) =
      (checked_tr txn p c (mkNative 1000 False) False, held p taaCACHED sample_account)"
    by (simp add: load_account_def Let_def checked_tr_def newTransactor_def sample_facts tr_def)
  have 3: "apply_effect (base_class eff) sample_env (checked_tr txn p c (mkNative 990 False) True, held p taaCACHED paid_account) =
      (if c then eff sample_env (checked_tr txn p True (mkNative 990 False) True, held p taaMODIFY paid_account)
       else Inr (tesSUCCESS, checked_tr txn p False (mkNative 990 False) True, held p taaCACHED paid_account))"
    by (cases c) (simp_all add: apply_effect_def checked_tr_def base_class_def sample_facts)
  have cls: "vPreCheck (base_class eff) = preCheck" "vMustHaveValidAccount (base_class eff)" by (simp_all add: base_class_def)
  have "mTxnAccount tr = Some sample_account" by (simp add: tr_def)
  then show ?thesis unfolding apply_tx_def
    by (simp add: cls 1 [unfolded tr_def] 2 [unfolded tr_def] 3 check_def sample_checks [OF s] sample_preCheck [OF s] getAccountRootIndex_def sample_facts sample_cached)
qed

lemma sample_set_effect:
  "AccountSet_doApply sample_env (checked_tr sample_set p True (mkNative 990 False) True, held p taaMODIFY paid_account) =
   Inr (tesSUCCESS, checked_tr sample_set p True (mkNative 990 False) True, held p taaMODIFY paid_account)"
proof -
  have "getFlags sample_set = 0" "getFieldU32 sample_set sfSetFlag = 0" "getFieldU32 sample_set sfClearFlag = 0"
    "\<not> isFieldPresent sample_set sfInflationDest" "\<not> isFieldPresent sample_set sfSetAuthKey" "\<not> isFieldPresent sample_set sfTransferRate"
    by code_simp+
  then show ?thesis
    by (simp add: AccountSet_doApply_def Let_def txn_account_def checked_tr_def sample_facts sets_flag_def clears_flag_def account_flags_def
      set_clear_def disable_master_def set_account_fields_def check_def set_inflation_dest_def set_auth_key_def set_transfer_rate_def is_bit_set_def
      asfDisableMaster_def asfRequireDest_def asfRequireAuth_def)
qed

lemma sample_payment_effect:
  "Payment_doApply sample_env (checked_tr sample_payment p True (mkNative 990 False) True, held p taaMODIFY paid_account) =
   Inr (tecUNFUNDED_PAYMENT, checked_tr sample_payment p True (mkNative 990 False) True, held p taaMODIFY paid_account)"
proof -
  have f: "getFieldAmount sample_payment sfAmount = mkNative 5000 False" "\<not> isFieldPresent sample_payment sfSendMax" "\<not> isFieldPresent sample_payment sfPaths"
    "getFlags sample_payment = 0" "getFieldAccount160 sample_payment sfDestination = 3" "isLegalNet (mkNative 5000 False)"
    "signum (mkNative 5000 False) = 1" "CURRENCY_BAD \<noteq> 0" "getFlags paid_account = 0" "getFieldU32 paid_account sfOwnerCount = 0"
    "getTransactionFee sample_payment = mkNative 10 False"
    by code_simp+
  have r: "getReserve (\<lambda>_. 1) (config sample_env) sample_state 0 = 200" by code_simp
  have a: "amount_plus_u64 (mkNative 5000 False) 200 = Inr (mkNative 5200 False)" "amount_less (mkNative 1000 False) (mkNative 5200 False) = Inr True"
    by code_simp+
  have "payment_checks (checked_tr sample_payment p True (mkNative 990 False) True) (mkNative 5000 False) = tesSUCCESS"
    using f by (simp add: payment_checks_def Let_def checked_tr_def is_bit_set_def)
  moreover have "entryCache ltACCOUNT_ROOT 1 (held p taaMODIFY paid_account) = Inr (Some paid_account, held p taaMODIFY paid_account)"
    by (simp add: entryCache_def getEntry_def held_def init_def)
  moreover have "entryModify paid_account (held p taaMODIFY paid_account) = Inr (held p taaMODIFY paid_account)"
    by (simp add: entryModify_def held_def sample_facts put_entry_def sample_defs)
  ultimately show ?thesis
    by (simp add: Payment_doApply_def Let_def send_max_def payment_destination_def on_les_def direct_payment_def checked_tr_def f r a sample_facts
        getAccountRootIndex_def txn_account_def getNValue_def is_bit_set_def)
qed

text \<open>The metadata of the samples: the one account they charge.\<close>

definition sample_nodes :: "meta_node list" where
  "sample_nodes = [(sfModifiedNode, [(sfLedgerIndex, VH256 1), (sfLedgerEntryType, VU16 97),
      (sfPreviousFields, VObject [(sfSequence, VU32 7), (sfBalance, VAmount (mkNative 1000 False))]),
      (sfFinalFields, VObject [(sfFlags, VU32 0), (sfAccount, VAccount []), (sfSequence, VU32 8), (sfBalance, VAmount (mkNative 990 False)),
         (sfOwnerCount, VU32 0)])])]"

definition fits :: "exn + Serializer \<Rightarrow> bool" where
  "fits r = (case r of Inl _ \<Rightarrow> False | Inr s \<Rightarrow> length (mData s) \<le> 192)"

lemma fitsD: "fits r \<Longrightarrow> \<exists>s. r = Inr s \<and> length (mData s) \<le> 192"
  by (cases r) (auto simp: fits_def)

lemma sample_sorts: "sort_fields True [(sfTransactionResult, VU8 r), (sfTransactionIndex, VU32 0), (sfAffectedNodes, VArray ns)] =
    [(sfTransactionIndex, VU32 0), (sfAffectedNodes, VArray ns), (sfTransactionResult, VU8 r)]"
  "sort_fields True [(sfLedgerIndex, VH256 1), (sfLedgerEntryType, VU16 97), (sfPreviousFields, x), (sfFinalFields, y)] =
    [(sfLedgerEntryType, VU16 97), (sfLedgerIndex, VH256 1), (sfPreviousFields, x), (sfFinalFields, y)]"
  "sort_fields True [(sfSequence, VU32 7), (sfBalance, b)] = [(sfSequence, VU32 7), (sfBalance, b)]"
  "sort_fields True [(sfFlags, VU32 0), (sfAccount, a), (sfSequence, VU32 8), (sfBalance, c), (sfOwnerCount, VU32 0)] =
    [(sfFlags, VU32 0), (sfSequence, VU32 8), (sfOwnerCount, VU32 0), (sfBalance, c), (sfAccount, a)]"
  by code_simp+

lemma sample_meta_fits:
  "fits (object_add True [(sfTransactionResult, VU8 r), (sfTransactionIndex, VU32 0), (sfAffectedNodes, VArray sample_nodes)] \<lparr>mData = []\<rparr>)"
  by (simp add: object_add_def sample_sorts id_put end_put sample_nodes_def fits_def add_vl_def addVL_def encodeVL_def add8_def add16_def
      add32_def add256_def amount_put_def mkNative_def add64_def id_image_def field_image_def object_end_def array_end_def addFieldID_def
      byte_def addRaw_def Let_def)

definition loop_nodes :: "exn + LedgerEntrySet \<times> mods \<Rightarrow> (meta_node list \<times> STAmount option \<times> bool) option" where
  "loop_nodes r = (case r of Inl _ \<Rightarrow> None | Inr (les, nm) \<Rightarrow> Some (mMetaNodes (mSet les), mDelivered (mSet les), nm = []))"

lemma sample_loop: "loop_nodes (meta_loop (\<lambda>_. 1) 0 [1] (held 0 taaMODIFY paid_account, [])) = Some (sample_nodes, None, True)"
  by code_simp

lemma sample_calcRawMeta:
  "\<exists>s les. calcRawMeta (\<lambda>_. 1) 0 t 0 (held 0 taaMODIFY paid_account) = Inr (s, les) \<and> length (mData s) \<le> 192"
proof -
  obtain les1 where l: "meta_loop (\<lambda>_. 1) 0 [1] (held 0 taaMODIFY paid_account, []) = Inr (les1, [])"
    "mMetaNodes (mSet les1) = sample_nodes" "mDelivered (mSet les1) = None"
    using sample_loop by (auto simp: loop_nodes_def split: sum.splits prod.splits)
  have e: "map fst (mEntries (held 0 taaMODIFY paid_account)) = [1]" by (simp add: held_def)
  have n: "sort_key node_index sample_nodes = sample_nodes" by (simp add: sample_nodes_def)
  obtain s where "object_add True [(sfTransactionResult, VU8 (word_of_int t)), (sfTransactionIndex, VU32 0), (sfAffectedNodes, VArray sample_nodes)] \<lparr>mData = []\<rparr> = Inr s"
    "length (mData s) \<le> 192" using fitsD [OF sample_meta_fits] by blast
  then show ?thesis using l e n by (simp add: calcRawMeta_def meta_addRaw_def Let_def getAsObject_def del: sort_key_simps)
qed

lemma sample_bytes: "fits (tx_add True sample_set \<lparr>mData = []\<rparr>)" "fits (tx_add True sample_payment \<lparr>mData = []\<rparr>)"
  by code_simp+

lemma sample_getSLE_state: "getSLE sample_state = [1 \<mapsto> sample_account]"
  by (simp add: getSLE_def sample_state_def fun_eq_iff)

lemma sample_state_ok: "ledger_ok sample_state"
  by (simp add: ledger_ok_def sample_getSLE_state) (simp add: sample_state_def)

lemma held_ok: "les_ok (held p taaMODIFY paid_account)" "les_ok (held p taaCACHED sample_account)"
  using sample_state_ok by (simp_all add: les_ok_def held_def init_def entry_ok_def sample_getSLE_state sample_facts)

lemma sample_commit:
  assumes "fits (tx_add True txn \<lparr>mData = []\<rparr>)" "sampled txn"
  shows "\<exists>les'. commit sample_env 1 txn 0 t 0 (held 0 taaMODIFY paid_account) = Inr ((t, True), les')"
proof -
  obtain s les where m: "calcRawMeta (\<lambda>_. 1) 0 t 0 (held 0 taaMODIFY paid_account) = Inr (s, les)" "length (mData s) \<le> 192"
    using sample_calcRawMeta by blast
  obtain b where b: "tx_add True txn \<lparr>mData = []\<rparr> = Inr b" "length (mData b) \<le> 192" using fitsD [OF assms(1)] by blast
  have item: "\<exists>item. tx_meta_item b s = Inr item" using m(2) b(2) by (simp add: tx_meta_item_def addVL_def encodeVL_def addRaw_def Let_def)
  have ok: "les_ok (held 0 taaMODIFY paid_account)" "mMetaNodes (mSet (held 0 taaMODIFY paid_account)) = []"
    by (rule held_ok) (simp add: held_def)
  have "mLedger les = sample_state" using calcRawMeta_threads [OF ok m(1)] by (simp add: sample_facts)
  then have "\<not> hasTransaction (mLedger les) 1" by (simp add: hasTransaction_def sample_state_def sample_ledger_def)
  then show ?thesis using m b item assms(2)
    by (auto simp: commit_def sample_facts sample_env_def record_closed_def addTransaction_def sampled_def getNValue_def is_bit_set_def)
qed


lemma sample_run:
  assumes "sampled txn" "fits (tx_add True txn \<lparr>mData = []\<rparr>)" "makeTransactor oc (mTxType txn) = Some (base_class eff)"
    "eff sample_env (checked_tr txn 0 True (mkNative 990 False) True, held 0 taaMODIFY paid_account) =
       Inr (t, checked_tr txn 0 True (mkNative 990 False) True, held 0 taaMODIFY paid_account)"
    "decide sample_env txn 0 t (held 0 taaMODIFY paid_account) = Inr ((t, True), held 0 taaMODIFY paid_account)"
  shows "\<exists>eng. applyTransaction oc sample_env txn 0 (sample_engine True) = Inr ((t, True), txn, eng) \<and>
    mClosingLedger eng \<and> native_source sample_env (engLedger eng) txn"
proof -
  obtain les where c: "commit sample_env 1 txn 0 t 0 (held 0 taaMODIFY paid_account) = Inr ((t, True), les)"
    using sample_commit [OF assms(2,1)] by blast
  have i: "init (engLedger (sample_engine True)) 1 (mLedgerSeq (engLedger (sample_engine True))) 0 (mNodes (sample_engine True)) = init sample_state 1 2 0 sample_les"
    by (simp add: sample_engine_def sample_state_def sample_ledger_def)
  have id: "getTransactionID (sha512Half sample_env) txn = Inr 1" using assms(1) by (simp add: sampled_def sample_facts)
  have e: "mClosingLedger (sample_engine True)" "mTxnSeq (sample_engine True) = 0" by (simp_all add: sample_engine_def)
  have v: "view (held 0 taaMODIFY paid_account) 1 = Some paid_account" by (simp add: view_def held_def)
  have "committed 1 txn False (view (held 0 taaMODIFY paid_account)) sample_state (mLedger les)"
    using commit_applied [OF c held_ok(1)] by (simp add: sample_facts is_bit_set_def) (simp add: held_def)
  then have "rel_option threaded (Some paid_account) (getSLE (mLedger les) 1)" unfolding committed_def by (metis v)
  then obtain s where s: "getSLE (mLedger les) 1 = Some s" "threaded paid_account s" by (metis option.rel_cases option.distinct(1) option.inject)
  have "getFieldAmount s sfBalance = mkNative 990 False"
    using s(2) edited_get(2) [of thread_fields paid_account s sfBalance] by (simp add: threaded_edited thread_fields_def sample_facts)
  then have "native_source sample_env (mLedger les) txn" using s(1) by (simp add: native_source_def sample_facts getAccountRootIndex_def)
  then show ?thesis unfolding applyTransaction_def
    by (simp add: id i Let_def assms(3,4,5) sample_apply [OF assms(1)] e finish_def checkInvariants_def c) (simp add: checked_tr_def)
qed

lemma sample_claim:
  assumes "sampled txn"
  shows "claim_fee sample_env txn t (held p taaMODIFY paid_account) = Inr ((t, True), held p taaMODIFY paid_account)"
proof -
  have c: "clear (held p taaMODIFY paid_account) = init sample_state 1 2 p sample_les"
    by (simp add: clear_def held_def init_def meta_clear_def meta_init_def sample_les_def)
  have a: "setFieldU32 sfSequence 8 (setFieldAmount sfBalance (mkNative 990 False) sample_account) = paid_account"
    by (simp add: paid_account_def setFieldU32_def setFieldAmount_def fun_upd_twist)
  show ?thesis using assms
    by (simp add: claim_fee_def Let_def sampled_def getAccountID_def c sample_cached getAccountRootIndex_def sample_facts a)
qed

lemma sample_types: "makeTransactor oc (mTxType sample_set) = Some (base_class AccountSet_doApply)"
  "makeTransactor oc (mTxType sample_payment) = Some (base_class Payment_doApply)"
  by (simp_all add: makeTransactor_def sample_set_def sample_payment_def tx_types PaymentTransactor_def AccountSetTransactor_def)

lemma sample_set_run: "\<exists>eng. applyTransaction oc sample_env sample_set 0 (sample_engine True) = Inr ((tesSUCCESS, True), sample_set, eng) \<and>
    mClosingLedger eng \<and> native_source sample_env (engLedger eng) sample_set"
  by (rule sample_run [OF sampled_sets(1) sample_bytes(1) sample_types(1) sample_set_effect]) (simp add: decide_def isTesSuccess_def)

lemma sample_payment_run: "\<exists>eng. applyTransaction oc sample_env sample_payment 0 (sample_engine True) = Inr ((tecUNFUNDED_PAYMENT, True), sample_payment, eng) \<and>
    mClosingLedger eng \<and> native_source sample_env (engLedger eng) sample_payment"
  by (rule sample_run [OF sampled_sets(2) sample_bytes(2) sample_types(2) sample_payment_effect])
    (simp add: decide_def sample_claim [OF sampled_sets(2)], simp add: isTesSuccess_def isTecClaim_def ter_codes is_bit_set_def)

lemma sample_path_ok: "path_engine_ok sample_env"
  by (simp add: path_engine_ok_def sample_env_def)

lemma sample_init: "init (engLedger (sample_engine c)) 1 (mLedgerSeq (engLedger (sample_engine c))) p (mNodes (sample_engine c)) = init sample_state 1 2 p sample_les"
  by (simp add: sample_engine_def sample_state_def sample_ledger_def)

lemma sample_payment_rejected: "\<exists>eng. applyTransaction oc sample_env sample_payment tapRETRY (sample_engine True) = Inr ((tecUNFUNDED_PAYMENT, False), sample_payment, eng)"
proof -
  have id: "getTransactionID (sha512Half sample_env) sample_payment = Inr 1" using sampled_sets by (simp add: sampled_def sample_facts)
  have "decide sample_env sample_payment tapRETRY tecUNFUNDED_PAYMENT les = Inr ((tecUNFUNDED_PAYMENT, False), les)" for les
    by (simp add: decide_def isTesSuccess_def isTecClaim_def ter_codes is_bit_set_def tapRETRY_def)
  moreover have "mClosingLedger (sample_engine True)" by (simp add: sample_engine_def)
  ultimately show ?thesis unfolding applyTransaction_def
    by (simp add: id sample_init Let_def sample_types sample_apply [OF sampled_sets(2)] sample_payment_effect finish_def) (simp add: checked_tr_def)
qed

lemma sample_set_open: "\<exists>eng. applyTransaction oc sample_env sample_set tapOPEN_LEDGER (sample_engine False) = Inr ((tesSUCCESS, True), sample_set, eng)"
proof -
  have id: "getTransactionID (sha512Half sample_env) sample_set = Inr 1" using sampled_sets by (simp add: sampled_def sample_facts)
  have nc: "\<not> hasChanges (held p taaCACHED paid_account)" for p by (simp add: hasChanges_def held_def)
  have n: "mMetaNodes (mSet (held p taaCACHED paid_account)) = []" for p by (simp add: held_def)
  obtain s les where m: "calcRawMeta (\<lambda>_. 1) 0 tesSUCCESS 0 (held tapOPEN_LEDGER taaCACHED paid_account) = Inr (s, les)"
    using meta_addRaw_total [of "mSet (held tapOPEN_LEDGER taaCACHED paid_account)" tesSUCCESS 0 "\<lparr>mData = []\<rparr>"] n
    by (auto simp: calcRawMeta_def meta_loop_unchanged [OF nc])
  have l: "mLedger les = sample_state" using holdsD [OF calcRawMeta_unchanged [OF nc] m] by (simp add: sample_facts)
  obtain b where b: "tx_add True sample_set \<lparr>mData = []\<rparr> = Inr b" using fitsD [OF sample_bytes(1)] by blast
  have "\<exists>les. commit sample_env 1 sample_set tapOPEN_LEDGER tesSUCCESS 0 (held tapOPEN_LEDGER taaCACHED paid_account) = Inr ((tesSUCCESS, True), les)"
    using m b l by (simp add: commit_def sample_facts sample_env_def record_open_def addTransaction_def is_bit_set_def tapOPEN_LEDGER_def
        hasTransaction_def sample_state_def sample_ledger_def)
  then obtain les2 where c: "commit sample_env 1 sample_set tapOPEN_LEDGER tesSUCCESS 0 (held tapOPEN_LEDGER taaCACHED paid_account) = Inr ((tesSUCCESS, True), les2)" ..
  have e: "\<not> mClosingLedger (sample_engine False)" "mTxnSeq (sample_engine False) = 0" by (simp_all add: sample_engine_def)
  have d: "decide sample_env sample_set tapOPEN_LEDGER tesSUCCESS les = Inr ((tesSUCCESS, True), les)" for les by (simp add: decide_def isTesSuccess_def)
  show ?thesis unfolding applyTransaction_def
    by (simp add: id sample_init Let_def sample_types sample_apply [OF sampled_sets(1)] e d finish_def checkInvariants_def c) (simp add: checked_tr_def)
qed

lemma sample_funded: "funded sample_state"
proof -
  have "getFieldAmount sample_account sfBalance = mkNative 1000 False" by (rule sample_account_fields)
  then show ?thesis using sample_state_ok
    by (auto simp: funded_def all_solvent_def coins_def sample_getSLE_state solvent_def native_balance_def split: if_splits)
      (simp_all add: sample_state_def cMaxNative_def)
qed

lemma sample_native: "native_source sample_env sample_state txn"
  by (simp add: native_source_def sample_facts getAccountRootIndex_def sample_getSLE_state)

section \<open>The laws at the samples\<close>

lemma sample_engine_simps: "engLedger (sample_engine c) = sample_state" "mClosingLedger (sample_engine c) = c"
  by (simp_all add: sample_engine_def)

lemma sample_tx_types: "mTxType sample_set \<noteq> ttOFFER_CREATE" "mTxType sample_payment \<noteq> ttOFFER_CREATE"
  "conserving sample_env l sample_set" "getTransactionFee sample_set = mkNative 10 False"
  using sampled_sets by (simp_all add: sample_set_def sample_payment_def tx_types conserving_def sampled_def)

lemma sample_params: "\<not> is_bit_set 0 tapOPEN_LEDGER" "\<not> is_bit_set tapRETRY tapOPEN_LEDGER" "is_bit_set tapOPEN_LEDGER tapOPEN_LEDGER"
  by (simp_all add: is_bit_set_def tapOPEN_LEDGER_def tapRETRY_def)

theorem rejected_leaves_ledger_witness:
  "\<exists>eng. applyTransaction OfferCancelTransactor sample_env sample_payment tapRETRY (sample_engine True) =
      Inr ((tecUNFUNDED_PAYMENT, False), sample_payment, eng) \<and> same_ledger sample_env sample_state (engLedger eng)"
proof -
  obtain eng where r: "applyTransaction OfferCancelTransactor sample_env sample_payment tapRETRY (sample_engine True) =
      Inr ((tecUNFUNDED_PAYMENT, False), sample_payment, eng)" using sample_payment_rejected by blast
  have "same_ledger sample_env (engLedger (sample_engine True)) (engLedger eng)"
    by (rule rejected_leaves_ledger [OF sample_path_ok sample_tx_types(2) _ _ r])
      (simp_all add: sample_engine_simps sample_params sample_state_ok)
  then show ?thesis using r by (simp add: sample_engine_simps)
qed





end
